(* ===== verification/Epx_Prelude.thy ===== *)
theory Epx_Prelude
  imports Main "HOL-Library.Word"
begin

text \<open>
  Shared vocabulary of the development: the machine integers of the C code, the results
  of code that can fault, array access with its bounds, the compile-time constants of
  \<^verbatim>\<open>include/epx.h\<close>, and the generic lemmas on lists and words that several components
  use. Nothing here is specific to one component.
\<close>

unbundle bit_operations_syntax

named_theorems res_simps \<open>evaluation of the fault monad and of array access\<close>
named_theorems const_defs \<open>the compile-time constants\<close>

section \<open>Machine integers and constants\<close>

type_synonym u8 = "8 word"
type_synonym u16 = "16 word"
type_synonym u32 = "32 word"
type_synonym u64 = "64 word"

text \<open>\<^verbatim>\<open>include/epx.h\<close>: the size of the replica group and of the fixed arrays.\<close>

definition N :: nat where [const_defs]: "N = 3"
definition KEY_SIZE :: nat where [const_defs]: "KEY_SIZE = 3"
definition MAX_DEPS :: nat where [const_defs]: "MAX_DEPS = 8"
definition TX_SIZE :: nat where [const_defs]: "TX_SIZE = 100"

lemma N_div_2 [simp]: "N div 2 = 1"
  by (simp add: N_def)

lemma MAX_DEPS_pos [simp]: "0 < MAX_DEPS"
  by (simp add: MAX_DEPS_def)

section \<open>Code that can fault\<close>

text \<open>
  A C function that may leave the defined part of the language returns a sum: \<open>Inl\<close> names
  what goes wrong first, \<open>Inr\<close> carries the state it leaves. \<open>Loop_bound\<close> is not a fault
  of the code: it is how a loop over a library structure reports that its fuel was too small.
\<close>

datatype fault = Null_deref | Use_after_free | Use_after_scope | Out_of_bounds | Loop_bound

type_synonym 'a res = "fault + 'a"

definition and_then :: "'a res \<Rightarrow> ('a \<Rightarrow> 'b res) \<Rightarrow> 'b res" where
  "and_then m f = (case m of Inl e \<Rightarrow> Inl e | Inr x \<Rightarrow> f x)"

lemma and_then_Inl [simp, res_simps]: "and_then (Inl e) f = Inl e"
  by (simp add: and_then_def)

lemma and_then_Inr [simp, res_simps]: "and_then (Inr x) f = f x"
  by (simp add: and_then_def)

lemma and_then_eq_Inr:
  "and_then m f = Inr y \<longleftrightarrow> (\<exists>x. m = Inr x \<and> f x = Inr y)"
  by (cases m) simp_all

lemma and_then_eq_Inl:
  "and_then m f = Inl e \<longleftrightarrow> m = Inl e \<or> (\<exists>x. m = Inr x \<and> f x = Inl e)"
  by (cases m) simp_all

lemma and_then_assoc: "and_then (and_then m f) g = and_then m (\<lambda>x. and_then (f x) g)"
  by (cases m) simp_all

lemma and_thenE:
  assumes "and_then m f = Inr y"
  obtains x where "m = Inr x" "f x = Inr y"
  using assms by (auto simp: and_then_eq_Inr)

text \<open>Following a pointer: \<open>None\<close> is \<^verbatim>\<open>NULL\<close>.\<close>

definition deref :: "'a option \<Rightarrow> 'a res" where
  "deref p = (case p of None \<Rightarrow> Inl Null_deref | Some x \<Rightarrow> Inr x)"

lemma deref_simps [simp, res_simps]:
  "deref None = Inl Null_deref" "deref (Some x) = Inr x"
  by (simp_all add: deref_def)

lemma deref_eq_Inr [simp]: "deref p = Inr x \<longleftrightarrow> p = Some x"
  by (cases p) simp_all

text \<open>Following a pointer into the heap: an address that was freed is a fault too.\<close>

definition load :: "('p \<Rightarrow> 'a option) \<Rightarrow> 'p \<Rightarrow> 'a res" where
  "load h p = (case h p of None \<Rightarrow> Inl Use_after_free | Some x \<Rightarrow> Inr x)"

lemma load_eq_Inr [simp]: "load h p = Inr x \<longleftrightarrow> h p = Some x"
  by (simp add: load_def split: option.split)

lemma load_Some [res_simps]: "h p = Some x \<Longrightarrow> load h p = Inr x"
  by simp

text \<open>Array access at an index the compiler does not check.\<close>

definition aget :: "'a list \<Rightarrow> nat \<Rightarrow> 'a res" where
  "aget xs i = (if i < length xs then Inr (xs ! i) else Inl Out_of_bounds)"

definition aset :: "'a list \<Rightarrow> nat \<Rightarrow> 'a \<Rightarrow> 'a list res" where
  "aset xs i x = (if i < length xs then Inr (xs[i := x]) else Inl Out_of_bounds)"

lemma aget_in [simp, res_simps]: "i < length xs \<Longrightarrow> aget xs i = Inr (xs ! i)"
  by (simp add: aget_def)

lemma aset_in [simp, res_simps]: "i < length xs \<Longrightarrow> aset xs i x = Inr (xs[i := x])"
  by (simp add: aset_def)

lemma aget_out [simp, res_simps]: "length xs \<le> i \<Longrightarrow> aget xs i = Inl Out_of_bounds"
  by (simp add: aget_def)

lemma aset_out [simp, res_simps]: "length xs \<le> i \<Longrightarrow> aset xs i x = Inl Out_of_bounds"
  by (simp add: aset_def)

lemma aget_eq_Inr: "aget xs i = Inr x \<longleftrightarrow> i < length xs \<and> x = xs ! i"
  by (auto simp: aget_def)

lemma aset_eq_Inr: "aset xs i x = Inr ys \<longleftrightarrow> i < length xs \<and> ys = xs[i := x]"
  by (auto simp: aset_def)

text \<open>A counted \<^verbatim>\<open>for\<close> loop without early exit, over the list of its indices.\<close>

fun for_each :: "'i list \<Rightarrow> ('i \<Rightarrow> 's \<Rightarrow> 's res) \<Rightarrow> 's \<Rightarrow> 's res" where
  "for_each [] f s = Inr s"
| "for_each (i # is) f s = and_then (f i s) (for_each is f)"

lemma for_each_append:
  "for_each (xs @ ys) f s = and_then (for_each xs f s) (for_each ys f)"
proof (induction xs arbitrary: s)
  case Nil
  then show ?case by simp
next
  case (Cons x xs)
  then show ?case by (cases "f x s") simp_all
qed

lemma for_each_invariant:
  assumes "for_each xs f s = Inr s'" and "P s"
    and "\<And>x s s'. x \<in> set xs \<Longrightarrow> P s \<Longrightarrow> f x s = Inr s' \<Longrightarrow> P s'"
  shows "P s'"
  using assms
proof (induction xs arbitrary: s)
  case Nil
  then show ?case by simp
next
  case (Cons x xs)
  from Cons.prems(1) obtain t where t: "f x s = Inr t" "for_each xs f t = Inr s'"
    by (auto simp: and_then_eq_Inr)
  have "P t" using Cons.prems(2) t(1) by (rule Cons.prems(3) [rotated]) simp
  with t(2) show ?case by (rule Cons.IH) (auto intro: Cons.prems(3))
qed

text \<open>A loop whose body cannot fault is a fold.\<close>

lemma for_each_total:
  "(\<And>x s. x \<in> set xs \<Longrightarrow> f x s = Inr (g x s)) \<Longrightarrow> for_each xs f s = Inr (fold g xs s)"
  by (induction xs arbitrary: s) simp_all

text \<open>A loop whose body succeeds and keeps an invariant succeeds.\<close>

lemma for_each_ok:
  assumes "P s" and "\<And>x s. x \<in> set xs \<Longrightarrow> P s \<Longrightarrow> \<exists>s'. f x s = Inr s' \<and> P s'"
  shows "\<exists>s'. for_each xs f s = Inr s' \<and> P s'"
  using assms
proof (induction xs arbitrary: s)
  case Nil
  then show ?case by simp
next
  case (Cons x xs)
  from Cons.prems obtain t where t: "f x s = Inr t" "P t" by (metis list.set_intros(1))
  have "\<exists>s'. for_each xs f t = Inr s' \<and> P s'"
    by (rule Cons.IH [OF t(2)]) (use Cons.prems(2) in auto)
  with t(1) show ?case by simp
qed

text \<open>A loop that keeps an invariant until it meets an element whose body fails.\<close>

lemma for_each_until:
  assumes "\<And>x s. x \<in> set xs \<Longrightarrow> P s \<Longrightarrow> if bad x then f x s = Inl e else \<exists>s'. f x s = Inr s' \<and> P s'" and "P s"
  shows "if \<exists>x \<in> set xs. bad x then for_each xs f s = Inl e else \<exists>s'. for_each xs f s = Inr s' \<and> P s'"
  using assms
proof (induction xs arbitrary: s)
  case Nil
  then show ?case by simp
next
  case (Cons x xs)
  have x: "if bad x then f x s = Inl e else \<exists>s'. f x s = Inr s' \<and> P s'" using Cons.prems by simp
  show ?case
  proof (cases "bad x")
    case True
    with x show ?thesis by simp
  next
    case False
    with x obtain t where t: "f x s = Inr t" "P t" by auto
    have "if \<exists>x \<in> set xs. bad x then for_each xs f t = Inl e else \<exists>s'. for_each xs f t = Inr s' \<and> P s'"
      by (rule Cons.IH) (use Cons.prems(1) t(2) in auto)
    with t(1) False show ?thesis by simp
  qed
qed

text \<open>Code whose own faults do not include a loop that ran out of fuel.\<close>

definition no_bound :: "'a res \<Rightarrow> bool" where
  "no_bound m \<longleftrightarrow> m \<noteq> Inl Loop_bound"

named_theorems no_bound_intros \<open>code that never reports a loop bound\<close>

lemma no_bound_basic [no_bound_intros, simp]:
  "no_bound (Inr x)" "no_bound (Inl Null_deref)" "no_bound (Inl Use_after_free)"
  "no_bound (Inl Use_after_scope)" "no_bound (Inl Out_of_bounds)" "no_bound (deref p)" "no_bound (load h a)"
  "no_bound (aget xs i)" "no_bound (aset xs i y)"
  by (simp_all add: no_bound_def deref_def load_def aget_def aset_def split: option.split)

lemma no_bound_and_then [no_bound_intros]:
  "no_bound m \<Longrightarrow> (\<And>x. m = Inr x \<Longrightarrow> no_bound (f x)) \<Longrightarrow> no_bound (and_then m f)"
  by (auto simp: no_bound_def and_then_eq_Inl)

lemma no_bound_for_each [no_bound_intros]:
  "(\<And>x s. x \<in> set xs \<Longrightarrow> no_bound (f x s)) \<Longrightarrow> no_bound (for_each xs f s)"
  by (induction xs arbitrary: s) (auto intro!: no_bound_and_then)

text \<open>What holds of a result if there is one; the rules follow the shape of the code.\<close>

definition yields :: "('a \<Rightarrow> bool) \<Rightarrow> 'a res \<Rightarrow> bool" where
  "yields P m \<longleftrightarrow> (\<forall>x. m = Inr x \<longrightarrow> P x)"

named_theorems yields_intros \<open>partial correctness, by the shape of the code\<close>

lemma yieldsD: "yields P m \<Longrightarrow> m = Inr x \<Longrightarrow> P x"
  by (simp add: yields_def)

lemma yieldsI: "(\<And>x. m = Inr x \<Longrightarrow> P x) \<Longrightarrow> yields P m"
  by (simp add: yields_def)

lemma yields_Inl [simp, yields_intros]: "yields P (Inl e)"
  by (simp add: yields_def)

lemma yields_Inr [yields_intros]: "P x \<Longrightarrow> yields P (Inr x)"
  by (simp add: yields_def)

lemma yields_and_then [yields_intros]:
  "(\<And>x. m = Inr x \<Longrightarrow> yields P (f x)) \<Longrightarrow> yields P (and_then m f)"
  by (auto simp: yields_def and_then_eq_Inr)

lemma yields_if [yields_intros]:
  "(b \<Longrightarrow> yields P x) \<Longrightarrow> (\<not> b \<Longrightarrow> yields P y) \<Longrightarrow> yields P (if b then x else y)"
  by simp

lemma yields_option [yields_intros]:
  "(c = None \<Longrightarrow> yields P x) \<Longrightarrow> (\<And>a. c = Some a \<Longrightarrow> yields P (f a)) \<Longrightarrow>
   yields P (case c of None \<Rightarrow> x | Some a \<Rightarrow> f a)"
  by (cases c) simp_all

lemma yields_prod [yields_intros]:
  "(\<And>a b. c = (a, b) \<Longrightarrow> yields P (f a b)) \<Longrightarrow> yields P (case c of (a, b) \<Rightarrow> f a b)"
  by (cases c) simp

lemma yields_let [yields_intros]: "(\<And>x. x = t \<Longrightarrow> yields P (f x)) \<Longrightarrow> yields P (let x = t in f x)"
  by simp

section \<open>Lists\<close>

text \<open>The first position where a scan stops.\<close>

fun find_index :: "('a \<Rightarrow> bool) \<Rightarrow> 'a list \<Rightarrow> nat option" where
  "find_index P [] = None"
| "find_index P (x # xs) = (if P x then Some 0 else map_option Suc (find_index P xs))"

lemma find_index_None: "find_index P xs = None \<longleftrightarrow> (\<forall>x \<in> set xs. \<not> P x)"
  by (induction xs) auto

lemma find_index_Some:
  "find_index P xs = Some i \<longleftrightarrow> i < length xs \<and> P (xs ! i) \<and> (\<forall>j < i. \<not> P (xs ! j))"
proof (induction xs arbitrary: i)
  case Nil
  then show ?case by simp
next
  case (Cons x xs)
  then show ?case by (cases i) (auto simp: All_less_Suc2)
qed

lemma find_index_append:
  "find_index P (xs @ ys) =
     (case find_index P xs of Some i \<Rightarrow> Some i
      | None \<Rightarrow> map_option ((+) (length xs)) (find_index P ys))"
proof (induction xs)
  case Nil
  show ?case by (cases "find_index P ys") simp_all
next
  case (Cons x xs)
  then show ?case by (cases "find_index P xs"; cases "find_index P ys") simp_all
qed

lemma sorted_wrt_takeWhile_dropWhile:
  assumes "sorted_wrt R xs" and "\<And>x y. R x y \<Longrightarrow> P y \<Longrightarrow> P x"
  shows "takeWhile P xs = filter P xs" and "dropWhile P xs = filter (\<lambda>x. \<not> P x) xs"
proof -
  have "takeWhile P xs = filter P xs \<and> dropWhile P xs = filter (\<lambda>x. \<not> P x) xs"
    using assms(1)
  proof (induction xs)
    case Nil
    then show ?case by simp
  next
    case (Cons x xs)
    show ?case
    proof (cases "P x")
      case True
      with Cons show ?thesis by simp
    next
      case False
      with Cons.prems assms(2) have "\<forall>y \<in> set xs. \<not> P y" by auto
      then have "filter P xs = []" "filter (\<lambda>x. \<not> P x) xs = xs"
        by (auto simp: filter_empty_conv filter_id_conv)
      with False show ?thesis by simp
    qed
  qed
  then show "takeWhile P xs = filter P xs" and "dropWhile P xs = filter (\<lambda>x. \<not> P x) xs"
    by simp_all
qed

lemma take_drop_exact: "length xs = n \<Longrightarrow> take n (xs @ ys) = xs \<and> drop n (xs @ ys) = ys"
  by simp

lemma unat_u8_bound: "unat (b :: u8) < 256"
proof -
  have "unat b < 2 ^ LENGTH(8)" by (rule unsigned_less)
  then show ?thesis by simp
qed

lemma set_butlastD: "x \<in> set (butlast xs) \<Longrightarrow> x \<in> set xs"
  by (rule in_set_butlastD)

lemma set_tlD: "x \<in> set (tl xs) \<Longrightarrow> x \<in> set xs"
  by (cases xs) auto

lemma sorted_wrt_butlast: "sorted_wrt R xs \<Longrightarrow> sorted_wrt R (butlast xs)"
  by (simp add: butlast_conv_take sorted_wrt_take)

lemma distinct_map_butlast: "distinct (map f xs) \<Longrightarrow> distinct (map f (butlast xs))"
  by (simp add: map_butlast distinct_butlast)

lemma distinct_replace_last:
  "distinct (map f (A @ B)) \<Longrightarrow> f d \<notin> f ` set (A @ B) \<Longrightarrow> distinct (map f (A @ d # butlast B))"
  by (cases B rule: rev_cases) auto

end
