(* ===== verification/Epx_Command.thy ===== *)
theory Epx_Command
  imports Epx_Prelude
begin

text \<open>
  \<^verbatim>\<open>src/command.c\<close>, \<^verbatim>\<open>src/command.h\<close> and \<^verbatim>\<open>src/instance_id.c\<close>: keys, key ranges,
  commands and the interference test. The conversions of \<^verbatim>\<open>command.c\<close> to and from the wire
  are in \<open>Epx_Wire\<close>.
\<close>

section \<open>Instance identifiers\<close>

record instance_id =
  replica_id :: u64
  instance_id :: u64

record dependency =
  dep_id :: instance_id
  committed :: u8

definition eq_instance_id :: "instance_id \<Rightarrow> instance_id \<Rightarrow> bool" where
  "eq_instance_id a b \<longleftrightarrow> instance_id a = instance_id b \<and> replica_id a = replica_id b"

definition max_seq :: "u64 \<Rightarrow> u64 \<Rightarrow> u64" where
  "max_seq a b = (if a > b then a else b)"

lemma eq_instance_id_iff [simp]: "eq_instance_id a b \<longleftrightarrow> a = b"
  by (cases a; cases b) (auto simp: eq_instance_id_def)

lemma max_seq_max [simp]: "max_seq a b = max a b"
  by (auto simp: max_seq_def max_def not_less intro: order_antisym)

section \<open>Keys\<close>

text \<open>
  A \<^verbatim>\<open>char[KEY_SIZE]\<close> is read only through \<^verbatim>\<open>strcmp\<close> and its first byte, so a key is
  the bytes before the terminator. \<open>strcmp\<close> is the C library's: bytes are compared as
  unsigned, and the shorter of two strings with a common prefix is the smaller.
\<close>

datatype key = Key (key_bytes: "u8 list")

fun byte_cmp :: "u8 list \<Rightarrow> u8 list \<Rightarrow> int" where
  "byte_cmp [] [] = 0"
| "byte_cmp [] (y # ys) = -1"
| "byte_cmp (x # xs) [] = 1"
| "byte_cmp (x # xs) (y # ys) = (if x < y then -1 else if y < x then 1 else byte_cmp xs ys)"

definition strcmp :: "key \<Rightarrow> key \<Rightarrow> int" where
  "strcmp a b = byte_cmp (key_bytes a) (key_bytes b)"

text \<open>\<open>strcmp\<close> makes the keys a linear order, which the library's automation then knows.\<close>

lemma byte_cmp_refl [simp]: "byte_cmp xs xs = 0"
  by (induction xs) auto

lemma byte_cmp_0: "byte_cmp xs ys = 0 \<longleftrightarrow> xs = ys"
  by (induction xs ys rule: byte_cmp.induct) auto

lemma byte_cmp_swap: "byte_cmp ys xs = - byte_cmp xs ys"
  by (induction xs ys rule: byte_cmp.induct) auto

lemma byte_cmp_trans:
  "byte_cmp xs ys \<le> 0 \<Longrightarrow> byte_cmp ys zs \<le> 0 \<Longrightarrow> byte_cmp xs zs \<le> 0"
proof (induction xs ys arbitrary: zs rule: byte_cmp.induct)
  case (2 y ys)
  then show ?case by (cases zs) auto
next
  case (4 x xs y ys)
  then show ?case by (cases zs) (auto split: if_splits)
qed auto

instantiation key :: linorder
begin

definition less_eq_key :: "key \<Rightarrow> key \<Rightarrow> bool" where
  "less_eq_key a b \<longleftrightarrow> strcmp a b \<le> 0"

definition less_key :: "key \<Rightarrow> key \<Rightarrow> bool" where
  "less_key a b \<longleftrightarrow> strcmp a b < 0"

instance
proof
  fix a b c :: key
  show "a < b \<longleftrightarrow> a \<le> b \<and> \<not> b \<le> a"
    unfolding less_eq_key_def less_key_def strcmp_def
    using byte_cmp_swap [of "key_bytes a" "key_bytes b"] by auto
  show "a \<le> a"
    by (simp add: less_eq_key_def strcmp_def)
  show "a \<le> b \<Longrightarrow> b \<le> c \<Longrightarrow> a \<le> c"
    unfolding less_eq_key_def strcmp_def by (rule byte_cmp_trans)
  show "a \<le> b \<Longrightarrow> b \<le> a \<Longrightarrow> a = b"
    unfolding less_eq_key_def strcmp_def
    using byte_cmp_swap [of "key_bytes a" "key_bytes b"]
    by (auto simp: byte_cmp_0 intro: key.expand)
  show "a \<le> b \<or> b \<le> a"
    unfolding less_eq_key_def strcmp_def
    using byte_cmp_swap [of "key_bytes a" "key_bytes b"] by auto
qed

end

lemma strcmp_le [simp]: "strcmp a b \<le> 0 \<longleftrightarrow> a \<le> b"
  by (simp add: less_eq_key_def)

lemma strcmp_less [simp]: "strcmp a b < 0 \<longleftrightarrow> a < b"
  by (simp add: less_key_def)

lemma strcmp_swap: "strcmp b a = - strcmp a b"
  unfolding strcmp_def by (rule byte_cmp_swap)

lemma strcmp_ge [simp]: "0 \<le> strcmp a b \<longleftrightarrow> b \<le> a"
proof -
  have "strcmp a b = - strcmp b a" by (rule strcmp_swap)
  then show ?thesis by simp
qed

lemma strcmp_greater [simp]: "0 < strcmp a b \<longleftrightarrow> b < a"
  by (simp only: not_le [symmetric] strcmp_le)

section \<open>Ranges and commands\<close>

text \<open>
  The \<^verbatim>\<open>entry\<close>, \<^verbatim>\<open>max\<close> and \<^verbatim>\<open>next\<close> members of \<^verbatim>\<open>struct span\<close> are the links of the
  tree and list libraries; the unused \<^verbatim>\<open>value\<close> of \<^verbatim>\<open>struct command\<close> is left out.
\<close>

record span =
  start_key :: key
  end_key :: key

datatype io_t = READ | WRITE

record command =
  spans :: "span list"
  tx_size :: u64
  cmd_id :: u32
  writing :: io_t

definition overlaps :: "span \<Rightarrow> span \<Rightarrow> bool" where
  "overlaps s1 s2 \<longleftrightarrow>
     strcmp (start_key s1) (end_key s2) \<le> 0 \<and> strcmp (end_key s1) (start_key s2) \<ge> 0"

text \<open>\<^verbatim>\<open>start_key[0] == '\0'\<close>.\<close>

definition empty_range :: "span \<Rightarrow> bool" where
  "empty_range s \<longleftrightarrow> key_bytes (start_key s) = []"

definition encloses :: "span \<Rightarrow> span \<Rightarrow> bool" where
  "encloses s1 s2 \<longleftrightarrow>
     strcmp (start_key s1) (start_key s2) \<le> 0 \<and> strcmp (end_key s1) (end_key s2) \<ge> 0"

text \<open>The all-zero span that \<^verbatim>\<open>memset\<close> leaves in a scratch array.\<close>

definition zero_span :: span where
  "zero_span = \<lparr>start_key = Key [], end_key = Key []\<rparr>"

text \<open>
  The brute-force overlap of two commands: every pair of ranges that overlap writes the
  first command's range to the next slot of the caller's array \<open>c\<close>, without a bound.
\<close>

definition overlap_step :: "span \<Rightarrow> span \<Rightarrow> bool \<times> nat \<times> span list \<Rightarrow> (bool \<times> nat \<times> span list) res" where
  "overlap_step s1 s2 = (\<lambda>(ret, cnt, c).
     if overlaps s1 s2 then and_then (aset c cnt s1) (\<lambda>c'. Inr (True, Suc cnt, c'))
     else Inr (ret, cnt, c))"

definition overlap_sparse :: "command \<Rightarrow> command \<Rightarrow> span list \<Rightarrow> (bool \<times> span list) res" where
  "overlap_sparse c1 c2 c =
     and_then
       (for_each [0..<unat (tx_size c1)] (\<lambda>i.
          for_each [0..<unat (tx_size c2)] (\<lambda>j st.
            and_then (aget (spans c1) i) (\<lambda>s1.
              and_then (aget (spans c2) j) (\<lambda>s2. overlap_step s1 s2 st))))
        (False, 0, c))
       (\<lambda>(ret, cnt, c'). Inr (ret, c'))"

definition interferes :: "command \<Rightarrow> command \<Rightarrow> span list \<Rightarrow> (bool \<times> span list) res" where
  "interferes c1 c2 c =
     (if writing c1 = WRITE \<or> writing c2 = WRITE then overlap_sparse c1 c2 c
      else Inr (False, c))"

section \<open>Properties of ranges\<close>

definition span_set :: "span \<Rightarrow> key set" where
  "span_set s = {start_key s .. end_key s}"

definition valid_span :: "span \<Rightarrow> bool" where
  "valid_span s \<longleftrightarrow> start_key s \<le> end_key s"

lemma overlaps_iff [simp]:
  "overlaps s1 s2 \<longleftrightarrow> start_key s1 \<le> end_key s2 \<and> start_key s2 \<le> end_key s1"
  by (simp add: overlaps_def)

lemma encloses_iff [simp]:
  "encloses s1 s2 \<longleftrightarrow> start_key s1 \<le> start_key s2 \<and> end_key s2 \<le> end_key s1"
  by (simp add: encloses_def)

lemma overlaps_sym: "overlaps s1 s2 \<longleftrightarrow> overlaps s2 s1"
  by auto

lemma encloses_trans: "encloses a b \<Longrightarrow> encloses b c \<Longrightarrow> encloses a c"
  by auto

lemma overlaps_span_set:
  assumes "valid_span s1" "valid_span s2"
  shows "overlaps s1 s2 \<longleftrightarrow> span_set s1 \<inter> span_set s2 \<noteq> {}"
proof -
  have "overlaps s1 s2 \<longleftrightarrow> max (start_key s1) (start_key s2) \<le> min (end_key s1) (end_key s2)"
    using assms by (auto simp: valid_span_def)
  also have "\<dots> \<longleftrightarrow> span_set s1 \<inter> span_set s2 \<noteq> {}"
    by (auto simp: span_set_def)
  finally show ?thesis .
qed

section \<open>Properties of the interference test\<close>

text \<open>
  The ranges of a command that its loops visit, and the specification of what the nested
  loops write: one entry per overlapping pair, in loop order.
\<close>

definition active_spans :: "command \<Rightarrow> span list" where
  "active_spans c = take (unat (tx_size c)) (spans c)"

definition wf_command :: "command \<Rightarrow> bool" where
  "wf_command c \<longleftrightarrow> unat (tx_size c) \<le> length (spans c) \<and> length (spans c) = TX_SIZE"

definition overlap_row :: "span \<Rightarrow> span list \<Rightarrow> span list" where
  "overlap_row s1 ss = map (\<lambda>_. s1) (filter (overlaps s1) ss)"

definition overlap_list :: "command \<Rightarrow> command \<Rightarrow> span list" where
  "overlap_list c1 c2 = concat (map (\<lambda>s1. overlap_row s1 (active_spans c2)) (active_spans c1))"

text \<open>What one or more loop iterations do to the accumulator: append a list, or overflow.\<close>

definition push_all :: "span list \<Rightarrow> bool \<times> nat \<times> span list \<Rightarrow> (bool \<times> nat \<times> span list) res" where
  "push_all xs = (\<lambda>(ret, cnt, c).
     if cnt + length xs \<le> length c \<or> xs = []
     then Inr (ret \<or> xs \<noteq> [], cnt + length xs, take cnt c @ xs @ drop (cnt + length xs) c)
     else Inl Out_of_bounds)"

lemma push_all_Nil [simp]: "push_all [] st = Inr st"
  by (cases st) (simp add: push_all_def)

lemma push_all_append: "push_all (xs @ ys) st = and_then (push_all xs st) (push_all ys)"
proof -
  obtain ret cnt c where st: "st = (ret, cnt, c)" by (cases st)
  show ?thesis
  proof (cases "cnt + length xs \<le> length c \<or> xs = []")
    case True
    show ?thesis
    proof (cases "xs = []")
      case True
      then show ?thesis by simp
    next
      case False
      with True have le: "cnt + length xs \<le> length c" by simp
      then have "take (cnt + length xs) (take cnt c @ xs @ drop (cnt + length xs) c)
                   = take cnt c @ xs"
        by simp
      with False le show ?thesis
        by (auto simp: st push_all_def ac_simps)
    qed
  next
    case False
    then show ?thesis by (simp add: st push_all_def)
  qed
qed

lemma overlap_step_push: 
  "overlap_step s1 s2 st = push_all (if overlaps s1 s2 then [s1] else []) st"
proof -
  obtain ret cnt c where st: "st = (ret, cnt, c)" by (cases st)
  show ?thesis
    by (auto simp: st overlap_step_def push_all_def upd_conv_take_nth_drop)
qed

lemma for_each_push:
  assumes "\<And>x st. x \<in> set xs \<Longrightarrow> f x st = push_all (g x) st"
  shows "for_each xs f st = push_all (concat (map g xs)) st"
  using assms
proof (induction xs arbitrary: st)
  case Nil
  then show ?case by simp
next
  case (Cons x xs)
  have "for_each xs f = push_all (concat (map g xs))"
    by (rule ext) (simp add: Cons)
  then show ?case by (simp add: Cons.prems push_all_append)
qed

lemma map_nth_upt: "n \<le> length xs \<Longrightarrow> map (\<lambda>j. f (xs ! j)) [0..<n] = map f (take n xs)"
  by (rule nth_equalityI) auto

lemma concat_if_singleton:
  "concat (map (\<lambda>y. if P y then [x] else []) ys) = map (\<lambda>_. x) (filter P ys)"
  by (induction ys) auto

lemma overlap_sparse_push:
  assumes "unat (tx_size c1) \<le> length (spans c1)" "unat (tx_size c2) \<le> length (spans c2)"
  shows "overlap_sparse c1 c2 c =
    and_then (push_all (overlap_list c1 c2) (False, 0, c)) (\<lambda>(ret, cnt, c'). Inr (ret, c'))"
proof -
  have inner: "for_each [0..<unat (tx_size c2)] (\<lambda>j st.
            and_then (aget (spans c1) i) (\<lambda>s1.
              and_then (aget (spans c2) j) (\<lambda>s2. overlap_step s1 s2 st))) st
        = push_all (overlap_row (spans c1 ! i) (active_spans c2)) st"
    if "i \<in> set [0..<unat (tx_size c1)]" for i st
  proof -
    have "for_each [0..<unat (tx_size c2)] (\<lambda>j st.
            and_then (aget (spans c1) i) (\<lambda>s1.
              and_then (aget (spans c2) j) (\<lambda>s2. overlap_step s1 s2 st))) st
      = push_all (concat (map (\<lambda>j. if overlaps (spans c1 ! i) (spans c2 ! j)
                                    then [spans c1 ! i] else []) [0..<unat (tx_size c2)])) st"
      using that assms by (intro for_each_push) (simp add: overlap_step_push del: overlaps_iff)
    then show ?thesis
      using map_nth_upt [OF assms(2),
          of "\<lambda>s. if overlaps (spans c1 ! i) s then [spans c1 ! i] else []"]
      by (simp add: overlap_row_def active_spans_def concat_if_singleton del: overlaps_iff)
  qed
  have "for_each [0..<unat (tx_size c1)] (\<lambda>i.
          for_each [0..<unat (tx_size c2)] (\<lambda>j st.
            and_then (aget (spans c1) i) (\<lambda>s1.
              and_then (aget (spans c2) j) (\<lambda>s2. overlap_step s1 s2 st)))) (False, 0, c)
      = push_all (overlap_list c1 c2) (False, 0, c)"
    unfolding overlap_list_def active_spans_def [of c1]
      map_nth_upt [OF assms(1), of "\<lambda>s. overlap_row s (active_spans c2)", symmetric]
    by (rule for_each_push) (rule inner)
  then show ?thesis by (simp add: overlap_sparse_def)
qed

lemma overlap_list_empty:
  "overlap_list c1 c2 = [] \<longleftrightarrow>
     (\<forall>s1 \<in> set (active_spans c1). \<forall>s2 \<in> set (active_spans c2). \<not> overlaps s1 s2)"
  by (auto simp: overlap_list_def overlap_row_def filter_empty_conv)

lemma set_overlap_list:
  "set (overlap_list c1 c2) =
     {s1 \<in> set (active_spans c1). \<exists>s2 \<in> set (active_spans c2). overlaps s1 s2}"
  by (auto simp: overlap_list_def overlap_row_def)

text \<open>
  C17. The overlap loops, exactly: for two commands whose \<^verbatim>\<open>tx_size\<close> stays within their range
  array, \<^verbatim>\<open>overlap_sparse\<close> writes one entry per overlapping pair of ranges, in loop order, and
  answers whether there is any; it writes past the caller's array exactly when there are more
  overlapping pairs than slots.
\<close>

theorem overlap_sparse_spec:
  assumes "unat (tx_size c1) \<le> length (spans c1)" "unat (tx_size c2) \<le> length (spans c2)"
  shows "overlap_sparse c1 c2 c =
    (if length (overlap_list c1 c2) \<le> length c
     then Inr (\<exists>s1 \<in> set (active_spans c1). \<exists>s2 \<in> set (active_spans c2). overlaps s1 s2,
               overlap_list c1 c2 @ drop (length (overlap_list c1 c2)) c)
     else Inl Out_of_bounds)"
  using overlap_list_empty [of c1 c2]
  by (auto simp: overlap_sparse_push [OF assms] push_all_def simp del: overlaps_iff)

end
