(* ===== verification/Epx_Sort.thy ===== *)
theory Epx_Sort
  imports Epx_Prelude "HOL-Library.Multiset"
begin

text \<open>
  The in-place insertion sort that \<^verbatim>\<open>sort_deps\<close> (\<^verbatim>\<open>src/instance.c\<close>) and \<^verbatim>\<open>sort_scc\<close>
  (\<^verbatim>\<open>src/execute.c\<close>) share: the inner loop, and its correctness for any comparison that is a
  strict weak order.
\<close>

text \<open>
  The inner loop: starting below slot \<open>j\<close>, entries for which \<open>q\<close> holds move up one slot, and
  \<open>d\<close> is written where the loop stops.
\<close>

fun shift_up :: "('a \<Rightarrow> bool) \<Rightarrow> 'a \<Rightarrow> nat \<Rightarrow> 'a list \<Rightarrow> 'a list" where
  "shift_up q d 0 xs = xs[0 := d]"
| "shift_up q d (Suc j) xs =
     (if q (xs ! j) then shift_up q d j (xs[Suc j := xs ! j]) else xs[Suc j := d])"

lemma length_shift_up [simp]: "length (shift_up q d j xs) = length xs"
  by (induction j arbitrary: xs) simp_all

text \<open>The loop splits the prefix at the last entry for which \<open>q\<close> fails.\<close>

lemma shift_up_split:
  "j < length xs \<Longrightarrow>
   shift_up q d j xs =
     rev (dropWhile q (rev (take j xs))) @ d # rev (takeWhile q (rev (take j xs))) @ drop (Suc j) xs"
proof (induction j arbitrary: xs)
  case 0
  then show ?case by (cases xs) simp_all
next
  case (Suc j)
  have rev: "rev (take (Suc j) xs) = xs ! j # rev (take j xs)"
    using Suc.prems by (simp add: take_Suc_conv_app_nth)
  show ?case
  proof (cases "q (xs ! j)")
    case True
    have "drop (Suc j) (xs[Suc j := xs ! j]) = xs ! j # drop (Suc (Suc j)) xs"
      using Suc.prems by (simp add: upd_conv_take_nth_drop)
    then show ?thesis
      using True Suc.IH [of "xs[Suc j := xs ! j]"] Suc.prems by (simp add: rev)
  next
    case False
    have "xs[Suc j := d] = take (Suc j) xs @ d # drop (Suc (Suc j)) xs"
      using Suc.prems by (simp add: upd_conv_take_nth_drop)
    moreover have "rev (dropWhile q (rev (take (Suc j) xs))) = take (Suc j) xs"
      using False by (simp add: rev) (metis rev rev_rev_ident rev.simps(2))
    ultimately show ?thesis using False by (simp add: rev)
  qed
qed

text \<open>\<open>misplaced e d\<close>: an entry \<open>e\<close> that stands before \<open>d\<close> has to move behind it.\<close>

locale shift_sort =
  fixes misplaced :: "'a \<Rightarrow> 'a \<Rightarrow> bool"
  assumes asym: "misplaced a b \<Longrightarrow> \<not> misplaced b a"
    and neg_trans: "\<not> misplaced a b \<Longrightarrow> \<not> misplaced b c \<Longrightarrow> \<not> misplaced a c"
begin

abbreviation in_order :: "'a list \<Rightarrow> bool" where
  "in_order \<equiv> sorted_wrt (\<lambda>a b. \<not> misplaced a b)"

abbreviation sort_round :: "nat \<Rightarrow> 'a list \<Rightarrow> 'a list" where
  "sort_round i xs \<equiv> shift_up (\<lambda>e. misplaced e (xs ! i)) (xs ! i) i xs"

lemma split_in_order:
  assumes "in_order P"
  shows "rev (dropWhile (\<lambda>e. misplaced e d) (rev P)) = filter (\<lambda>e. \<not> misplaced e d) P"
    and "rev (takeWhile (\<lambda>e. misplaced e d) (rev P)) = filter (\<lambda>e. misplaced e d) P"
proof -
  have "sorted_wrt (\<lambda>a b. \<not> misplaced b a) (rev P)"
    using assms by (simp add: sorted_wrt_rev)
  moreover have "\<And>x y. \<not> misplaced y x \<Longrightarrow> misplaced y d \<Longrightarrow> misplaced x d"
    using neg_trans by blast
  ultimately have "takeWhile (\<lambda>e. misplaced e d) (rev P) = filter (\<lambda>e. misplaced e d) (rev P)"
    and "dropWhile (\<lambda>e. misplaced e d) (rev P) = filter (\<lambda>e. \<not> misplaced e d) (rev P)"
    by (rule sorted_wrt_takeWhile_dropWhile; blast)+
  then show "rev (dropWhile (\<lambda>e. misplaced e d) (rev P)) = filter (\<lambda>e. \<not> misplaced e d) P"
    and "rev (takeWhile (\<lambda>e. misplaced e d) (rev P)) = filter (\<lambda>e. misplaced e d) P"
    by (simp_all add: rev_filter)
qed

lemma in_order_insert:
  assumes "in_order P"
  shows "in_order (filter (\<lambda>e. \<not> misplaced e d) P @ d # filter (\<lambda>e. misplaced e d) P)"
proof -
  have cross: "\<not> misplaced x y" if "\<not> misplaced x d" "misplaced y d" for x y
    using that(1) asym [OF that(2)] by (rule neg_trans)
  have "in_order (filter (\<lambda>e. \<not> misplaced e d) P)" "in_order (filter (\<lambda>e. misplaced e d) P)"
    using assms by (simp_all add: sorted_wrt_filter)
  then show ?thesis
    unfolding sorted_wrt_append sorted_wrt.simps
    by (intro conjI ballI) (auto dest: asym cross)
qed

lemma filter_equal_insert:
  assumes "\<And>e. P e \<longleftrightarrow> \<not> misplaced e k \<and> \<not> misplaced k e"
  shows "filter P (filter (\<lambda>e. \<not> misplaced e d) xs @ d # filter (\<lambda>e. misplaced e d) xs)
         = filter P (xs @ [d])"
proof (cases "P d")
  case True
  then have "\<And>e. P e \<Longrightarrow> \<not> misplaced e d" using assms neg_trans by blast
  then have "filter P (filter (\<lambda>e. misplaced e d) xs) = []"
    and "filter P (filter (\<lambda>e. \<not> misplaced e d) xs) = filter P xs"
    by (auto simp: filter_empty_conv intro!: filter_cong)
  with True show ?thesis by (simp del: filter_filter)
next
  case False
  have "(\<forall>e. P e \<longrightarrow> misplaced e d) \<or> (\<forall>e. P e \<longrightarrow> \<not> misplaced e d)"
    using assms neg_trans by blast
  then have "filter P (filter (\<lambda>e. \<not> misplaced e d) xs) @ filter P (filter (\<lambda>e. misplaced e d) xs)
      = filter P xs"
  proof
    assume *: "\<forall>e. P e \<longrightarrow> misplaced e d"
    have "filter P (filter (\<lambda>e. \<not> misplaced e d) xs) = []"
      and "filter P (filter (\<lambda>e. misplaced e d) xs) = filter P xs"
      using * by (auto simp: filter_empty_conv intro!: filter_cong)
    then show ?thesis by (simp del: filter_filter)
  next
    assume *: "\<forall>e. P e \<longrightarrow> \<not> misplaced e d"
    have "filter P (filter (\<lambda>e. misplaced e d) xs) = []"
      and "filter P (filter (\<lambda>e. \<not> misplaced e d) xs) = filter P xs"
      using * by (auto simp: filter_empty_conv intro!: filter_cong)
    then show ?thesis by (simp del: filter_filter)
  qed
  with False show ?thesis by (simp del: filter_filter)
qed

text \<open>
  After the rounds below \<open>n\<close>, the first \<open>n\<close> slots are a sorted, stable rearrangement of what
  they held, and the other slots are untouched.
\<close>

lemma sort_rounds:
  assumes "n \<le> length xs"
  shows "in_order (take n (fold sort_round [1..<n] xs)) \<and>
    mset (take n (fold sort_round [1..<n] xs)) = mset (take n xs) \<and>
    drop n (fold sort_round [1..<n] xs) = drop n xs \<and>
    length (fold sort_round [1..<n] xs) = length xs \<and>
    (\<forall>k. filter (\<lambda>e. \<not> misplaced e k \<and> \<not> misplaced k e) (take n (fold sort_round [1..<n] xs)) =
         filter (\<lambda>e. \<not> misplaced e k \<and> \<not> misplaced k e) (take n xs))"
  using assms
proof (induction n)
  case 0
  then show ?case by simp
next
  case (Suc n)
  define ys where "ys = fold sort_round [1..<n] xs"
  have IH: "in_order (take n ys)" "mset (take n ys) = mset (take n xs)" "drop n ys = drop n xs"
      "length ys = length xs"
      "\<And>k. filter (\<lambda>e. \<not> misplaced e k \<and> \<not> misplaced k e) (take n ys) =
           filter (\<lambda>e. \<not> misplaced e k \<and> \<not> misplaced k e) (take n xs)"
    using Suc unfolding ys_def by simp_all
  show ?case
  proof (cases "n = 0")
    case True
    with Suc.prems show ?thesis by (cases xs) simp_all
  next
    case False
    let ?d = "ys ! n"
    let ?ins = "filter (\<lambda>e. \<not> misplaced e ?d) (take n ys) @ ?d # filter (\<lambda>e. misplaced e ?d) (take n ys)"
    have d: "?d = xs ! n"
      using IH(4) Suc.prems arg_cong [OF IH(3), of hd] by (simp add: hd_drop_conv_nth)
    have tl: "drop (Suc n) ys = drop (Suc n) xs"
      using arg_cong [OF IH(3), of "drop 1"] by simp
    have "fold sort_round [1..<Suc n] xs = sort_round n ys"
      using False by (simp add: ys_def)
    also have "\<dots> = ?ins @ drop (Suc n) ys"
      using IH(4) Suc.prems
      by (simp add: shift_up_split [where q = "\<lambda>e. misplaced e ?d" and d = ?d and xs = ys]
          split_in_order [OF IH(1)])
    finally have res: "fold sort_round [1..<Suc n] xs = ?ins @ drop (Suc n) xs"
      by (simp add: tl)
    have ms: "mset ?ins = mset (take n ys @ [?d])" by simp
    have len: "length ?ins = Suc n"
      unfolding mset_eq_length [OF ms] using IH(4) Suc.prems by simp
    have xs: "take (Suc n) xs = take n xs @ [xs ! n]"
      using Suc.prems by (simp add: take_Suc_conv_app_nth)
    have "in_order ?ins" by (rule in_order_insert [OF IH(1)])
    moreover have "mset ?ins = mset (take (Suc n) xs)"
      using ms IH(2) xs d by simp
    moreover have "filter (\<lambda>e. \<not> misplaced e k \<and> \<not> misplaced k e) ?ins =
        filter (\<lambda>e. \<not> misplaced e k \<and> \<not> misplaced k e) (take (Suc n) xs)" for k
      using filter_equal_insert [of _ k ?d "take n ys"] IH(5) xs d by simp
    moreover have "take (Suc n) (?ins @ drop (Suc n) xs) = ?ins \<and>
        drop (Suc n) (?ins @ drop (Suc n) xs) = drop (Suc n) xs"
      by (rule take_drop_exact [OF len])
    moreover have "length (?ins @ drop (Suc n) xs) = length xs" using len Suc.prems by simp
    ultimately show ?thesis unfolding res by metis
  qed
qed

text \<open>All rounds: the whole list is sorted, a permutation, and stable.\<close>

lemma sort_all:
  defines "ys xs \<equiv> fold sort_round [1..<length xs] xs"
  shows "in_order (ys xs)" and "mset (ys xs) = mset xs"
    and "filter (\<lambda>e. \<not> misplaced e k \<and> \<not> misplaced k e) (ys xs) =
      filter (\<lambda>e. \<not> misplaced e k \<and> \<not> misplaced k e) xs"
proof -
  note all = sort_rounds [OF order_refl, of xs, folded ys_def]
  then have "take (length xs) (ys xs) = ys xs" by (intro take_all) simp
  note all = all [unfolded this take_all [OF order_refl]]
  from all show "in_order (ys xs)" by blast
  from all show "mset (ys xs) = mset xs" by blast
  from all show "filter (\<lambda>e. \<not> misplaced e k \<and> \<not> misplaced k e) (ys xs) =
      filter (\<lambda>e. \<not> misplaced e k \<and> \<not> misplaced k e) xs" by blast
qed

end

end
