(* ===== verification/Epx_Instance.thy ===== *)
theory Epx_Instance
  imports Epx_Command Epx_Sort
begin

text \<open>
  \<^verbatim>\<open>src/message.h\<close>, \<^verbatim>\<open>src/instance.h\<close> and \<^verbatim>\<open>src/instance.c\<close>: the state and message
  enumerations, messages, instances and the leader's bookkeeping, ballots, and the
  dependency arrays with the operations that keep them sorted.
\<close>

section \<open>Enumerations\<close>

text \<open>
  \<^verbatim>\<open>enum state\<close> is a set of bit flags that the code combines with \<^verbatim>\<open>|\<close>, compares with
  \<^verbatim>\<open><\<close> and reads from the network without a check, so it is kept as its integer.
\<close>

type_synonym state = u32

definition NONE :: state where "NONE = 0x01"
definition PRE_ACCEPTED :: state where "PRE_ACCEPTED = 0x02"
definition PRE_ACCEPTED_EQ :: state where "PRE_ACCEPTED_EQ = 0x04"
definition ACCEPTED :: state where "ACCEPTED = 0x08"
definition PREPARING :: state where "PREPARING = 0x10"
definition TRY_PRE_ACCEPTING :: state where "TRY_PRE_ACCEPTING = 0x20"
definition COMMITTED :: state where "COMMITTED = 0x40"
definition EXECUTED :: state where "EXECUTED = 0x80"

lemmas state_defs = NONE_def PRE_ACCEPTED_def PRE_ACCEPTED_EQ_def ACCEPTED_def
  PREPARING_def TRY_PRE_ACCEPTING_def COMMITTED_def EXECUTED_def

text \<open>A type the wire can carry and no \<^verbatim>\<open>case\<close> of \<^verbatim>\<open>progress\<close> names is \<open>Unnamed_type\<close>.\<close>

datatype message_type =
    PHASE1 | PRE_ACCEPT | PRE_ACCEPT_OK | PRE_ACCEPT_REPLY | ACCEPT | ACCEPT_REPLY
  | COMMIT | PREPARE | PREPARE_REPLY | TRY_PRE_ACCEPT | TRY_PRE_ACCEPT_REPLY | EXECUTE
  | Unnamed_type u8

section \<open>Messages and instances\<close>

text \<open>
  A \<^verbatim>\<open>struct command*\<close> is an address in the heap of commands; \<open>None\<close> is \<^verbatim>\<open>NULL\<close>. Commands
  are shared between messages, instances and recovery records, so they are not copied into
  them here either.
\<close>

type_synonym cmd_ptr = "nat option"

record message =
  m_type :: message_type
  m_to :: u64
  m_ballot :: u8
  m_nack :: u8
  m_id :: instance_id
  m_command :: cmd_ptr
  m_seq :: u64
  m_deps :: "dependency list"
  m_from :: u64
  m_instance_status :: state
  m_conflict_id :: instance_id
  m_conflict_status :: state
  m_start :: u64
  m_stop :: u64
  m_ref :: u32

record recovery_instance =
  ri_command :: cmd_ptr
  ri_deps :: "dependency list"
  ri_status :: state
  ri_seq :: u64
  ri_pre_accept_count :: u8
  ri_leader_replied :: u8

record leader_tracker =
  lt_pre_accept_oks :: u8
  lt_accept_oks :: u8
  lt_prepare_oks :: u8
  lt_try_pre_accept_oks :: u8
  lt_nacks :: u8
  lt_equal :: u8
  lt_max_ballot :: u8
  lt_recovery_status :: state
  lt_ri :: recovery_instance
  lt_quorum :: "u8 list"

text \<open>The callback a timer was last given (\<^verbatim>\<open>timeout_setcb\<close>); the timer itself is a library's.\<close>

datatype callback = Fast_path_timeout | Slow_path_timeout | Checkpoint_timeout

text \<open>
  \<^verbatim>\<open>struct instance\<close> is \<open>inst\<close> here, as the word is a keyword of the language.
  \<^verbatim>\<open>entry\<close> is the link of the tree library and \<^verbatim>\<open>r\<close> the back pointer to the one replica
  that registered the instance.
\<close>

record inst =
  i_timer :: "callback option"
  i_deps :: "dependency list"
  i_deps_updated :: u8
  i_key :: instance_id
  i_ballot :: u8
  i_status :: state
  i_command :: cmd_ptr
  i_seq :: u64
  i_lt :: "leader_tracker option"

definition zero_id :: instance_id where
  "zero_id = \<lparr>replica_id = 0, instance_id = 0\<rparr>"

definition zero_dep :: dependency where
  "zero_dep = \<lparr>dep_id = zero_id, committed = 0\<rparr>"

definition zero_deps :: "dependency list" where
  "zero_deps = replicate MAX_DEPS zero_dep"

text \<open>
  \<^verbatim>\<open>message_from_instance\<close> overwrites five members of the block \<^verbatim>\<open>malloc\<close> returned; the
  rest keeps whatever the block held, which is the argument \<open>raw\<close>.
\<close>

definition message_from_instance :: "message \<Rightarrow> inst \<Rightarrow> message" where
  "message_from_instance raw i = raw\<lparr>
     m_ballot := i_ballot i,
     m_command := i_command i,
     m_id := i_key i,
     m_seq := i_seq i,
     m_deps := i_deps i\<rparr>"

definition new_instance :: inst where
  "new_instance = \<lparr>i_timer = None, i_deps = zero_deps, i_deps_updated = 0, i_key = zero_id,
     i_ballot = 0, i_status = NONE, i_command = None, i_seq = 0, i_lt = None\<rparr>"

text \<open>The dependencies and the key of the message are not copied.\<close>

definition instance_from_message :: "message \<Rightarrow> inst" where
  "instance_from_message m = new_instance\<lparr>
     i_ballot := m_ballot m,
     i_seq := m_seq m,
     i_status := NONE,
     i_command := m_command m,
     i_deps_updated := 0,
     i_lt := None\<rparr>"

section \<open>Status tests and ballots\<close>

definition is_state :: "state \<Rightarrow> state \<Rightarrow> bool" where
  "is_state a b \<longleftrightarrow> (a AND b) > 0"

text \<open>
  The shift is done on a promoted \<^verbatim>\<open>int\<close>, the \<^verbatim>\<open>|\<close> on \<^verbatim>\<open>size_t\<close>; the result is
  truncated to a byte by the return type.
\<close>

definition unique_ballot :: "u8 \<Rightarrow> u64 \<Rightarrow> u8" where
  "unique_ballot ballot rid = ucast (push_bit 4 (ucast ballot :: u64) OR rid)"

definition larger_ballot :: "u8 \<Rightarrow> u64 \<Rightarrow> u8" where
  "larger_ballot ballot rid = unique_ballot (drop_bit 4 ballot + 1) rid"

definition is_initial_ballot :: "u8 \<Rightarrow> bool" where
  "is_initial_ballot ballot \<longleftrightarrow> drop_bit 4 ballot = 0"

definition replica_from_ballot :: "u8 \<Rightarrow> u64" where
  "replica_from_ballot ballot = ucast (ballot AND 15)"

section \<open>Dependency arrays\<close>

fun lt_dep_replica :: "u64 \<Rightarrow> dependency list \<Rightarrow> u64" where
  "lt_dep_replica rid [] = 0"
| "lt_dep_replica rid (d # ds) =
     (if rid = replica_id (dep_id d) then instance_id (dep_id d) else lt_dep_replica rid ds)"

fun has_key :: "instance_id \<Rightarrow> dependency list \<Rightarrow> bool" where
  "has_key k [] = False"
| "has_key k (d # ds) = (if eq_instance_id k (dep_id d) then True else has_key k ds)"

text \<open>Insertion sort on the instance number, newest first, over the whole array.\<close>

definition sort_deps :: "dependency list \<Rightarrow> dependency list" where
  "sort_deps deps =
     fold (\<lambda>i ds. shift_up (\<lambda>e. instance_id (dep_id e) < instance_id (dep_id (ds ! i))) (ds ! i) i ds)
       [1..<MAX_DEPS] deps"

fun equal_deps :: "dependency list \<Rightarrow> dependency list \<Rightarrow> bool" where
  "equal_deps (d1 # ds1) (d2 # ds2) =
     (if \<not> eq_instance_id (dep_id d1) (dep_id d2) \<or> committed d1 \<noteq> committed d2 then False
      else equal_deps ds1 ds2)"
| "equal_deps _ _ = True"

definition update_recovery_instance :: "recovery_instance \<Rightarrow> message \<Rightarrow> recovery_instance" where
  "update_recovery_instance ri m = ri\<lparr>
     ri_command := m_command m,
     ri_deps := m_deps m,
     ri_seq := m_seq m,
     ri_status := m_instance_status m\<rparr>"

text \<open>
  The \<^verbatim>\<open>while\<close> loop of \<^verbatim>\<open>update_deps\<close>: \<open>j\<close> runs from \<^verbatim>\<open>MAX_DEPS-1\<close> down to \<open>i\<close>, and
  each round overwrites slot \<^verbatim>\<open>j+1\<close> with slot \<^verbatim>\<open>j\<close> unless slot \<^verbatim>\<open>j+1\<close> is empty.
\<close>

fun shift_deps :: "nat \<Rightarrow> nat \<Rightarrow> dependency list \<Rightarrow> dependency list" where
  "shift_deps i 0 deps = deps"
| "shift_deps i (Suc j) deps =
     (if Suc j > i
      then shift_deps i j
             (if instance_id (dep_id (deps ! Suc j)) = 0 then deps
              else deps[Suc j := deps ! j])
      else deps)"

definition update_deps :: "dependency list \<Rightarrow> dependency \<Rightarrow> dependency list \<times> nat" where
  "update_deps deps d =
     (if instance_id (dep_id d) = 0 then (deps, 0)
      else case find_index (\<lambda>e. eq_instance_id (dep_id e) (dep_id d)) deps of
        Some i \<Rightarrow>
          (if committed (deps ! i) < committed d
           then (deps[i := (deps ! i)\<lparr>committed := committed d\<rparr>], 1)
           else (deps, 0))
      | None \<Rightarrow>
          (case find_index (\<lambda>e. instance_id (dep_id e) < instance_id (dep_id d)) deps of
            Some i \<Rightarrow> ((shift_deps i (MAX_DEPS - 1) deps)[i := d], 1)
          | None \<Rightarrow> (deps, 0)))"

definition is_committed :: "inst \<Rightarrow> bool" where
  "is_committed i \<longleftrightarrow> i_status i \<ge> COMMITTED"

definition add_dep :: "dependency list \<Rightarrow> inst \<Rightarrow> dependency list \<times> nat" where
  "add_dep deps i =
     update_deps deps \<lparr>dep_id = i_key i, committed = (if is_committed i then 1 else 0)\<rparr>"

fun uncommitted_scan :: "dependency list \<Rightarrow> bool" where
  "uncommitted_scan [] = False"
| "uncommitted_scan (d # ds) =
     (if instance_id (dep_id d) = 0 then False
      else if committed d = 0 then True
      else uncommitted_scan ds)"

definition has_uncommitted_deps :: "inst \<Rightarrow> bool" where
  "has_uncommitted_deps i = uncommitted_scan (i_deps i)"

definition instance_reset :: "inst \<Rightarrow> inst" where
  "instance_reset i = i\<lparr>
     i_deps := zero_deps,
     i_lt := map_option (\<lambda>lt. lt\<lparr>lt_ri := (lt_ri lt)\<lparr>ri_status := NONE\<rparr>\<rparr>) (i_lt i)\<rparr>"

text \<open>The comparator of the instance trees.\<close>

definition intcmp :: "inst \<Rightarrow> inst \<Rightarrow> int" where
  "intcmp e1 e2 =
     (if instance_id (i_key e1) < instance_id (i_key e2) then -1
      else if instance_id (i_key e1) > instance_id (i_key e2) then 1 else 0)"

section \<open>Properties of status tests and ballots\<close>

lemma is_state_nonzero: "is_state a b \<longleftrightarrow> a AND b \<noteq> 0"
  by (simp add: is_state_def word_gt_0)

lemma is_state_or: "is_state a (b OR c) \<longleftrightarrow> is_state a b \<or> is_state a c"
  by (simp add: is_state_nonzero word_ao_dist2 or_eq_0_iff)

text \<open>A ballot is a counter in the high and a replica in the low four bits.\<close>

lemma unat_unique_ballot:
  assumes "rid < 16"
  shows "unat (unique_ballot b rid) = (unat b mod 16) * 16 + unat rid"
proof -
  have rid: "unat rid < 16" using assms by (simp add: word_less_nat_alt)
  have b: "unat b < 256" by (rule unat_u8_bound)
  have and0: "push_bit 4 (ucast b :: u64) AND rid = 0"
  proof (rule bit_eqI)
    fix n
    have "rid = take_bit 4 rid"
      using rid by (intro word_unat_eq_iff [THEN iffD2]) (simp add: take_bit_eq_mod unat_mod)
    then have "bit rid n \<longrightarrow> n < 4" by (metis bit_take_bit_iff)
    then show "bit (push_bit 4 (ucast b :: u64) AND rid) n \<longleftrightarrow> bit (0 :: u64) n"
      by (auto simp: bit_simps)
  qed
  have "unat (push_bit 4 (ucast b :: u64) OR rid) = unat (push_bit 4 (ucast b :: u64) + rid)"
    using and0 by (simp add: disjunctive_add_eq_or)
  also have "\<dots> = unat b * 16 + unat rid"
    using rid b by (simp add: unat_word_ariths push_bit_eq_mult unsigned_ucast_eq take_bit_eq_mod mult.commute)
  finally have "unat (push_bit 4 (ucast b :: u64) OR rid) = unat b * 16 + unat rid" .
  then have "unat (unique_ballot b rid) = (unat b * 16 + unat rid) mod 256"
    by (simp add: unique_ballot_def unsigned_ucast_eq take_bit_eq_mod)
  also have "\<dots> = (unat b mod 16) * 16 + unat rid"
    using rid mod_mult2_eq [of "unat b * 16 + unat rid" 16 16] by simp
  finally show ?thesis .
qed

lemma unat_shift4: "unat (drop_bit 4 (b :: u8)) = unat b div 16"
  by (simp add: drop_bit_eq_div unat_div)

lemma is_initial_ballot_iff: "is_initial_ballot b \<longleftrightarrow> unat b < 16"
  by (simp add: is_initial_ballot_def unat_eq_0 [symmetric] unat_shift4 div_eq_0_iff del: unat_eq_0)

lemma replica_from_unique_ballot:
  assumes "rid < 16"
  shows "replica_from_ballot (unique_ballot b rid) = rid"
proof -
  have rid: "unat rid < 16" using assms by (simp add: word_less_nat_alt)
  have "(unique_ballot b rid) AND 15 = take_bit 4 (unique_ballot b rid)"
    by (simp add: take_bit_eq_mask mask_eq_exp_minus_1)
  then have "unat (replica_from_ballot (unique_ballot b rid)) = unat (unique_ballot b rid) mod 16"
    by (simp add: replica_from_ballot_def unsigned_ucast_eq take_bit_eq_mod unat_mod)
  then show ?thesis using rid by (simp add: unat_unique_ballot [OF assms] word_unat_eq_iff)
qed

text \<open>
  C28. Taking a larger ballot: for a replica number that fits its four bits, the new ballot
  names that replica and is larger and no longer initial, as long as the counter has not
  reached 15; from 15 the counter wraps, the result is an initial ballot again and not larger.
\<close>

theorem larger_ballot_spec:
  assumes "rid < 16"
  shows "replica_from_ballot (larger_ballot b rid) = rid \<and>
    (if unat b < 240 then b < larger_ballot b rid \<and> \<not> is_initial_ballot (larger_ballot b rid)
     else larger_ballot b rid < b \<or> larger_ballot b rid = b) \<and>
    (is_initial_ballot (larger_ballot b rid) \<longleftrightarrow> unat b \<ge> 240)"
proof -
  have rid: "unat rid < 16" using assms by (simp add: word_less_nat_alt)
  have b: "unat b < 256" by (rule unat_u8_bound)
  have "unat (drop_bit 4 b + 1) = unat b div 16 + 1"
    using b by (simp add: unat_word_ariths unat_shift4)
  then have val: "unat (larger_ballot b rid) = ((unat b div 16 + 1) mod 16) * 16 + unat rid"
    by (simp add: larger_ballot_def unat_unique_ballot [OF assms])
  show ?thesis
  proof (cases "unat b < 240")
    case True
    then have "unat b div 16 + 1 < 16" by simp
    then have "unat (larger_ballot b rid) = (unat b div 16 + 1) * 16 + unat rid" by (simp add: val)
    moreover have "unat b < (unat b div 16 + 1) * 16" by presburger
    ultimately show ?thesis using True assms
      by (simp add: larger_ballot_def replica_from_unique_ballot word_less_nat_alt
          is_initial_ballot_iff)
  next
    case False
    then have "unat b div 16 = 15" using b by simp
    then have "unat (larger_ballot b rid) = unat rid" by (simp add: val)
    with False rid show ?thesis using assms
      by (simp add: larger_ballot_def replica_from_unique_ballot word_less_nat_alt
          is_initial_ballot_iff)
  qed
qed

end
