(* ===== verification/Epx_Deps.thy ===== *)
theory Epx_Deps
  imports Epx_Instance
begin

text \<open>
  What the dependency arrays of \<^verbatim>\<open>src/instance.c\<close> mean: an array stands for the list of its
  live entries (the ones whose instance number is not 0), newest first. \<open>dep_update_spec\<close> is
  what \<^verbatim>\<open>update_deps\<close> does to that list; the locale \<open>dep_array\<close> is the contract under which
  the callers of \<^verbatim>\<open>update_deps\<close> fold it over several dependencies.
\<close>

section \<open>Well-formed arrays and their abstraction\<close>

abbreviation did :: "dependency \<Rightarrow> u64" where
  "did d \<equiv> instance_id (dep_id d)"

definition live :: "dependency \<Rightarrow> bool" where
  "live d \<longleftrightarrow> did d \<noteq> 0"

definition live_deps :: "dependency list \<Rightarrow> dependency list" where
  "live_deps ds = filter live ds"

definition wf_deps :: "dependency list \<Rightarrow> bool" where
  "wf_deps ds \<longleftrightarrow> length ds = MAX_DEPS \<and> sorted_wrt (\<lambda>a b. did b \<le> did a) ds \<and>
     distinct (map dep_id (live_deps ds))"

lemma wf_deps_zero [simp]: "wf_deps zero_deps"
  by (simp add: wf_deps_def zero_deps_def live_deps_def live_def zero_dep_def zero_id_def
      sorted_wrt_iff_nth_less)

lemma live_deps_zero [simp]: "live_deps zero_deps = []"
  by (simp add: zero_deps_def live_deps_def live_def zero_dep_def zero_id_def)

lemma wf_deps_length: "wf_deps ds \<Longrightarrow> length ds = MAX_DEPS"
  by (simp add: wf_deps_def)

lemma length_live_deps: "wf_deps ds \<Longrightarrow> length (live_deps ds) \<le> MAX_DEPS"
  unfolding wf_deps_def live_deps_def using length_filter_le [of live ds] by simp

text \<open>A sorted array is its live entries followed by its empty slots.\<close>

lemma wf_deps_split:
  assumes "wf_deps ds"
  shows "ds = live_deps ds @ filter (\<lambda>d. \<not> live d) ds"
proof -
  have "sorted_wrt (\<lambda>a b. did b \<le> did a) ds" using assms by (simp add: wf_deps_def)
  moreover have "\<And>x y. did y \<le> did x \<Longrightarrow> live y \<Longrightarrow> live x"
    by (auto simp: live_def)
  ultimately have "takeWhile live ds = filter live ds"
    and "dropWhile live ds = filter (\<lambda>d. \<not> live d) ds"
    using sorted_wrt_takeWhile_dropWhile [of "\<lambda>a b. did b \<le> did a" ds live] by blast+
  then show ?thesis by (metis live_deps_def takeWhile_dropWhile_id)
qed

text \<open>Rebuilding a well-formed array from a sorted list of live entries and padding.\<close>

lemma wf_deps_appendI:
  assumes "length L + length Z = MAX_DEPS"
    and "sorted_wrt (\<lambda>a b. did b \<le> did a) L" and "distinct (map dep_id L)"
    and "\<forall>d \<in> set L. live d" and "\<forall>d \<in> set Z. \<not> live d"
  shows "wf_deps (L @ Z) \<and> live_deps (L @ Z) = L"
proof -
  have live: "live_deps (L @ Z) = L"
    using assms(4,5) by (simp add: live_deps_def filter_id_conv filter_empty_conv)
  have "\<forall>z \<in> set Z. did z = 0" using assms(5) by (simp add: live_def)
  then have "sorted_wrt (\<lambda>a b. did b \<le> did a) Z"
    by (auto simp: sorted_wrt_iff_nth_less)
  with assms \<open>\<forall>z \<in> set Z. did z = 0\<close> live show ?thesis
    by (simp add: wf_deps_def sorted_wrt_append)
qed

section \<open>The shift loop\<close>

lemma length_shift_deps [simp]: "length (shift_deps i n ds) = length ds"
  by (induction n arbitrary: ds) simp_all

lemma shift_deps_nth:
  "n < length ds \<Longrightarrow> k < length ds \<Longrightarrow>
   shift_deps i n ds ! k =
     (if i < k \<and> k \<le> n \<and> live (ds ! k) then ds ! (k - 1) else ds ! k)"
proof (induction n arbitrary: ds)
  case 0
  then show ?case by simp
next
  case (Suc n)
  show ?case
  proof (cases "i < Suc n")
    case True
    let ?ds' = "if did (ds ! Suc n) = 0 then ds else ds[Suc n := ds ! n]"
    have "shift_deps i (Suc n) ds ! k = shift_deps i n ?ds' ! k"
      using True by simp
    also have "\<dots> = (if i < k \<and> k \<le> n \<and> live (?ds' ! k) then ?ds' ! (k - 1) else ?ds' ! k)"
      using Suc.prems by (intro Suc.IH) simp_all
    also have "\<dots> = (if i < k \<and> k \<le> Suc n \<and> live (ds ! k) then ds ! (k - 1) else ds ! k)"
      using Suc.prems True by (auto simp: live_def nth_list_update le_Suc_eq)
    finally show ?thesis .
  next
    case False
    then show ?thesis by auto
  qed
qed

text \<open>
  Opening slot \<open>length A\<close> and writing \<open>d\<close> there: the last live entry behind it is lost, even
  when an empty slot follows, because the loop skips the copy into an empty slot.
\<close>

lemma shift_insert:
  assumes len: "length A + length B + length Z = MAX_DEPS"
    and B: "\<forall>e \<in> set B. live e" and Z: "\<forall>e \<in> set Z. \<not> live e"
    and room: "length A < MAX_DEPS"
  shows "(shift_deps (length A) (MAX_DEPS - 1) (A @ B @ Z))[length A := d] =
         A @ d # butlast B @ (if B = [] then tl Z else Z)"
proof (rule nth_equalityI)
  show "length ((shift_deps (length A) (MAX_DEPS - 1) (A @ B @ Z))[length A := d]) =
        length (A @ d # butlast B @ (if B = [] then tl Z else Z))"
    using len room by auto
next
  fix k
  assume "k < length ((shift_deps (length A) (MAX_DEPS - 1) (A @ B @ Z))[length A := d])"
  then have k: "k < MAX_DEPS" using len by simp
  let ?ds = "A @ B @ Z"
  have shifted: "shift_deps (length A) (MAX_DEPS - 1) ?ds ! k =
      (if length A < k \<and> live (?ds ! k) then ?ds ! (k - 1) else ?ds ! k)"
    using k len by (subst shift_deps_nth) auto
  show "(shift_deps (length A) (MAX_DEPS - 1) ?ds)[length A := d] ! k =
        (A @ d # butlast B @ (if B = [] then tl Z else Z)) ! k"
  proof (cases "k \<le> length A")
    case True
    from room have "length A < length A + length B + length Z" unfolding len .
    then have "length A < length (shift_deps (length A) (MAX_DEPS - 1) ?ds)" by simp
    with True show ?thesis using shifted by (auto simp: nth_list_update nth_append)
  next
    case False
    then obtain p where p: "k = Suc (length A + p)" by (metis add_Suc_right less_imp_Suc_add not_le)
    show ?thesis
    proof (cases B rule: rev_cases)
      case Nil
      then have "\<not> live (?ds ! k)" using Z k len p by (simp add: nth_append)
      then show ?thesis using p shifted Nil k len by (simp add: nth_append nth_tl)
    next
      case (snoc C b)
      show ?thesis
      proof (cases "p < length C")
        case True
        then have at: "?ds ! k = B ! Suc p" "?ds ! (k - 1) = C ! p" "B ! Suc p \<in> set B"
          using p snoc by (simp_all add: nth_append)
        then have "shift_deps (length A) (MAX_DEPS - 1) ?ds ! k = C ! p"
          using B p shifted by (simp del: append_assoc)
        then show ?thesis using True p snoc by (simp add: nth_append)
      next
        case ge: False
        then have "?ds ! k = Z ! (p - length C)" and "p - length C < length Z"
          using p snoc k len by (simp_all add: nth_append)
        moreover from this have "\<not> live (?ds ! k)" using Z by simp
        ultimately show ?thesis using ge p shifted snoc by (simp add: nth_append)
      qed
    qed
  qed
qed

section \<open>The specification of update_deps\<close>

definition newer :: "dependency \<Rightarrow> dependency list \<Rightarrow> dependency list" where
  "newer d L = filter (\<lambda>e. did d \<le> did e) L"

definition older :: "dependency \<Rightarrow> dependency list \<Rightarrow> dependency list" where
  "older d L = filter (\<lambda>e. did e < did d) L"

definition mark_committed :: "dependency \<Rightarrow> dependency \<Rightarrow> dependency" where
  "mark_committed d e =
     (if dep_id e = dep_id d then e\<lparr>committed := max (committed e) (committed d)\<rparr> else e)"

definition dep_update_spec :: "dependency \<Rightarrow> dependency list \<Rightarrow> dependency list" where
  "dep_update_spec d L =
     (if \<not> live d then L
      else if dep_id d \<in> dep_id ` set L then map (mark_committed d) L
      else if length (newer d L) < MAX_DEPS then newer d L @ d # butlast (older d L)
      else L)"

lemma dep_id_mark_committed [simp]: "dep_id (mark_committed d e) = dep_id e"
  by (simp add: mark_committed_def)

lemma live_mark_committed [simp]: "live (mark_committed d e) \<longleftrightarrow> live e"
  by (simp add: live_def)

lemma newer_older:
  assumes "sorted_wrt (\<lambda>a b. did b \<le> did a) L"
  shows "newer d L @ older d L = L"
proof -
  have *: "takeWhile (\<lambda>e. did d \<le> did e) L = newer d L \<and> dropWhile (\<lambda>e. did d \<le> did e) L = older d L"
    using sorted_wrt_takeWhile_dropWhile [OF assms, of "\<lambda>e. did d \<le> did e"]
    by (auto simp: newer_def older_def not_le)
  show ?thesis using takeWhile_dropWhile_id [of "\<lambda>e. did d \<le> did e" L] * by metis
qed

lemma update_marked:
  assumes "distinct (map dep_id L)" and "i < length L" and "dep_id (L ! i) = dep_id d"
    and "committed (L ! i) < committed d"
  shows "L[i := (L ! i)\<lparr>committed := committed d\<rparr>] = map (mark_committed d) L"
proof (rule nth_equalityI)
  fix k
  assume "k < length (L[i := (L ! i)\<lparr>committed := committed d\<rparr>])"
  then have k: "k < length L" by simp
  show "L[i := (L ! i)\<lparr>committed := committed d\<rparr>] ! k = map (mark_committed d) L ! k"
  proof (cases "k = i")
    case True
    with assms show ?thesis by (simp add: mark_committed_def max_def)
  next
    case False
    with assms(1-3) k have "dep_id (L ! k) \<noteq> dep_id d"
      by (metis length_map nth_eq_iff_index_eq nth_map)
    with False k show ?thesis by (simp add: mark_committed_def)
  qed
qed simp

lemma unmarked_id:
  assumes "distinct (map dep_id L)" and "i < length L" and "dep_id (L ! i) = dep_id d"
    and "\<not> committed (L ! i) < committed d"
  shows "map (mark_committed d) L = L"
proof (rule map_idI)
  fix e
  assume "e \<in> set L"
  then obtain k where k: "k < length L" "e = L ! k" by (auto simp: in_set_conv_nth)
  show "mark_committed d e = e"
  proof (cases "k = i")
    case True
    with assms k show ?thesis by (simp add: mark_committed_def max_def not_less order_antisym)
  next
    case False
    with assms(1-3) k have "dep_id e \<noteq> dep_id d"
      by (metis length_map nth_eq_iff_index_eq nth_map)
    then show ?thesis by (simp add: mark_committed_def)
  qed
qed

text \<open>The scan for an equal key finds nothing exactly when the identifier is new.\<close>

lemma find_eq_live:
  assumes "wf_deps ds" and "live d"
  shows "find_index (\<lambda>e. eq_instance_id (dep_id e) (dep_id d)) ds =
         find_index (\<lambda>e. dep_id e = dep_id d) (live_deps ds)"
proof -
  have "\<forall>e \<in> set (filter (\<lambda>d. \<not> live d) ds). dep_id e \<noteq> dep_id d"
    using assms(2) by (auto simp: live_def)
  then have "find_index (\<lambda>e. dep_id e = dep_id d) (filter (\<lambda>d. \<not> live d) ds) = None"
    by (simp add: find_index_None)
  then show ?thesis
    by (subst wf_deps_split [OF assms(1)])
       (simp add: find_index_append split: option.split)
qed

lemma update_deps_known:
  assumes wf: "wf_deps ds" and d: "live d" and known: "dep_id d \<in> dep_id ` set (live_deps ds)"
  shows "wf_deps (fst (update_deps ds d))"
    and "live_deps (fst (update_deps ds d)) = map (mark_committed d) (live_deps ds)"
    and "snd (update_deps ds d) = (if map (mark_committed d) (live_deps ds) = live_deps ds then 0 else 1)"
proof -
  let ?L = "live_deps ds" and ?Z = "filter (\<lambda>d. \<not> live d) ds"
  have ds: "ds = ?L @ ?Z" by (rule wf_deps_split [OF wf])
  have L: "sorted_wrt (\<lambda>a b. did b \<le> did a) ?L" "distinct (map dep_id ?L)" "\<forall>e \<in> set ?L. live e"
    using wf by (auto simp: wf_deps_def live_deps_def sorted_wrt_filter)
  have len: "length ?L + length ?Z = MAX_DEPS"
    using wf ds by (metis length_append wf_deps_length)
  have "find_index (\<lambda>e. dep_id e = dep_id d) ?L \<noteq> None"
    using known by (auto simp: find_index_None)
  then obtain i where fi: "find_index (\<lambda>e. dep_id e = dep_id d) ?L = Some i" by auto
  then have i: "i < length ?L" "dep_id (?L ! i) = dep_id d" by (auto simp: find_index_Some)
  have dsi: "ds ! i = ?L ! i" using i(1) by (subst ds) (simp add: nth_append)
  have upd: "update_deps ds d = (if committed (?L ! i) < committed d
      then (ds[i := (?L ! i)\<lparr>committed := committed d\<rparr>], 1) else (ds, 0))"
    using d fi dsi find_eq_live [OF wf d] by (simp add: update_deps_def live_def)
  have marked: "wf_deps (map (mark_committed d) ?L @ ?Z) \<and>
      live_deps (map (mark_committed d) ?L @ ?Z) = map (mark_committed d) ?L"
    using L len by (intro wf_deps_appendI) (auto simp: sorted_wrt_map o_def)
  have new: "ds[i := (?L ! i)\<lparr>committed := committed d\<rparr>] = map (mark_committed d) ?L @ ?Z"
    if "committed (?L ! i) < committed d"
    using update_marked [OF L(2) i that] i(1) by (metis ds list_update_append1)
  have "wf_deps (fst (update_deps ds d)) \<and>
      live_deps (fst (update_deps ds d)) = map (mark_committed d) ?L \<and>
      snd (update_deps ds d) = (if map (mark_committed d) ?L = ?L then 0 else 1)"
  proof (cases "committed (?L ! i) < committed d")
    case True
    then have "map (mark_committed d) ?L ! i \<noteq> ?L ! i"
      using i by (auto simp: mark_committed_def max_def dest: arg_cong [of _ _ committed])
    then show ?thesis using True upd new marked by auto
  next
    case False
    then show ?thesis using upd unmarked_id [OF L(2) i False] wf by simp
  qed
  then show "wf_deps (fst (update_deps ds d))"
    and "live_deps (fst (update_deps ds d)) = map (mark_committed d) (live_deps ds)"
    and "snd (update_deps ds d) = (if map (mark_committed d) (live_deps ds) = live_deps ds then 0 else 1)"
    by blast+
qed

text \<open>The scan for a slot stops behind the entries that are not older.\<close>

lemma find_slot:
  assumes wf: "wf_deps ds" and d: "live d"
  defines "L \<equiv> live_deps ds"
  shows "find_index (\<lambda>e. did e < did d) ds =
    (if length (newer d L) < MAX_DEPS then Some (length (newer d L)) else None)"
proof -
  let ?Z = "filter (\<lambda>d. \<not> live d) ds"
  have sorted: "sorted_wrt (\<lambda>a b. did b \<le> did a) L"
    using wf by (auto simp: wf_deps_def L_def live_deps_def sorted_wrt_filter)
  have ds: "ds = newer d L @ older d L @ ?Z"
    using wf_deps_split [OF wf] newer_older [OF sorted, of d] L_def by (metis append_assoc)
  have none: "find_index (\<lambda>e. did e < did d) (newer d L) = None"
    by (auto simp: newer_def not_less find_index_None)
  have rest: "\<forall>e \<in> set (older d L @ ?Z). did e < did d"
    using d by (auto simp: older_def live_def word_gt_0)
  have len: "length (newer d L) + length (older d L @ ?Z) = MAX_DEPS"
    using wf_deps_length [OF wf] ds by (metis length_append)
  show ?thesis
  proof (cases "older d L @ ?Z")
    case Nil
    then have "ds = newer d L" using ds by simp
    then show ?thesis using none len Nil by simp
  next
    case (Cons e es)
    then have "find_index (\<lambda>e. did e < did d) (older d L @ ?Z) = Some 0"
      using rest by simp
    then have "find_index (\<lambda>e. did e < did d) ds = Some (length (newer d L))"
      by (subst ds) (simp only: find_index_append none option.case, simp)
    moreover have "length (newer d L) < MAX_DEPS" using len Cons by simp
    ultimately show ?thesis by simp
  qed
qed

lemma update_deps_new:
  assumes wf: "wf_deps ds" and d: "live d" and unknown: "dep_id d \<notin> dep_id ` set (live_deps ds)"
  defines "L \<equiv> live_deps ds"
  shows "wf_deps (fst (update_deps ds d))"
    and "live_deps (fst (update_deps ds d)) = dep_update_spec d L"
    and "snd (update_deps ds d) = (if length (newer d L) < MAX_DEPS then 1 else 0)"
proof -
  let ?Z = "filter (\<lambda>d. \<not> live d) ds" and ?A = "newer d L" and ?B = "older d L"
  have L: "sorted_wrt (\<lambda>a b. did b \<le> did a) L" "distinct (map dep_id L)" "\<forall>e \<in> set L. live e"
    using wf by (auto simp: wf_deps_def live_deps_def sorted_wrt_filter L_def)
  have AB: "?A @ ?B = L" by (rule newer_older [OF L(1)])
  have ds: "ds = ?A @ ?B @ ?Z" using wf_deps_split [OF wf] AB L_def by (metis append_assoc)
  have len: "length ?A + length ?B + length ?Z = MAX_DEPS"
    using wf_deps_length [OF wf] ds by (metis length_append add.assoc)
  have "\<forall>e \<in> set (live_deps ds). dep_id e \<noteq> dep_id d" using unknown by (metis imageI)
  then have "find_index (\<lambda>e. eq_instance_id (dep_id e) (dep_id d)) ds = None"
    using find_eq_live [OF wf d] by (simp add: find_index_None)
  then have upd: "update_deps ds d =
      (if length ?A < MAX_DEPS
       then ((shift_deps (length ?A) (MAX_DEPS - 1) ds)[length ?A := d], 1) else (ds, 0))"
    using d find_slot [OF wf d] by (simp add: update_deps_def live_def L_def)
  have spec: "dep_update_spec d L = (if length ?A < MAX_DEPS then ?A @ d # butlast ?B else L)"
    using d unknown by (simp add: dep_update_spec_def L_def)
  have "wf_deps (fst (update_deps ds d)) \<and> live_deps (fst (update_deps ds d)) = dep_update_spec d L"
  proof (cases "length ?A < MAX_DEPS")
    case True
    let ?Z' = "if ?B = [] then tl ?Z else ?Z"
    have "\<forall>e \<in> set ?B. live e" "\<forall>e \<in> set ?Z. \<not> live e"
      using L(3) by (auto simp: older_def)
    from shift_insert [OF len this True, of d]
    have "(shift_deps (length ?A) (MAX_DEPS - 1) ds)[length ?A := d] = (?A @ d # butlast ?B) @ ?Z'"
      unfolding ds [symmetric] by simp
    moreover have "wf_deps ((?A @ d # butlast ?B) @ ?Z') \<and>
      live_deps ((?A @ d # butlast ?B) @ ?Z') = ?A @ d # butlast ?B"
    proof (rule wf_deps_appendI)
      show "length (?A @ d # butlast ?B) + length ?Z' = MAX_DEPS"
        using len True by (cases "?B = []") auto
      have "sorted_wrt (\<lambda>a b. did b \<le> did a) ?B" using L(1) by (simp add: older_def sorted_wrt_filter)
      then show "sorted_wrt (\<lambda>a b. did b \<le> did a) (?A @ d # butlast ?B)"
        using L(1) by (auto simp: sorted_wrt_append newer_def older_def sorted_wrt_filter
            sorted_wrt_butlast dest!: set_butlastD)
      show "distinct (map dep_id (?A @ d # butlast ?B))"
        by (rule distinct_replace_last; unfold AB) (use L(2) unknown in \<open>simp_all add: L_def\<close>)
      show "\<forall>e \<in> set (?A @ d # butlast ?B). live e"
        using L(3) d by (auto simp: newer_def older_def dest!: set_butlastD)
      show "\<forall>e \<in> set ?Z'. \<not> live e"
        by (auto dest!: set_tlD)
    qed
    ultimately show ?thesis using True upd spec by simp
  next
    case False
    then show ?thesis using upd spec wf by (simp add: L_def)
  qed
  then show "wf_deps (fst (update_deps ds d))"
    and "live_deps (fst (update_deps ds d)) = dep_update_spec d L" by blast+
  show "snd (update_deps ds d) = (if length ?A < MAX_DEPS then 1 else 0)"
    using upd by simp
qed

section \<open>The contract of update_deps\<close>

text \<open>
  What a caller that folds an update over several dependencies may rely on: the array stays
  well-formed, the live entries follow the specification, and the returned flag tells whether
  they changed.
\<close>

locale dep_array =
  fixes upd :: "'a \<Rightarrow> 'd \<Rightarrow> 'a \<times> nat"
    and abs :: "'a \<Rightarrow> 'l"
    and inv :: "'a \<Rightarrow> bool"
    and spec :: "'d \<Rightarrow> 'l \<Rightarrow> 'l"
  assumes inv_upd: "inv ds \<Longrightarrow> inv (fst (upd ds d))"
    and abs_upd: "inv ds \<Longrightarrow> abs (fst (upd ds d)) = spec d (abs ds)"
    and flag_upd: "inv ds \<Longrightarrow> snd (upd ds d) = (if spec d (abs ds) = abs ds then 0 else 1)"
begin

abbreviation upd_step :: "'d \<Rightarrow> 'a \<times> nat \<Rightarrow> 'a \<times> nat" where
  "upd_step d st \<equiv> (fst (upd (fst st) d), snd st + snd (upd (fst st) d))"

lemma fold_inv: "inv (fst st) \<Longrightarrow> inv (fst (fold upd_step xs st))"
  by (induction xs arbitrary: st) (simp_all add: inv_upd)

lemma fold_abs: "inv (fst st) \<Longrightarrow> abs (fst (fold upd_step xs st)) = fold spec xs (abs (fst st))"
  by (induction xs arbitrary: st) (simp_all add: inv_upd abs_upd)

lemma fold_flag_mono: "snd st \<le> snd (fold upd_step xs st)"
  by (induction xs arbitrary: st) (simp, simp, metis (no_types, lifting) add_leD1 fst_conv snd_conv)

lemma fold_flag_le: "inv (fst st) \<Longrightarrow> snd (fold upd_step xs st) \<le> snd st + length xs"
proof (induction xs arbitrary: st)
  case Nil
  then show ?case by simp
next
  case (Cons d xs)
  have "snd (fold upd_step xs (upd_step d st)) \<le> snd (upd_step d st) + length xs"
    by (rule Cons.IH) (simp add: Cons.prems inv_upd)
  then show ?case using flag_upd [OF Cons.prems, of d] by (auto split: if_splits)
qed

text \<open>No update was counted exactly when none of them changed the live entries.\<close>

lemma fold_unchanged:
  "inv (fst st) \<Longrightarrow>
   snd (fold upd_step xs st) = snd st \<longleftrightarrow> (\<forall>d \<in> set xs. spec d (abs (fst st)) = abs (fst st))"
proof (induction xs arbitrary: st)
  case Nil
  then show ?case by simp
next
  case (Cons d xs)
  have inv': "inv (fst (upd_step d st))" by (simp add: Cons.prems inv_upd)
  show ?case
  proof (cases "spec d (abs (fst st)) = abs (fst st)")
    case True
    then show ?thesis
      using Cons.IH [OF inv'] abs_upd [OF Cons.prems, of d] flag_upd [OF Cons.prems, of d] by simp
  next
    case False
    then have "snd st < snd (upd_step d st)" using flag_upd [OF Cons.prems, of d] by simp
    also have "\<dots> \<le> snd (fold upd_step xs (upd_step d st))" by (rule fold_flag_mono)
    finally show ?thesis using False by simp
  qed
qed

end

lemma spec_changes_iff_room:
  assumes "wf_deps ds" and "live d" and "dep_id d \<notin> dep_id ` set (live_deps ds)"
  shows "dep_update_spec d (live_deps ds) = live_deps ds \<longleftrightarrow>
    \<not> length (newer d (live_deps ds)) < MAX_DEPS"
proof
  assume eq: "dep_update_spec d (live_deps ds) = live_deps ds"
  show "\<not> length (newer d (live_deps ds)) < MAX_DEPS"
  proof
    assume "length (newer d (live_deps ds)) < MAX_DEPS"
    then have "d \<in> set (dep_update_spec d (live_deps ds))"
      using assms(2,3) by (simp add: dep_update_spec_def)
    with eq assms(3) show False by simp
  qed
qed (use assms(2,3) in \<open>simp add: dep_update_spec_def\<close>)

interpretation deps: dep_array update_deps live_deps wf_deps dep_update_spec
proof unfold_locales
  fix ds :: "dependency list" and d
  assume wf: "wf_deps ds"
  have "wf_deps (fst (update_deps ds d)) \<and>
      live_deps (fst (update_deps ds d)) = dep_update_spec d (live_deps ds) \<and>
      snd (update_deps ds d) = (if dep_update_spec d (live_deps ds) = live_deps ds then 0 else 1)"
  proof (cases "live d")
    case False
    then show ?thesis using wf by (simp add: update_deps_def dep_update_spec_def live_def)
  next
    case d: True
    show ?thesis
    proof (cases "dep_id d \<in> dep_id ` set (live_deps ds)")
      case True
      moreover from this d have "dep_update_spec d (live_deps ds) = map (mark_committed d) (live_deps ds)"
        by (simp add: dep_update_spec_def)
      ultimately show ?thesis using update_deps_known [OF wf d] by simp
    next
      case False
      then show ?thesis
        using update_deps_new [OF wf d False] spec_changes_iff_room [OF wf d False] by simp
    qed
  qed
  then show "wf_deps (fst (update_deps ds d))"
    and "live_deps (fst (update_deps ds d)) = dep_update_spec d (live_deps ds)"
    and "snd (update_deps ds d) = (if dep_update_spec d (live_deps ds) = live_deps ds then 0 else 1)"
    by blast+
qed

text \<open>
  C10. \<^verbatim>\<open>update_deps\<close> keeps the array sorted and free of duplicates and implements its list
  specification: a known dependency keeps its place and its committed flag only rises; a new
  one goes behind the entries that are not older, at the cost of the oldest entry whenever it
  is not the oldest itself; the result says whether anything changed.
\<close>

theorem update_deps_refines:
  assumes "wf_deps ds"
  shows "wf_deps (fst (update_deps ds d)) \<and>
    live_deps (fst (update_deps ds d)) = dep_update_spec d (live_deps ds) \<and>
    snd (update_deps ds d) = (if dep_update_spec d (live_deps ds) = live_deps ds then 0 else 1)"
  using deps.inv_upd [OF assms] deps.abs_upd [OF assms] deps.flag_upd [OF assms] by simp

text \<open>
  C33. The comment above \<^verbatim>\<open>update_deps\<close> promises a free slot before anything is replaced. It
  is not kept: adding a new dependency that is newer than the last live one always loses that
  last one, however many slots are free.
\<close>

theorem update_deps_loses_oldest:
  assumes "wf_deps ds" and "live d" and "dep_id d \<notin> dep_id ` set (live_deps ds)"
    and "live_deps ds \<noteq> []" and "did (last (live_deps ds)) < did d"
  shows "last (live_deps ds) \<notin> set (fst (update_deps ds d)) \<and>
    length (live_deps (fst (update_deps ds d))) = length (live_deps ds)"
proof -
  let ?L = "live_deps ds" and ?ds' = "fst (update_deps ds d)"
  have L: "sorted_wrt (\<lambda>a b. did b \<le> did a) ?L" "distinct (map dep_id ?L)"
    using assms(1) by (auto simp: wf_deps_def live_deps_def sorted_wrt_filter)
  have AB: "newer d ?L @ older d ?L = ?L" by (rule newer_older [OF L(1)])
  have B: "older d ?L \<noteq> []"
    using assms(4,5) by (auto simp: older_def filter_empty_conv dest!: last_in_set)
  have len: "length (newer d ?L) + length (older d ?L) = length ?L"
    using AB by (metis length_append)
  with B length_live_deps [OF assms(1)] have room: "length (newer d ?L) < MAX_DEPS"
    by (cases "older d ?L") auto
  have L': "live_deps ?ds' = newer d ?L @ d # butlast (older d ?L)"
    using update_deps_new(2) [OF assms(1-3)] room assms(2,3) by (simp add: dep_update_spec_def)
  have last: "last ?L = last (older d ?L)" using AB B by (metis last_appendR)
  have dist: "distinct (newer d ?L @ butlast (older d ?L) @ [last (older d ?L)])"
    using L(2) AB B by (metis append_butlast_last_id distinct_map)
  have "last ?L \<in> set ?L" using assms(4) by simp
  then have "last ?L \<noteq> d" "live (last ?L)" using assms(3) by (auto simp: live_deps_def)
  then have "last ?L \<notin> set (live_deps ?ds')" using L' last dist by auto
  then have "last ?L \<notin> set ?ds'" using \<open>live (last ?L)\<close> by (simp add: live_deps_def)
  moreover have "length (live_deps ?ds') = length ?L"
    using L' len B by (cases "older d ?L" rule: rev_cases) auto
  ultimately show ?thesis by simp
qed

section \<open>Scans over an array\<close>

lemma has_key_iff [simp]: "has_key k ds \<longleftrightarrow> k \<in> dep_id ` set ds"
  by (induction ds) auto

lemma equal_deps_iff: "length ds1 = length ds2 \<Longrightarrow> equal_deps ds1 ds2 \<longleftrightarrow> ds1 = ds2"
proof (induction ds1 ds2 rule: list_induct2)
  case Nil
  then show ?case by simp
next
  case (Cons d1 ds1 d2 ds2)
  then show ?case by (cases d1; cases d2) auto
qed

text \<open>
  \<^verbatim>\<open>lt_dep_replica\<close> reads the first entry it finds; on a well-formed array that is the
  newest live dependency on the replica, and 0 when there is none.
\<close>

theorem lt_dep_replica_newest:
  assumes "wf_deps ds"
  shows "lt_dep_replica rid ds =
    (if \<exists>d \<in> set (live_deps ds). replica_id (dep_id d) = rid
     then Max (did ` {d \<in> set (live_deps ds). replica_id (dep_id d) = rid}) else 0)"
proof -
  have "lt_dep_replica rid ds =
    (if \<exists>d \<in> set ds. live d \<and> replica_id (dep_id d) = rid
     then Max (did ` {d \<in> set ds. live d \<and> replica_id (dep_id d) = rid}) else 0)"
    if "sorted_wrt (\<lambda>a b. did b \<le> did a) ds" for ds
    using that
  proof (induction ds)
    case Nil
    then show ?case by simp
  next
    case (Cons d ds)
    let ?S = "\<lambda>ds. {d \<in> set ds. live d \<and> replica_id (dep_id d) = rid}"
    have le: "\<forall>e \<in> set ds. did e \<le> did d" using Cons.prems by simp
    show ?case
    proof (cases "replica_id (dep_id d) = rid")
      case False
      then have "?S (d # ds) = ?S ds" by auto
      with False Cons show ?thesis by auto
    next
      case here: True
      show ?thesis
      proof (cases "live d")
        case True
        then have "Max (did ` ?S (d # ds)) = did d"
          using here le by (intro Max_eqI) auto
        with here True show ?thesis by simp
      next
        case False
        then have "did d = 0" by (simp add: live_def)
        then have "\<forall>e \<in> set (d # ds). \<not> live e" using le by (auto simp: live_def)
        with here \<open>did d = 0\<close> show ?thesis by auto
      qed
    qed
  qed
  moreover have "(\<exists>d \<in> set (live_deps ds). replica_id (dep_id d) = rid) \<longleftrightarrow>
      (\<exists>d \<in> set ds. live d \<and> replica_id (dep_id d) = rid)"
    and "{d \<in> set (live_deps ds). replica_id (dep_id d) = rid} =
      {d \<in> set ds. live d \<and> replica_id (dep_id d) = rid}"
    by (auto simp: live_deps_def)
  ultimately show ?thesis using assms by (simp only: wf_deps_def)
qed

text \<open>
  \<^verbatim>\<open>has_uncommitted_deps\<close> stops at the first empty slot, which on a well-formed array
  still sees every live dependency.
\<close>

theorem has_uncommitted_deps_iff:
  assumes "wf_deps (i_deps i)"
  shows "has_uncommitted_deps i \<longleftrightarrow> (\<exists>d \<in> set (live_deps (i_deps i)). committed d = 0)"
proof -
  have "uncommitted_scan ds \<longleftrightarrow> (\<exists>d \<in> set ds. live d \<and> committed d = 0)"
    if "sorted_wrt (\<lambda>a b. did b \<le> did a) ds" for ds
    using that by (induction ds) (auto simp: live_def)
  with assms show ?thesis by (auto simp: has_uncommitted_deps_def wf_deps_def live_deps_def)
qed

section \<open>Sorting an array\<close>

interpretation dep_sort: shift_sort "\<lambda>a b. did a < did b"
  by unfold_locales auto

text \<open>
  C31. \<^verbatim>\<open>sort_deps\<close> sorts a full array newest first, keeps its entries, and keeps the order of
  entries with equal instance numbers.
\<close>

theorem sort_deps_correct:
  assumes "length ds = MAX_DEPS"
  shows "sorted_wrt (\<lambda>a b. did b \<le> did a) (sort_deps ds) \<and> mset (sort_deps ds) = mset ds \<and>
    (\<forall>n. filter (\<lambda>e. did e = n) (sort_deps ds) = filter (\<lambda>e. did e = n) ds)"
proof -
  have eq: "sort_deps ds = fold dep_sort.sort_round [1..<length ds] ds"
    by (simp only: sort_deps_def assms)
  have "filter (\<lambda>e. did e = n) (sort_deps ds) = filter (\<lambda>e. did e = n) ds" for n
  proof -
    define k :: dependency where "k = \<lparr>dep_id = \<lparr>replica_id = 0, instance_id = n\<rparr>, committed = 0\<rparr>"
    have "(\<lambda>e. \<not> did e < did k \<and> \<not> did k < did e) = (\<lambda>e. did e = n)"
      by (auto simp: k_def)
    with dep_sort.sort_all(3) [of k ds] show ?thesis unfolding eq by simp
  qed
  moreover have "sorted_wrt (\<lambda>a b. did b \<le> did a) (sort_deps ds)"
    using dep_sort.sort_all(1) [of ds] unfolding eq by (simp only: not_less)
  moreover have "mset (sort_deps ds) = mset ds"
    unfolding eq by (rule dep_sort.sort_all(2))
  ultimately show ?thesis by blast
qed

section \<open>Commit flags\<close>

lemma dep_update_spec_keeps:
  assumes "e \<in> set (dep_update_spec d L)"
  shows "(e = d \<or> (\<exists>e' \<in> set L. dep_id e' = dep_id e \<and> committed e' \<le> committed e))"
  using assms
  by (auto simp: dep_update_spec_def mark_committed_def newer_def older_def max_def
      split: if_splits dest!: set_butlastD)

end
