(* ===== verification/Epx_Index.thy ===== *)
theory Epx_Index
  imports Epx_Deps
begin

text \<open>
  \<^verbatim>\<open>src/index.c\<close>: the per-replica instance trees and the walks over them that compute sequence
  numbers, dependencies and conflicts. The trees are the third-party \<^verbatim>\<open>llrb-interval\<close>
  library: its operations are the fields of \<open>tree_lib\<close>, an argument of every definition that
  calls them, and what the code relies on is the hypothesis \<open>index_laws\<close>.
\<close>

section \<open>The tree library and the heaps\<close>

text \<open>
  An instance tree orders the instances of one replica by their instance number (\<open>intcmp\<close>), so
  an element of the tree is that number, and the instance itself is in the heap at its
  identifier. A span tree is opaque; \<^verbatim>\<open>LLRB_RANGE_GROUP_ADD\<close> gets the \<^verbatim>\<open>merge\<close> callback
  and may change the span it is given; \<open>sp_holds\<close> says whether an element is (still) in the tree.
  \<open>loop_fuel\<close> bounds the walks over a tree.
\<close>

record ('t, 'g) tree_lib =
  ix_empty :: 't
  ix_find :: "'t \<Rightarrow> u64 \<Rightarrow> u64 option"
  ix_insert :: "'t \<Rightarrow> u64 \<Rightarrow> 't \<times> u64 option"
  ix_delete :: "'t \<Rightarrow> u64 \<Rightarrow> 't"
  ix_max :: "'t \<Rightarrow> u64 option"
  ix_min :: "'t \<Rightarrow> u64 option"
  ix_prev :: "'t \<Rightarrow> u64 \<Rightarrow> u64 option"
  ix_next :: "'t \<Rightarrow> u64 \<Rightarrow> u64 option"
  sp_empty :: 'g
  sp_insert :: "'g \<Rightarrow> span \<Rightarrow> 'g"
  sp_delete :: "'g \<Rightarrow> span \<Rightarrow> 'g"
  sp_holds :: "'g \<Rightarrow> span \<Rightarrow> bool"
  sp_overlaps :: "'g \<Rightarrow> span \<Rightarrow> bool"
  sp_group_add :: "('g \<Rightarrow> span \<Rightarrow> span list \<Rightarrow> 'g \<times> span \<times> span list) \<Rightarrow>
                   'g \<Rightarrow> span \<Rightarrow> bool \<times> 'g \<times> span"
  loop_fuel :: nat

type_synonym insts = "instance_id \<Rightarrow> inst option"
type_synonym cmds = "nat \<Rightarrow> command option"

definition iid :: "u64 \<Rightarrow> u64 \<Rightarrow> instance_id" where
  "iid rid n = \<lparr>replica_id = rid, instance_id = n\<rparr>"

lemma iid_simps [simp]:
  "replica_id (iid rid n) = rid" "instance_id (iid rid n) = n"
  "iid rid n = iid rid' n' \<longleftrightarrow> rid = rid' \<and> n = n'"
  by (simp_all add: iid_def)

lemma iid_eta [simp]: "iid (replica_id k) (instance_id k) = k"
  by (simp add: iid_def)

definition load_cmd :: "cmds \<Rightarrow> cmd_ptr \<Rightarrow> command res" where
  "load_cmd cmds p = and_then (deref p) (load cmds)"

lemma load_cmd_eq_Inr: "load_cmd cmds p = Inr c \<longleftrightarrow> (\<exists>a. p = Some a \<and> cmds a = Some c)"
  by (cases p) (simp_all add: load_cmd_def)

lemma load_cmd_None [simp]: "load_cmd cmds None = Inl Null_deref"
  by (simp add: load_cmd_def)

text \<open>\<^verbatim>\<open>destroy_instance\<close> of \<^verbatim>\<open>instance.c\<close>; freeing a command twice is a fault.\<close>

definition destroy_instance :: "instance_id \<Rightarrow> insts \<times> cmds \<Rightarrow> (insts \<times> cmds) res" where
  "destroy_instance k = (\<lambda>(insts, cmds).
     and_then (load insts k) (\<lambda>i.
       case i_command i of
         None \<Rightarrow> Inr (insts(k := None), cmds)
       | Some p \<Rightarrow> and_then (load cmds p) (\<lambda>_. Inr (insts(k := None), cmds(p := None)))))"

section \<open>Merging ranges\<close>

text \<open>
  \<^verbatim>\<open>merge\<close>: the group list gets the new range at its head; every range of the group that
  overlaps it (as widened so far) is folded into it, unlinked and deleted from the tree.
\<close>

definition widen :: "span \<Rightarrow> span \<Rightarrow> span" where
  "widen m c =
     (let m1 = (if strcmp (start_key m) (start_key c) > 0 then m\<lparr>start_key := start_key c\<rparr> else m)
      in if strcmp (end_key m1) (end_key c) < 0 then m1\<lparr>end_key := end_key c\<rparr> else m1)"

fun merge_loop :: "('t, 'g) tree_lib \<Rightarrow> 'g \<Rightarrow> span \<Rightarrow> span list \<Rightarrow> 'g \<times> span \<times> span list" where
  "merge_loop L rt to_merge [] = (rt, to_merge, [])"
| "merge_loop L rt to_merge (c # next) =
     (if overlaps to_merge c then
        merge_loop L (sp_delete L rt c) (widen to_merge c) next
      else let (rt', m', kept) = merge_loop L rt to_merge next in (rt', m', c # kept))"

definition merge_spans :: "('t, 'g) tree_lib \<Rightarrow> 'g \<Rightarrow> span \<Rightarrow> span list \<Rightarrow> 'g \<times> span \<times> span list" where
  "merge_spans L rt to_merge sll =
     (let (rt', m', kept) = merge_loop L rt to_merge sll in (rt', m', m' # kept))"

text \<open>
  The tree of ranges that a walk builds holds the address of a variable, \<^verbatim>\<open>nsp\<close>, that lives only in the block
  that inserts it. The flag is set when that block ends with the element still in the tree; a call
  into the library then reads a variable that is gone.
\<close>

type_synonym 'g span_tree = "'g \<times> bool"

definition in_scope :: "'g span_tree \<Rightarrow> 'g res" where
  "in_scope = (\<lambda>(g, ended). if ended then Inl Use_after_scope else Inr g)"

lemma in_scope_eq_Inr [simp]: "in_scope rt = Inr g \<longleftrightarrow> rt = (g, False)"
  by (cases rt) (auto simp: in_scope_def)

lemma in_scope_simps [simp, res_simps]: "in_scope (g, False) = Inr g" "in_scope (g, True) = Inl Use_after_scope"
  by (simp_all add: in_scope_def)

fun read_dependency_loop :: "('t, 'g) tree_lib \<Rightarrow> 'g span_tree \<Rightarrow> span list \<Rightarrow> nat list \<Rightarrow> bool res" where
  "read_dependency_loop L rt ss [] = Inr True"
| "read_dependency_loop L rt ss (i # is) =
     and_then (aget ss i) (\<lambda>s. and_then (in_scope rt) (\<lambda>g.
       if sp_overlaps L g s then Inr False else read_dependency_loop L rt ss is))"

definition read_dependency :: "('t, 'g) tree_lib \<Rightarrow> 'g span_tree \<Rightarrow> command \<Rightarrow> bool res" where
  "read_dependency L rt cmd = read_dependency_loop L rt (spans cmd) [0..<unat (tx_size cmd)]"

section \<open>The covering loops\<close>

text \<open>
  The part that \<^verbatim>\<open>seq_deps_for_command\<close> and \<^verbatim>\<open>pre_accept_conflict\<close> share. Adding the
  command's own ranges passes pointers into the command to the library, so a range of the
  command in the heap may come back changed.
\<close>

definition cover_step :: "('t, 'g) tree_lib \<Rightarrow> cmd_ptr \<Rightarrow> nat \<Rightarrow> 'g \<times> cmds \<times> bool \<Rightarrow>
    ('g \<times> cmds \<times> bool) res" where
  "cover_step L cp j = (\<lambda>(rt, cmds, covered).
     and_then (load_cmd cmds cp) (\<lambda>cmd.
       and_then (aget (spans cmd) j) (\<lambda>s.
         case sp_group_add L (merge_spans L) rt s of (added, rt', s') \<Rightarrow>
           Inr (rt', cmds(the cp \<mapsto> cmd\<lparr>spans := (spans cmd)[j := s']\<rparr>),
                covered \<and> \<not> added))))"

fun span_loop :: "('t, 'g) tree_lib \<Rightarrow> cmd_ptr \<Rightarrow> nat list \<Rightarrow> span list \<Rightarrow> 'g span_tree \<times> cmds \<times> bool \<Rightarrow>
    ('g span_tree \<times> cmds \<times> bool \<times> bool) res" where
  "span_loop L cp [] cspan (rt, cmds, add) = Inr (rt, cmds, add, False)"
| "span_loop L cp (i # is) cspan (rt, cmds, add) =
     and_then (aget cspan i) (\<lambda>s.
       if empty_range s then Inr (rt, cmds, add, False)
       else and_then (in_scope rt) (\<lambda>g.
         case sp_group_add L (merge_spans L) g s of (added, g', s') \<Rightarrow>
           if added then
             and_then (load_cmd cmds cp) (\<lambda>cmd.
               and_then (for_each [0..<unat (tx_size cmd)] (cover_step L cp)
                          (sp_insert L g' s', cmds, True))
                 (\<lambda>(g'', cmds', covered).
                    let rt' = (g'', sp_holds L g'' s') in
                    if covered then Inr (rt', cmds', True, True)
                    else span_loop L cp is (cspan[i := s']) (rt', cmds', True)))
           else span_loop L cp is (cspan[i := s']) ((g', False), cmds, add)))"

text \<open>\<^verbatim>\<open>interferes\<close> through the two pointers: the second is followed only when its command is read.\<close>

definition interferes_at :: "cmds \<Rightarrow> cmd_ptr \<Rightarrow> cmd_ptr \<Rightarrow> (bool \<times> span list) res" where
  "interferes_at cmds p1 p2 =
     and_then (load_cmd cmds p1) (\<lambda>c1.
       if writing c1 = WRITE \<and> tx_size c1 = 0 then Inr (False, replicate TX_SIZE zero_span)
       else and_then (load_cmd cmds p2) (\<lambda>c2.
         interferes c1 c2 (replicate TX_SIZE zero_span)))"

section \<open>Sequence number and dependencies of a command\<close>

record seq_deps_probe =
  updated :: nat
  p_deps :: "dependency list"

definition probe_add :: "inst \<Rightarrow> seq_deps_probe \<Rightarrow> seq_deps_probe" where
  "probe_add ti p = p\<lparr>updated := updated p + snd (add_dep (p_deps p) ti),
                       p_deps := fst (add_dep (p_deps p) ti)\<rparr>"

fun seq_deps_loop :: "('t, 'g) tree_lib \<Rightarrow> 't \<Rightarrow> insts \<Rightarrow> u64 \<Rightarrow> cmd_ptr \<Rightarrow> instance_id option \<Rightarrow>
    nat \<Rightarrow> u64 option \<Rightarrow> u64 \<times> 'g span_tree \<times> cmds \<times> seq_deps_probe \<Rightarrow> (u64 \<times> cmds \<times> seq_deps_probe) res" where
  "seq_deps_loop L ix insts rid cp ignore fuel None (mseq, rt, cmds, p) = Inr (mseq, cmds, p)"
| "seq_deps_loop L ix insts rid cp ignore 0 (Some c) st = Inl Loop_bound"
| "seq_deps_loop L ix insts rid cp ignore (Suc fuel) (Some c) (mseq, rt, cmds, p) =
     and_then (load insts (iid rid c)) (\<lambda>ti.
       let continue = seq_deps_loop L ix insts rid cp ignore fuel (ix_prev L ix c) in
       if ignore = Some (i_key ti) then continue (mseq, rt, cmds, p)
       else if is_state (i_status ti) EXECUTED then Inr (mseq, cmds, p)
       else and_then (interferes_at cmds (i_command ti) cp) (\<lambda>(hit, cspan).
         if \<not> hit then continue (mseq, rt, cmds, p)
         else and_then (load_cmd cmds (i_command ti)) (\<lambda>tc.
           let mseq' = max_seq mseq (i_seq ti) in
           if writing tc = WRITE then
             and_then (span_loop L cp [0..<unat (tx_size tc)] cspan (rt, cmds, False))
               (\<lambda>(rt', cmds', add, covered).
                  let p' = (if add then probe_add ti p else p) in
                  if covered then Inr (mseq', cmds', p')
                  else continue (mseq', rt', cmds', p'))
           else
             and_then (load_cmd cmds cp) (\<lambda>cmd.
               and_then (read_dependency L rt cmd) (\<lambda>no_overlap.
                 continue (mseq', rt, cmds, if no_overlap then probe_add ti p else p))))))"

definition seq_deps_for_command :: "('t, 'g) tree_lib \<Rightarrow> 't \<Rightarrow> insts \<Rightarrow> u64 \<Rightarrow> cmd_ptr \<Rightarrow>
    instance_id option \<Rightarrow> cmds \<times> seq_deps_probe \<Rightarrow> (u64 \<times> cmds \<times> seq_deps_probe) res" where
  "seq_deps_for_command L ix insts rid cp ignore = (\<lambda>(cmds, probe).
     seq_deps_loop L ix insts rid cp ignore (loop_fuel L) (ix_max L ix)
       (0, (sp_empty L, False), cmds, probe))"

section \<open>Barriers, no-ops, clearing, conflicts\<close>

text \<open>\<^verbatim>\<open>LLRB_PREV\<close> of no element and \<^verbatim>\<open>add_dep\<close> of no instance both follow a null pointer.\<close>

definition barrier_dep :: "('t, 'g) tree_lib \<Rightarrow> 't \<Rightarrow> insts \<Rightarrow> u64 \<Rightarrow> dependency list \<Rightarrow>
    dependency list res" where
  "barrier_dep L ix insts rid deps =
     and_then (deref (ix_max L ix)) (\<lambda>k.
       and_then (deref (ix_prev L ix k)) (\<lambda>k'.
         and_then (load insts (iid rid k')) (\<lambda>i. Inr (fst (add_dep deps i)))))"

definition noop_dep :: "('t, 'g) tree_lib \<Rightarrow> 't \<Rightarrow> insts \<Rightarrow> instance_id \<Rightarrow> dependency list res" where
  "noop_dep L ix insts nid =
     and_then (deref (ix_find L ix (instance_id nid))) (\<lambda>k.
       case ix_prev L ix k of
         None \<Rightarrow> Inr zero_deps
       | Some k' \<Rightarrow> and_then (load insts (iid (replica_id nid) k'))
                        (\<lambda>dep. Inr (fst (add_dep zero_deps dep))))"

text \<open>\<open>executed\<close> is the last executed instance seen, still in the tree.\<close>

fun clear_loop :: "('t, 'g) tree_lib \<Rightarrow> u64 \<Rightarrow> nat \<Rightarrow> u64 option \<Rightarrow> u64 option \<Rightarrow>
    't \<times> insts \<times> cmds \<Rightarrow> ('t \<times> insts \<times> cmds) res" where
  "clear_loop L rid fuel None executed st = Inr st"
| "clear_loop L rid 0 (Some c) executed st = Inl Loop_bound"
| "clear_loop L rid (Suc fuel) (Some c) executed (ix, insts, cmds) =
     and_then (load insts (iid rid c)) (\<lambda>i.
       let nxt = ix_next L ix c in
       if i_status i < EXECUTED then Inr (ix, insts, cmds)
       else if is_state (i_status i) EXECUTED then
         (case executed of
            None \<Rightarrow> clear_loop L rid fuel nxt (Some c) (ix, insts, cmds)
          | Some e \<Rightarrow>
              and_then (destroy_instance (iid rid e) (insts, cmds)) (\<lambda>(insts', cmds').
                clear_loop L rid fuel nxt (Some c) (ix_delete L ix e, insts', cmds')))
       else clear_loop L rid fuel nxt executed (ix, insts, cmds))"

definition clear_index :: "('t, 'g) tree_lib \<Rightarrow> u64 \<Rightarrow> 't \<times> insts \<times> cmds \<Rightarrow>
    ('t \<times> insts \<times> cmds) res" where
  "clear_index L rid = (\<lambda>(ix, insts, cmds).
     clear_loop L rid (loop_fuel L) (ix_min L ix) None (ix, insts, cmds))"

definition is_dep_conflict :: "inst \<Rightarrow> u64 \<Rightarrow> dependency list \<Rightarrow> u64 \<Rightarrow> bool" where
  "is_dep_conflict ti seq deps rid =
     (let lt_instance = lt_dep_replica (replica_id (i_key ti)) deps in
      instance_id (i_key ti) > lt_instance \<or>
      (instance_id (i_key ti) < lt_instance \<and> i_seq ti \<ge> seq \<and>
       (replica_id (i_key ti) \<noteq> rid \<or> i_status ti > PRE_ACCEPTED_EQ)))"

fun conflict_loop :: "('t, 'g) tree_lib \<Rightarrow> 't \<Rightarrow> insts \<Rightarrow> u64 \<Rightarrow> inst \<Rightarrow> cmd_ptr \<Rightarrow> u64 \<Rightarrow>
    dependency list \<Rightarrow> nat \<Rightarrow> u64 option \<Rightarrow> 'g span_tree \<times> cmds \<Rightarrow> (instance_id option \<times> cmds) res" where
  "conflict_loop L ix insts rid i cp seq deps fuel None (rt, cmds) = Inr (None, cmds)"
| "conflict_loop L ix insts rid i cp seq deps 0 (Some c) st = Inl Loop_bound"
| "conflict_loop L ix insts rid i cp seq deps (Suc fuel) (Some c) (rt, cmds) =
     and_then (load insts (iid rid c)) (\<lambda>ti.
       let continue = conflict_loop L ix insts rid i cp seq deps fuel (ix_prev L ix c) in
       if is_state (i_status ti) EXECUTED then Inr (None, cmds)
       else if has_key (i_key ti) deps then continue (rt, cmds)
       else if i_command ti = None then continue (rt, cmds)
       else if lt_dep_replica (replica_id (i_key i)) (i_deps ti) \<ge> instance_id (i_key i)
         then continue (rt, cmds)
       else and_then (interferes_at cmds (i_command ti) cp) (\<lambda>(hit, cspan).
         if \<not> hit then continue (rt, cmds)
         else and_then (load_cmd cmds (i_command ti)) (\<lambda>tc.
           if writing tc = WRITE then
             and_then (span_loop L cp [0..<unat (tx_size tc)] cspan (rt, cmds, False))
               (\<lambda>(rt', cmds', add, covered).
                  if add \<and> is_dep_conflict ti seq deps (replica_id (i_key i))
                  then Inr (Some (i_key ti), cmds')
                  else if covered then Inr (None, cmds')
                  else continue (rt', cmds'))
           else
             and_then (load_cmd cmds cp) (\<lambda>cmd.
               and_then (read_dependency L rt cmd) (\<lambda>no_overlap.
                 if no_overlap \<and> is_dep_conflict ti seq deps (replica_id (i_key i))
                 then Inr (Some (i_key ti), cmds)
                 else continue (rt, cmds))))))"

definition pre_accept_conflict :: "('t, 'g) tree_lib \<Rightarrow> 't \<Rightarrow> insts \<Rightarrow> u64 \<Rightarrow> inst \<Rightarrow> cmd_ptr \<Rightarrow>
    u64 \<Rightarrow> dependency list \<Rightarrow> cmds \<Rightarrow> (instance_id option \<times> cmds) res" where
  "pre_accept_conflict L ix insts rid i cp seq deps cmds =
     conflict_loop L ix insts rid i cp seq deps (loop_fuel L)
       (ix_find L ix (instance_id (i_key i))) ((sp_empty L, False), cmds)"

end
