(* ===== verification/Epx_Merge.thy ===== *)
theory Epx_Merge
  imports Epx_Index
begin

text \<open>
  What merging a range with a list of ranges is to do, for the \<^verbatim>\<open>merge\<close> callback of \<^verbatim>\<open>src/index.c\<close> and for
  \<^verbatim>\<open>merge_clients\<close> of \<^verbatim>\<open>src/io.c\<close>: which ranges are taken in, and the range that results.
\<close>

definition hull :: "span \<Rightarrow> span list \<Rightarrow> span" where
  "hull m cs = \<lparr>start_key = Min (start_key ` insert m (set cs)), end_key = Max (end_key ` insert m (set cs))\<rparr>"

text \<open>
  \<open>J\<close> are the places of the ranges that are taken in: each of them, and no other, overlaps the hull of
  the range given and of those taken in before it.
\<close>

definition merges :: "span \<Rightarrow> span list \<Rightarrow> nat set \<Rightarrow> bool" where
  "merges m cs J \<longleftrightarrow> J \<subseteq> {..<length cs} \<and>
     (\<forall>i < length cs. i \<in> J \<longleftrightarrow> overlaps (hull m (nths cs (J \<inter> {..<i}))) (cs ! i))"

lemma hull_Nil [simp]: "hull m [] = m"
  by (simp add: hull_def)

lemma widen_hull:
  "widen m c = m\<lparr>start_key := min (start_key m) (start_key c), end_key := max (end_key m) (end_key c)\<rparr>"
  by (auto simp: widen_def Let_def min_def max_def)

lemma hull_Cons: "hull m (c # cs) = hull (widen m c) cs"
  by (cases "cs = []") (simp_all add: hull_def widen_hull min.assoc max.assoc)

lemma hull_grows:
  "start_key (hull m cs) \<le> start_key m" "end_key m \<le> end_key (hull m cs)"
  by (simp_all add: hull_def)

lemma overlaps_hull: "overlaps m c \<Longrightarrow> overlaps (hull m cs) c"
  using hull_grows [of m cs] by (auto dest: order_trans)

lemma merges_Nil [simp]: "merges m [] J \<longleftrightarrow> J = {}"
  by (auto simp: merges_def)

lemma nths_Suc: "nths (c # cs) (insert 0 (Suc ` J)) = c # nths cs J" "nths (c # cs) (Suc ` J) = nths cs J"
  by (simp_all add: nths_Cons inj_image_mem_iff)

lemma nths_Suc_compl:
  "nths (c # cs) (- insert 0 (Suc ` J)) = nths cs (- J)" "nths (c # cs) (- (Suc ` J)) = c # nths cs (- J)"
  by (simp_all add: nths_Cons inj_image_mem_iff Compl_eq)

lemma Suc_below: "insert 0 (Suc ` J) \<inter> {..<Suc i} = insert 0 (Suc ` (J \<inter> {..<i}))"
    "Suc ` J \<inter> {..<Suc i} = Suc ` (J \<inter> {..<i})"
  by auto

lemma merges_take:
  assumes "overlaps m c" and "merges (widen m c) cs J"
  shows "merges m (c # cs) (insert 0 (Suc ` J))"
  unfolding merges_def
proof (intro conjI allI impI)
  show "insert 0 (Suc ` J) \<subseteq> {..<length (c # cs)}" using assms(2) by (auto simp: merges_def)
  fix i
  assume i: "i < length (c # cs)"
  show "i \<in> insert 0 (Suc ` J) \<longleftrightarrow>
      overlaps (hull m (nths (c # cs) (insert 0 (Suc ` J) \<inter> {..<i}))) ((c # cs) ! i)"
  proof (cases i)
    case 0
    then show ?thesis using assms(1) by simp
  next
    case (Suc j)
    with i assms(2) have "j \<in> J \<longleftrightarrow> overlaps (hull (widen m c) (nths cs (J \<inter> {..<j}))) (cs ! j)"
      by (simp add: merges_def)
    then show ?thesis unfolding Suc Suc_below nths_Suc hull_Cons by (simp add: inj_image_mem_iff)
  qed
qed

lemma merges_skip:
  assumes "\<not> overlaps m c" and "merges m cs J"
  shows "merges m (c # cs) (Suc ` J)"
  unfolding merges_def
proof (intro conjI allI impI)
  show "Suc ` J \<subseteq> {..<length (c # cs)}" using assms(2) by (auto simp: merges_def)
  fix i
  assume i: "i < length (c # cs)"
  show "i \<in> Suc ` J \<longleftrightarrow> overlaps (hull m (nths (c # cs) (Suc ` J \<inter> {..<i}))) ((c # cs) ! i)"
  proof (cases i)
    case 0
    then show ?thesis using assms(1) by simp
  next
    case (Suc j)
    with i assms(2) have "j \<in> J \<longleftrightarrow> overlaps (hull m (nths cs (J \<inter> {..<j}))) (cs ! j)"
      by (simp add: merges_def)
    then show ?thesis unfolding Suc Suc_below nths_Suc by (simp add: inj_image_mem_iff)
  qed
qed

text \<open>The places are determined, no range that is left out overlaps the range given, and every range
  that is taken in overlaps the result.\<close>

lemma merges_unique: "merges m cs J \<Longrightarrow> merges m cs J' \<Longrightarrow> J = J'"
proof -
  assume J: "merges m cs J" and J': "merges m cs J'"
  have "i < length cs \<Longrightarrow> i \<in> J \<longleftrightarrow> i \<in> J'" for i
  proof (induction i rule: less_induct)
    case (less i)
    then have "J \<inter> {..<i} = J' \<inter> {..<i}" by auto
    with J J' less.prems show ?case by (simp add: merges_def)
  qed
  moreover have "J \<subseteq> {..<length cs}" "J' \<subseteq> {..<length cs}" using J J' by (simp_all add: merges_def)
  ultimately show "J = J'" by auto
qed

lemma merges_left_out: "merges m cs J \<Longrightarrow> c \<in> set (nths cs (- J)) \<Longrightarrow> \<not> overlaps m c"
  using overlaps_hull by (fastforce simp: merges_def set_nths)

lemma merges_all: "merges m cs J \<Longrightarrow> \<forall>c \<in> set cs. overlaps m c \<Longrightarrow> nths cs (- J) = []"
  using merges_left_out [of m cs J] notin_set_nthsI [of _ cs "- J"] in_set_nthsD [of _ cs "- J"]
  by (metis list.set_intros(1) neq_Nil_conv)

end
