(* ===== verification/Epx_Index_Laws.thy ===== *)
theory Epx_Index_Laws
  imports Epx_Merge
begin

text \<open>
  What the code of \<^verbatim>\<open>src/index.c\<close> relies on from the tree library, a sorted-list model of the
  library that satisfies it, and the facts about the walks that follow: they end, they only
  follow the tree, and \<^verbatim>\<open>merge\<close> computes the hull of the ranges it folds together.
\<close>

section \<open>The laws of the instance tree\<close>

definition largest :: "u64 set \<Rightarrow> u64 option" where
  "largest A = (if A = {} then None else Some (Max A))"

definition smallest :: "u64 set \<Rightarrow> u64 option" where
  "smallest A = (if A = {} then None else Some (Min A))"

text \<open>
  The documented behaviour of the \<^verbatim>\<open>LLRB_*\<close> macros, over the set \<open>keys t\<close> of the elements
  of a tree. Nothing is assumed of \<^verbatim>\<open>LLRB_PREV\<close> and \<^verbatim>\<open>LLRB_NEXT\<close> at an element that is not in
  the tree, and nothing at all of the span tree.
\<close>

definition index_laws :: "('t, 'g) tree_lib \<Rightarrow> ('t \<Rightarrow> u64 set) \<Rightarrow> bool" where
  "index_laws L keys \<longleftrightarrow>
     keys (ix_empty L) = {} \<and>
     (\<forall>t k. ix_find L t k = (if k \<in> keys t then Some k else None)) \<and>
     (\<forall>t k. keys (fst (ix_insert L t k)) = insert k (keys t)) \<and>
     (\<forall>t k. snd (ix_insert L t k) = (if k \<in> keys t then Some k else None)) \<and>
     (\<forall>t k. keys (ix_delete L t k) = keys t - {k}) \<and>
     (\<forall>t. ix_max L t = largest (keys t)) \<and>
     (\<forall>t. ix_min L t = smallest (keys t)) \<and>
     (\<forall>t k. k \<in> keys t \<longrightarrow> ix_prev L t k = largest {j \<in> keys t. j < k}) \<and>
     (\<forall>t k. k \<in> keys t \<longrightarrow> ix_next L t k = smallest {j \<in> keys t. k < j})"

lemma index_lawsD:
  assumes "index_laws L keys"
  shows ix_empty_keys: "keys (ix_empty L) = {}"
    and ix_find_keys: "ix_find L t k = (if k \<in> keys t then Some k else None)"
    and ix_insert_keys: "keys (fst (ix_insert L t k)) = insert k (keys t)"
    and ix_insert_old: "snd (ix_insert L t k) = (if k \<in> keys t then Some k else None)"
    and ix_delete_keys: "keys (ix_delete L t k) = keys t - {k}"
    and ix_max_keys: "ix_max L t = largest (keys t)"
    and ix_min_keys: "ix_min L t = smallest (keys t)"
    and ix_prev_keys: "k \<in> keys t \<Longrightarrow> ix_prev L t k = largest {j \<in> keys t. j < k}"
    and ix_next_keys: "k \<in> keys t \<Longrightarrow> ix_next L t k = smallest {j \<in> keys t. k < j}"
  using assms by (auto simp: index_laws_def)

lemma finite_u64 [simp]: "finite (A :: u64 set)"
  by (rule finite_subset [OF subset_UNIV finite])

lemma largest_Some: "largest A = Some k \<longleftrightarrow> k \<in> A \<and> (\<forall>j \<in> A. j \<le> k)"
  by (auto simp: largest_def Max_eq_iff)

lemma smallest_Some: "smallest A = Some k \<longleftrightarrow> k \<in> A \<and> (\<forall>j \<in> A. k \<le> j)"
  by (auto simp: smallest_def Min_eq_iff)

lemma largest_None [simp]: "largest A = None \<longleftrightarrow> A = {}"
  by (simp add: largest_def)

lemma smallest_None [simp]: "smallest A = None \<longleftrightarrow> A = {}"
  by (simp add: smallest_def)

text \<open>How many steps a walk down, or up, can still take.\<close>

definition steps_down :: "u64 set \<Rightarrow> u64 option \<Rightarrow> nat" where
  "steps_down A c = (case c of None \<Rightarrow> 0 | Some k \<Rightarrow> card {j \<in> A. j \<le> k})"

definition steps_up :: "u64 set \<Rightarrow> u64 option \<Rightarrow> nat" where
  "steps_up A c = (case c of None \<Rightarrow> 0 | Some k \<Rightarrow> card {j \<in> A. k \<le> j})"

lemma steps_down_prev:
  assumes "index_laws L keys" and "k \<in> keys t"
  shows "steps_down (keys t) (ix_prev L t k) < steps_down (keys t) (Some k)"
proof (cases "ix_prev L t k")
  case None
  have "{j \<in> keys t. j \<le> k} \<noteq> {}" using assms(2) by auto
  with None show ?thesis by (simp add: steps_down_def card_gt_0_iff)
next
  case (Some p)
  then have p: "p < k" using ix_prev_keys [OF assms] by (auto simp: largest_Some)
  then have "{j \<in> keys t. j \<le> p} \<subseteq> {j \<in> keys t. j \<le> k}"
    and "k \<in> {j \<in> keys t. j \<le> k}" "k \<notin> {j \<in> keys t. j \<le> p}"
    using assms(2) by auto
  then have "{j \<in> keys t. j \<le> p} \<subset> {j \<in> keys t. j \<le> k}" by blast
  then show ?thesis using Some by (simp add: steps_down_def psubset_card_mono)
qed

lemma steps_up_next:
  assumes "index_laws L keys" and "k \<in> keys t"
  shows "steps_up (keys t) (ix_next L t k) < steps_up (keys t) (Some k)"
proof (cases "ix_next L t k")
  case None
  have "{j \<in> keys t. k \<le> j} \<noteq> {}" using assms(2) by auto
  with None show ?thesis by (simp add: steps_up_def card_gt_0_iff)
next
  case (Some p)
  then have p: "k < p" using ix_next_keys [OF assms] by (auto simp: smallest_Some)
  then have "{j \<in> keys t. p \<le> j} \<subseteq> {j \<in> keys t. k \<le> j}"
    and "k \<in> {j \<in> keys t. k \<le> j}" "k \<notin> {j \<in> keys t. p \<le> j}"
    using assms(2) by auto
  then have "{j \<in> keys t. p \<le> j} \<subset> {j \<in> keys t. k \<le> j}" by blast
  then show ?thesis using Some by (simp add: steps_up_def psubset_card_mono)
qed

lemma steps_down_le: "steps_down A c \<le> card A"
  by (auto simp: steps_down_def intro!: card_mono split: option.split)

lemma steps_up_le: "steps_up A c \<le> card A"
  by (auto simp: steps_up_def intro!: card_mono split: option.split)

text \<open>A cursor of a walk: off the tree, or on an element of it.\<close>

definition on_tree :: "u64 set \<Rightarrow> u64 option \<Rightarrow> bool" where
  "on_tree A c \<longleftrightarrow> (case c of None \<Rightarrow> True | Some k \<Rightarrow> k \<in> A)"

lemma on_tree_simps [simp]: "on_tree A None" "on_tree A (Some k) \<longleftrightarrow> k \<in> A"
  by (simp_all add: on_tree_def)

lemma on_tree_moves:
  assumes "index_laws L keys"
  shows "on_tree (keys t) (ix_max L t)" and "on_tree (keys t) (ix_min L t)"
    and "k \<in> keys t \<Longrightarrow> on_tree (keys t) (ix_prev L t k)"
    and "k \<in> keys t \<Longrightarrow> on_tree (keys t) (ix_next L t k)"
    and "on_tree (keys t) (ix_find L t k)"
  using index_lawsD [OF assms]
  by (auto simp: on_tree_def largest_Some smallest_Some split: option.split)

section \<open>A library that satisfies the laws\<close>

definition list_max :: "u64 list \<Rightarrow> u64 option" where
  "list_max xs = (if xs = [] then None else Some (fold max xs 0))"

definition list_min :: "u64 list \<Rightarrow> u64 option" where
  "list_min xs = (if xs = [] then None else Some (fold min xs (- 1)))"

text \<open>
  Instance trees as lists of numbers; span trees as lists of ranges, where adding a range
  merges it with the group of ranges it overlaps unless one of them encloses it already.
\<close>

definition list_lib :: "(u64 list, span list) tree_lib" where
  "list_lib = \<lparr>
     ix_empty = [],
     ix_find = (\<lambda>t k. if k \<in> set t then Some k else None),
     ix_insert = (\<lambda>t k. if k \<in> set t then (t, Some k) else (k # t, None)),
     ix_delete = (\<lambda>t k. removeAll k t),
     ix_max = list_max,
     ix_min = list_min,
     ix_prev = (\<lambda>t k. list_max (filter (\<lambda>j. j < k) t)),
     ix_next = (\<lambda>t k. list_min (filter (\<lambda>j. k < j) t)),
     sp_empty = [],
     sp_insert = (\<lambda>rt s. s # rt),
     sp_delete = (\<lambda>rt s. removeAll s rt),
     sp_holds = (\<lambda>rt s. s \<in> set rt),
     sp_overlaps = (\<lambda>rt s. \<exists>r \<in> set rt. overlaps r s),
     sp_group_add = (\<lambda>mrg rt s.
       if \<exists>r \<in> set rt. encloses r s then (False, rt, s)
       else case mrg rt s (filter (\<lambda>r. overlaps r s) rt) of (rt', s', _) \<Rightarrow> (True, rt', s')),
     loop_fuel = 64\<rparr>"

lemma fold_max_Max: "fold max xs a = Max (insert a (set xs))" for a :: u64
  using Max.set_eq_fold [of a xs] by simp

lemma fold_min_Min: "fold min xs a = Min (insert a (set xs))" for a :: u64
  using Min.set_eq_fold [of a xs] by simp

lemma list_max_largest: "list_max xs = largest (set xs)"
proof (cases "xs = []")
  case False
  then have "Max (insert 0 (set xs)) = Max (set xs)"
    by (intro Max_eqI) (auto intro: Max_ge)
  with False show ?thesis by (simp add: list_max_def largest_def fold_max_Max)
qed (simp add: list_max_def largest_def)

lemma list_min_smallest: "list_min xs = smallest (set xs)"
proof (cases "xs = []")
  case False
  have "Min (set xs) \<le> - 1" by (rule word_n1_ge)
  with False have "Min (insert (- 1) (set xs)) = Min (set xs)"
    by (intro Min_eqI) (auto intro: Min_le)
  with False show ?thesis by (simp add: list_min_def smallest_def fold_min_Min)
qed (simp add: list_min_def smallest_def)

lemma list_lib_laws: "index_laws list_lib set"
  by (simp add: index_laws_def list_lib_def list_max_largest list_min_smallest insert_absorb)

end
