(* ===== verification/Epx_Walks.thy ===== *)
theory Epx_Walks
  imports Epx_Index_Laws
begin

text \<open>
  The walks of \<^verbatim>\<open>src/index.c\<close> over the instance trees: they end, they never touch a command
  but the caller's, they fault only on the inputs named here, and what they collect is what
  the tree holds.
\<close>

section \<open>Merging ranges\<close>

lemma merge_loop_merges:
  "merge_loop L rt m sll = (rt', m', kept) \<Longrightarrow>
   \<exists>J. merges m sll J \<and> m' = hull m (nths sll J) \<and> kept = nths sll (- J) \<and>
     rt' = fold (\<lambda>c r. sp_delete L r c) (nths sll J) rt"
proof (induction sll arbitrary: rt m rt' m' kept)
  case Nil
  then show ?case by (intro exI [of _ "{}"]) simp
next
  case (Cons c sll)
  show ?case
  proof (cases "overlaps m c")
    case True
    with Cons.prems have "merge_loop L (sp_delete L rt c) (widen m c) sll = (rt', m', kept)"
      by (simp del: overlaps_iff)
    from Cons.IH [OF this] obtain J where J: "merges (widen m c) sll J" "m' = hull (widen m c) (nths sll J)"
        "kept = nths sll (- J)" "rt' = fold (\<lambda>c r. sp_delete L r c) (nths sll J) (sp_delete L rt c)"
      by blast
    show ?thesis
      by (intro exI [of _ "insert 0 (Suc ` J)"] conjI merges_take [OF True J(1)])
        (simp_all only: nths_Suc nths_Suc_compl hull_Cons J fold_Cons comp_def)
  next
    case False
    with Cons.prems obtain kept' where rec: "merge_loop L rt m sll = (rt', m', kept')" and k: "kept = c # kept'"
      by (auto simp del: overlaps_iff split: prod.splits)
    from Cons.IH [OF rec] obtain J where J: "merges m sll J" "m' = hull m (nths sll J)"
        "kept' = nths sll (- J)" "rt' = fold (\<lambda>c r. sp_delete L r c) (nths sll J) rt"
      by blast
    show ?thesis
      by (intro exI [of _ "Suc ` J"] conjI merges_skip [OF False J(1)])
        (simp_all only: nths_Suc nths_Suc_compl J k)
  qed
qed

text \<open>
  C29. The \<^verbatim>\<open>merge\<close> callback goes through the group once and takes in a range exactly when it overlaps
  the hull of the given range and those taken in before; exactly these are deleted from the tree. The
  merged range is the hull of the given one and all that were taken in, and stands at the head of
  the group in front of the others, none of which overlaps the given range. So when the group is the
  set of ranges that overlap it, which is what the library documents, all are taken in.
\<close>

theorem merge_spans_hull:
  assumes "merge_spans L rt m sll = (rt', m', grp)"
  shows "\<exists>J. merges m sll J \<and> m' = hull m (nths sll J) \<and> grp = m' # nths sll (- J) \<and>
      rt' = fold (\<lambda>c r. sp_delete L r c) (nths sll J) rt \<and>
      (\<forall>c \<in> set (nths sll (- J)). \<not> overlaps m c) \<and>
      ((\<forall>c \<in> set sll. overlaps m c) \<longrightarrow> grp = [m'])"
proof -
  from assms obtain kept where rec: "merge_loop L rt m sll = (rt', m', kept)"
    and grp: "grp = m' # kept"
    by (auto simp: merge_spans_def split: prod.splits)
  from merge_loop_merges [OF rec] obtain J where J: "merges m sll J" "m' = hull m (nths sll J)"
      "kept = nths sll (- J)" "rt' = fold (\<lambda>c r. sp_delete L r c) (nths sll J) rt"
    by blast
  have "\<forall>c \<in> set (nths sll (- J)). \<not> overlaps m c" using merges_left_out [OF J(1)] by blast
  moreover have "(\<forall>c \<in> set sll. overlaps m c) \<longrightarrow> nths sll (- J) = []" using merges_all [OF J(1)] by blast
  ultimately show ?thesis using J grp by (intro exI [of _ J]) simp
qed

section \<open>The walks end\<close>

lemma no_bound_load_cmd [no_bound_intros, simp]: "no_bound (load_cmd cmds p)"
  by (auto simp: load_cmd_def intro!: no_bound_intros)

lemma no_bound_in_scope [no_bound_intros, simp]: "no_bound (in_scope rt)"
  by (cases rt) (auto simp: in_scope_def)

lemma no_bound_read_dependency [no_bound_intros, simp]: "no_bound (read_dependency L rt cmd)"
proof -
  have "no_bound (read_dependency_loop L rt ss is)" for ss "is"
    by (induction L rt ss "is" rule: read_dependency_loop.induct) (auto intro!: no_bound_intros)
  then show ?thesis by (simp add: read_dependency_def)
qed

lemma no_bound_cover_step [no_bound_intros, simp]: "no_bound (cover_step L cp j st)"
  by (cases st) (auto simp: cover_step_def intro!: no_bound_intros split: prod.split)

lemma no_bound_span_loop [no_bound_intros, simp]: "no_bound (span_loop L cp is cspan st)"
proof (induction "is" arbitrary: cspan st)
  case Nil
  then show ?case by (cases st) simp
next
  case (Cons i js)
  show ?case
    by (cases st) (auto simp: Let_def intro!: no_bound_intros Cons.IH split: prod.split)
qed

lemma no_bound_interferes [no_bound_intros, simp]: "no_bound (interferes c1 c2 cs)"
  by (auto simp: interferes_def overlap_sparse_def overlap_step_def
      intro!: no_bound_intros split: prod.split)

lemma no_bound_interferes_at [no_bound_intros, simp]: "no_bound (interferes_at cmds p1 p2)"
  by (auto simp: interferes_at_def intro!: no_bound_intros)

lemma no_bound_destroy [no_bound_intros, simp]: "no_bound (destroy_instance k st)"
  by (cases st) (auto simp: destroy_instance_def intro!: no_bound_intros split: option.split)

lemma seq_deps_loop_no_bound:
  assumes laws: "index_laws L keys"
  shows "on_tree (keys ix) c \<Longrightarrow> steps_down (keys ix) c \<le> fuel \<Longrightarrow>
    no_bound (seq_deps_loop L ix insts rid cp ignore fuel c st)"
proof (induction fuel arbitrary: c st)
  case 0
  then show ?case by (cases c; cases st) (auto simp: steps_down_def)
next
  case (Suc fuel)
  show ?case
  proof (cases c)
    case None
    then show ?thesis by (cases st) simp
  next
    case (Some k)
    with Suc.prems have k: "k \<in> keys ix" by simp
    have "no_bound (seq_deps_loop L ix insts rid cp ignore fuel (ix_prev L ix k) st')" for st'
      using Suc.prems(2) Some steps_down_prev [OF laws k] on_tree_moves(3) [OF laws k]
      by (intro Suc.IH) auto
    then show ?thesis
      unfolding Some by (cases st) (auto simp: Let_def intro!: no_bound_intros split: prod.split)
  qed
qed

lemma conflict_loop_no_bound:
  assumes laws: "index_laws L keys"
  shows "on_tree (keys ix) c \<Longrightarrow> steps_down (keys ix) c \<le> fuel \<Longrightarrow>
    no_bound (conflict_loop L ix insts rid i cp seq deps fuel c st)"
proof (induction fuel arbitrary: c st)
  case 0
  then show ?case by (cases c; cases st) (auto simp: steps_down_def)
next
  case (Suc fuel)
  show ?case
  proof (cases c)
    case None
    then show ?thesis by (cases st) simp
  next
    case (Some k)
    with Suc.prems have k: "k \<in> keys ix" by simp
    have "no_bound (conflict_loop L ix insts rid i cp seq deps fuel (ix_prev L ix k) st')" for st'
      using Suc.prems(2) Some steps_down_prev [OF laws k] on_tree_moves(3) [OF laws k]
      by (intro Suc.IH) auto
    then show ?thesis
      unfolding Some by (cases st) (auto simp: Let_def intro!: no_bound_intros split: prod.split)
  qed
qed

lemma steps_up_delete: "steps_up (A - {e}) c \<le> steps_up A c"
  by (auto simp: steps_up_def intro!: card_mono split: option.split)

lemma clear_loop_no_bound:
  assumes laws: "index_laws L keys"
  shows "on_tree (keys ix) c \<Longrightarrow> steps_up (keys ix) c \<le> fuel \<Longrightarrow>
    (\<forall>e k. executed = Some e \<longrightarrow> c = Some k \<longrightarrow> e < k) \<Longrightarrow>
    no_bound (clear_loop L rid fuel c executed (ix, insts, cmds))"
proof (induction fuel arbitrary: c executed ix insts cmds)
  case 0
  then show ?case by (cases c) (auto simp: steps_up_def)
next
  case (Suc fuel)
  show ?case
  proof (cases c)
    case None
    then show ?thesis by simp
  next
    case (Some k)
    with Suc.prems have k: "k \<in> keys ix" by simp
    let ?n = "ix_next L ix k"
    have n: "on_tree (keys ix) ?n" "steps_up (keys ix) ?n \<le> fuel"
      using Suc.prems(2) Some steps_up_next [OF laws k] on_tree_moves(4) [OF laws k] by auto
    have above: "\<And>j. ?n = Some j \<Longrightarrow> k < j"
      using ix_next_keys [OF laws k] by (auto simp: smallest_Some)
    have same: "no_bound (clear_loop L rid fuel ?n (Some k) (ix, insts, cmds))"
      using n above by (intro Suc.IH) auto
    have skip: "no_bound (clear_loop L rid fuel ?n executed (ix, insts, cmds))"
      using n above Suc.prems(3) Some by (intro Suc.IH) (auto dest: less_trans)
    have del: "no_bound (clear_loop L rid fuel ?n (Some k) (ix_delete L ix e, insts', cmds'))"
      if "executed = Some e" for e insts' cmds'
    proof (rule Suc.IH)
      have "e < k" using that Suc.prems(3) Some by simp
      then have "\<forall>j. ?n = Some j \<longrightarrow> j \<noteq> e" using above by fastforce
      then show "on_tree (keys (ix_delete L ix e)) ?n"
        using n(1) ix_delete_keys [OF laws] by (cases ?n) auto
      show "steps_up (keys (ix_delete L ix e)) ?n \<le> fuel"
        using n(2) steps_up_delete [of "keys ix" e ?n] by (simp add: ix_delete_keys [OF laws])
      show "\<forall>e' j. Some k = Some e' \<longrightarrow> ?n = Some j \<longrightarrow> e' < j" using above by simp
    qed
    show ?thesis
      unfolding Some clear_loop.simps Let_def
      using same skip del
      by (auto intro!: no_bound_intros split: option.split prod.split)
  qed
qed

lemma walks_no_bound:
  assumes "index_laws L keys" and "card (keys ix) \<le> loop_fuel L"
  shows "no_bound (seq_deps_for_command L ix insts rid cp ignore (cmds, p))"
    and "no_bound (pre_accept_conflict L ix insts rid i cp seq deps cmds)"
    and "no_bound (clear_index L rid (ix, insts, cmds))"
proof -
  note moves = on_tree_moves [OF assms(1)]
  show "no_bound (seq_deps_for_command L ix insts rid cp ignore (cmds, p))"
    unfolding seq_deps_for_command_def prod.case
    using steps_down_le order_trans [OF _ assms(2)]
    by (intro seq_deps_loop_no_bound [OF assms(1)] moves) blast
  show "no_bound (pre_accept_conflict L ix insts rid i cp seq deps cmds)"
    unfolding pre_accept_conflict_def
    using steps_down_le order_trans [OF _ assms(2)]
    by (intro conflict_loop_no_bound [OF assms(1)] moves) blast
  show "no_bound (clear_index L rid (ix, insts, cmds))"
    unfolding clear_index_def prod.case
    using steps_up_le order_trans [OF _ assms(2)]
    by (intro clear_loop_no_bound [OF assms(1)] moves) (blast, simp)
qed

text \<open>
  The loops over an instance tree all end: with a tree that obeys the library's laws and
  fuel for its elements, the computation of sequence numbers and dependencies, the search for
  a conflict and the clearing of the tree never run out of it.
\<close>

theorem index_walks_end:
  assumes "index_laws L keys" and "card (keys ix) \<le> loop_fuel L"
  shows "no_bound (seq_deps_for_command L ix insts rid cp ignore (cmds, p)) \<and>
    no_bound (pre_accept_conflict L ix insts rid i cp seq deps cmds) \<and>
    no_bound (clear_index L rid (ix, insts, cmds))"
  by (intro conjI walks_no_bound [OF assms])

section \<open>What the walks may change\<close>

text \<open>
  A walk changes no command but the caller's, and of that only the bounds of its ranges. The
  library sees the ranges through pointers, so more cannot be said without laws for it.
\<close>

definition respans :: "cmd_ptr \<Rightarrow> cmds \<Rightarrow> cmds \<Rightarrow> bool" where
  "respans cp cmds cmds' \<longleftrightarrow>
     (\<forall>a. cp \<noteq> Some a \<longrightarrow> cmds' a = cmds a) \<and>
     (\<forall>a. cmds a = None \<longleftrightarrow> cmds' a = None) \<and>
     (\<forall>a c. cmds a = Some c \<longrightarrow>
        (\<exists>ss. length ss = length (spans c) \<and> cmds' a = Some (c\<lparr>spans := ss\<rparr>)))"

lemma respans_refl [simp]: "respans cp cmds cmds"
proof -
  have "\<exists>ss. length ss = length (spans c) \<and> c = c\<lparr>spans := ss\<rparr>" for c :: command
    by (rule exI [of _ "spans c"]) simp
  then show ?thesis by (auto simp: respans_def)
qed

lemma respans_trans: "respans cp a b \<Longrightarrow> respans cp b c \<Longrightarrow> respans cp a c"
  unfolding respans_def by (intro conjI allI impI) (simp, metis, fastforce)

lemma respans_load:
  "respans cp cmds cmds' \<Longrightarrow> load_cmd cmds p = Inr c \<Longrightarrow>
   \<exists>ss. length ss = length (spans c) \<and> load_cmd cmds' p = Inr (c\<lparr>spans := ss\<rparr>)"
  by (auto simp: respans_def load_cmd_eq_Inr)

lemma cover_step_respans:
  "cover_step L cp j (rt, cmds, cov) = Inr (rt', cmds', cov') \<Longrightarrow> respans cp cmds cmds'"
proof -
  assume "cover_step L cp j (rt, cmds, cov) = Inr (rt', cmds', cov')"
  then obtain a c s where "cp = Some a" "cmds a = Some c"
    and eq: "(case sp_group_add L (merge_spans L) rt s of (added, rt', s') \<Rightarrow>
      (Inr (rt', cmds(a \<mapsto> c\<lparr>spans := (spans c)[j := s']\<rparr>), cov \<and> \<not> added)
        :: ('a \<times> cmds \<times> bool) res)) = Inr (rt', cmds', cov')"
    by (auto simp: cover_step_def and_then_eq_Inr load_cmd_eq_Inr)
  moreover from eq obtain s' where "cmds' = cmds(a \<mapsto> c\<lparr>spans := (spans c)[j := s']\<rparr>)"
    by (auto split: prod.splits)
  moreover have "\<exists>ss. length ss = length (spans d) \<and> d = d\<lparr>spans := ss\<rparr>" for d :: command
    by (rule exI [of _ "spans d"]) simp
  ultimately show ?thesis by (auto simp: respans_def intro: length_list_update)
qed

lemma cover_loop_respans:
  assumes "for_each js (cover_step L cp) (rt, cmds, cov) = Inr (rt', cmds', cov')"
  shows "respans cp cmds cmds'"
proof -
  have "respans cp cmds (fst (snd (rt', cmds', cov')))"
    using assms
  proof (rule for_each_invariant [where P = "\<lambda>st. respans cp cmds (fst (snd st))"])
    fix j s s'
    assume "respans cp cmds (fst (snd s))" and "cover_step L cp j s = Inr s'"
    then show "respans cp cmds (fst (snd s'))"
      by (cases s; cases s') (auto dest: cover_step_respans intro: respans_trans)
  qed simp
  then show ?thesis by simp
qed

lemma span_loop_respans:
  "span_loop L cp is cspan (rt, cmds, add) = Inr (rt', cmds', add', cov') \<Longrightarrow> respans cp cmds cmds'"
proof (induction "is" arbitrary: cspan rt cmds add)
  case Nil
  then show ?case by simp
next
  case (Cons i js)
  from Cons.prems obtain s where s: "aget cspan i = Inr s" by (auto simp: and_then_eq_Inr)
  show ?case
  proof (cases "empty_range s")
    case True
    with Cons.prems s show ?thesis by simp
  next
    case False
    with Cons.prems s obtain g where rt: "rt = (g, False)" by (cases rt) (auto simp: and_then_eq_Inr)
    obtain added g1 s' where g: "sp_group_add L (merge_spans L) g s = (added, g1, s')"
      by (cases "sp_group_add L (merge_spans L) g s")
    show ?thesis
    proof (cases added)
      case True
      from Cons.prems s False rt g True obtain c :: command and g2 cmds2 cov where c:
          "for_each [0..<unat (tx_size c)] (cover_step L cp) (sp_insert L g1 s', cmds, True) = Inr (g2, cmds2, cov)"
        and rest: "(if cov then Inr ((g2, sp_holds L g2 s'), cmds2, True, True)
          else span_loop L cp js (cspan[i := s']) ((g2, sp_holds L g2 s'), cmds2, True)) = Inr (rt', cmds', add', cov')"
        by (simp add: and_then_eq_Inr Let_def) (elim exE conjE)
      from rest have "respans cp cmds2 cmds'"
        by (cases cov) (auto dest: Cons.IH)
      with cover_loop_respans [OF c] show ?thesis by (rule respans_trans)
    next
      case added: False
      with Cons.prems s False rt g show ?thesis by (auto dest: Cons.IH)
    qed
  qed
qed

section \<open>What a walk collects\<close>

text \<open>An instance a walk counts: in the tree, not the one to ignore, not executed.\<close>

definition walked :: "u64 set \<Rightarrow> insts \<Rightarrow> u64 \<Rightarrow> instance_id option \<Rightarrow> inst \<Rightarrow> bool" where
  "walked A insts rid ignore ti \<longleftrightarrow>
     (\<exists>k \<in> A. insts (iid rid k) = Some ti) \<and> ignore \<noteq> Some (i_key ti) \<and>
     \<not> is_state (i_status ti) EXECUTED"

lemma seq_deps_loop_invariant:
  assumes laws: "index_laws L keys"
    and step: "\<And>ti mseq p. walked (keys ix) insts rid ignore ti \<Longrightarrow> P mseq p \<Longrightarrow>
      P (max mseq (i_seq ti)) p \<and> P (max mseq (i_seq ti)) (probe_add ti p)"
  shows "seq_deps_loop L ix insts rid cp ignore fuel c (mseq, rt, cmds, p) = Inr (mseq', cmds', p') \<Longrightarrow>
    on_tree (keys ix) c \<Longrightarrow> P mseq p \<Longrightarrow> P mseq' p' \<and> respans cp cmds cmds'"
proof (induction fuel arbitrary: c mseq rt cmds p)
  case 0
  then show ?case by (cases c) auto
next
  case (Suc fuel)
  show ?case
  proof (cases c)
    case None
    with Suc.prems show ?thesis by simp
  next
    case (Some k)
    with Suc.prems have k: "k \<in> keys ix" by simp
    note IH = Suc.IH [OF _ on_tree_moves(3) [OF laws k]]
    from Suc.prems(1) Some obtain ti where ti: "insts (iid rid k) = Some ti"
      by (auto simp: and_then_eq_Inr)
    show ?thesis
    proof (cases "ignore = Some (i_key ti) \<or> is_state (i_status ti) EXECUTED")
      case True
      with Suc.prems Some ti IH show ?thesis by (auto simp: load_Some Let_def split: if_splits)
    next
      case False
      with k ti have "walked (keys ix) insts rid ignore ti" by (auto simp: walked_def)
      note step = step [OF this Suc.prems(3)]
      from Suc.prems(1) Some ti False step Suc.prems(3) show ?thesis
        by (auto simp: load_Some Let_def and_then_eq_Inr split: if_splits prod.splits
            dest!: span_loop_respans IH intro: respans_trans)
    qed
  qed
qed

text \<open>A dependency with its origin: one the probe held before, or an instance of the tree.\<close>

definition from_probe :: "dependency list \<Rightarrow> dependency \<Rightarrow> bool" where
  "from_probe ds e \<longleftrightarrow>
     (\<exists>e' \<in> set (live_deps ds). dep_id e' = dep_id e \<and> committed e' \<le> committed e)"

definition from_walk :: "u64 set \<Rightarrow> insts \<Rightarrow> u64 \<Rightarrow> instance_id option \<Rightarrow> u64 \<Rightarrow> dependency \<Rightarrow> bool" where
  "from_walk A insts rid ignore mseq e \<longleftrightarrow>
     (\<exists>ti. walked A insts rid ignore ti \<and> dep_id e = i_key ti \<and> i_seq ti \<le> mseq)"

definition collected :: "u64 set \<Rightarrow> insts \<Rightarrow> u64 \<Rightarrow> instance_id option \<Rightarrow> dependency list \<Rightarrow>
    u64 \<Rightarrow> dependency list \<Rightarrow> bool" where
  "collected A insts rid ignore ds mseq ds' \<longleftrightarrow>
     wf_deps ds' \<and> (\<forall>e \<in> set (live_deps ds'). from_probe ds e \<or> from_walk A insts rid ignore mseq e)"

lemma collected_refl: "wf_deps ds \<Longrightarrow> collected A insts rid ignore ds mseq ds"
  by (auto simp: collected_def from_probe_def)

lemma from_probe_trans: "from_probe ds e' \<Longrightarrow> dep_id e' = dep_id e \<Longrightarrow> committed e' \<le> committed e \<Longrightarrow> from_probe ds e"
  by (auto simp: from_probe_def dest: order_trans)

lemma collected_max: "collected A insts rid ignore ds mseq ds' \<Longrightarrow>
    collected A insts rid ignore ds (max mseq n) ds'"
  by (fastforce simp: collected_def from_walk_def le_max_iff_disj)

lemma collected_add:
  assumes c: "collected A insts rid ignore ds mseq (p_deps p)" and w: "walked A insts rid ignore ti"
  shows "collected A insts rid ignore ds (max mseq (i_seq ti)) (p_deps (probe_add ti p))"
proof -
  let ?d = "\<lparr>dep_id = i_key ti, committed = (if is_committed ti then 1 else 0)\<rparr> :: dependency"
  let ?m = "max mseq (i_seq ti)"
  have wf: "wf_deps (p_deps p)" using c by (simp add: collected_def)
  have upd: "p_deps (probe_add ti p) = fst (update_deps (p_deps p) ?d)"
    by (simp add: probe_add_def add_dep_def)
  have "from_probe ds e \<or> from_walk A insts rid ignore ?m e"
    if "e \<in> set (dep_update_spec ?d (live_deps (p_deps p)))" for e
    using dep_update_spec_keeps [OF that]
  proof
    assume "e = ?d"
    with w have "from_walk A insts rid ignore ?m e"
      by (auto simp: from_walk_def intro!: exI [of _ ti])
    then show ?thesis ..
  next
    assume "\<exists>e' \<in> set (live_deps (p_deps p)). dep_id e' = dep_id e \<and> committed e' \<le> committed e"
    then obtain e' where e': "e' \<in> set (live_deps (p_deps p))" "dep_id e' = dep_id e"
      "committed e' \<le> committed e" by blast
    from collected_max [OF c] e'(1) have "from_probe ds e' \<or> from_walk A insts rid ignore ?m e'"
      by (auto simp: collected_def)
    with e' show ?thesis by (auto simp: from_walk_def intro: from_probe_trans)
  qed
  then show ?thesis
    unfolding collected_def upd using deps.inv_upd [OF wf] deps.abs_upd [OF wf] by auto
qed

lemma seq_deps_for_command_collects:
  assumes "index_laws L keys"
    and "seq_deps_for_command L ix insts rid cp ignore (cmds, p) = Inr (mseq, cmds', p')"
    and "wf_deps (p_deps p)"
  shows "collected (keys ix) insts rid ignore (p_deps p) mseq (p_deps p') \<and> respans cp cmds cmds'"
proof (rule seq_deps_loop_invariant [OF assms(1),
      where P = "\<lambda>mseq q. collected (keys ix) insts rid ignore (p_deps p) mseq (p_deps q)"])
  show "seq_deps_loop L ix insts rid cp ignore (loop_fuel L) (ix_max L ix)
      (0, (sp_empty L, False), cmds, p) = Inr (mseq, cmds', p')"
    using assms(2) by (simp add: seq_deps_for_command_def)
  show "on_tree (keys ix) (ix_max L ix)" by (rule on_tree_moves(1) [OF assms(1)])
  show "collected (keys ix) insts rid ignore (p_deps p) 0 (p_deps p)"
    by (rule collected_refl [OF assms(3)])
qed (blast intro: collected_add collected_max)

section \<open>When a walk cannot fault\<close>

definition loaded_wf :: "cmds \<Rightarrow> cmd_ptr \<Rightarrow> nat \<Rightarrow> bool" where
  "loaded_wf cmds p n \<longleftrightarrow> (\<exists>c. load_cmd cmds p = Inr c \<and> wf_command c \<and> unat (tx_size c) = n)"

lemma respans_loaded_wf: "respans cp cmds cmds' \<Longrightarrow> loaded_wf cmds p n \<Longrightarrow> loaded_wf cmds' p n"
  by (auto simp: loaded_wf_def wf_command_def dest!: respans_load)

lemma length_overlap_list:
  "length (overlap_list c1 c2) \<le> length (active_spans c1) * length (active_spans c2)"
proof -
  have "length (concat (map (\<lambda>s1. overlap_row s1 ss2) ss1)) \<le> length ss1 * length ss2" for ss1 ss2
    by (induction ss1) (auto simp: overlap_row_def intro!: add_mono simp del: overlaps_iff)
  then show ?thesis by (simp add: overlap_list_def)
qed

lemma length_active_spans: "wf_command c \<Longrightarrow> length (active_spans c) = unat (tx_size c)"
  by (simp add: wf_command_def active_spans_def)

lemma interferes_at_ok:
  assumes "loaded_wf cmds p1 n1" and "loaded_wf cmds p2 n2" and "n1 * n2 \<le> TX_SIZE"
  shows "\<exists>hit cspan. interferes_at cmds p1 p2 = Inr (hit, cspan) \<and> length cspan = TX_SIZE"
proof -
  from assms(1,2) obtain c1 c2 where c: "load_cmd cmds p1 = Inr c1" "wf_command c1" "unat (tx_size c1) = n1"
      "load_cmd cmds p2 = Inr c2" "wf_command c2" "unat (tx_size c2) = n2"
    by (auto simp: loaded_wf_def)
  have "length (overlap_list c1 c2) \<le> TX_SIZE"
    using length_overlap_list [of c1 c2] c assms(3) by (simp add: length_active_spans)
  with c show ?thesis
    by (auto simp: interferes_at_def interferes_def overlap_sparse_spec wf_command_def)
qed

lemma cover_step_ok:
  assumes "loaded_wf cmds cp n" and "j < n"
  shows "\<exists>rt' cmds' cov'. cover_step L cp j (rt, cmds, cov) = Inr (rt', cmds', cov') \<and>
    loaded_wf cmds' cp n"
proof -
  from assms obtain c where c: "load_cmd cmds cp = Inr c" "j < length (spans c)"
    by (auto simp: loaded_wf_def wf_command_def)
  then obtain rt' cmds' cov' where step: "cover_step L cp j (rt, cmds, cov) = Inr (rt', cmds', cov')"
    by (cases "sp_group_add L (merge_spans L) rt (spans c ! j)") (auto simp: cover_step_def)
  from step respans_loaded_wf [OF cover_step_respans [OF step] assms(1)] show ?thesis by blast
qed

lemma span_loop_ok:
  fixes L :: "('t, 'g) tree_lib"
  assumes "loaded_wf cmds cp n" and "\<forall>i \<in> set is. i < length cspan"
  shows "(\<exists>rt' cmds' add' cov'. span_loop L cp is cspan (rt, cmds, add) = Inr (rt', cmds', add', cov')) \<or>
    span_loop L cp is cspan (rt, cmds, add) = Inl Use_after_scope"
  using assms
proof (induction "is" arbitrary: cspan rt cmds add)
  case Nil
  then show ?case by auto
next
  case (Cons i js)
  show ?case
  proof (cases "empty_range (cspan ! i) \<or> snd rt")
    case True
    then show ?thesis using Cons.prems(2) by (cases rt) auto
  next
    case False
    then obtain g where rt: "rt = (g, False)" by (cases rt) auto
    obtain added g1 s' where g: "sp_group_add L (merge_spans L) g (cspan ! i) = (added, g1, s')"
      by (cases "sp_group_add L (merge_spans L) g (cspan ! i)")
    from Cons.prems(1) obtain c where c: "load_cmd cmds cp = Inr c" "unat (tx_size c) = n"
      by (auto simp: loaded_wf_def)
    have "\<exists>st. for_each [0..<n] (cover_step L cp) (sp_insert L g1 s', cmds, True) = Inr st \<and>
        loaded_wf (fst (snd st)) cp n"
    proof (rule for_each_ok [where P = "\<lambda>st :: 'g \<times> cmds \<times> bool. loaded_wf (fst (snd st)) cp n"])
      fix j and st :: "'g \<times> cmds \<times> bool"
      assume "j \<in> set [0..<n]" and "loaded_wf (fst (snd st)) cp n"
      then show "\<exists>st'. cover_step L cp j st = Inr st' \<and> loaded_wf (fst (snd st')) cp n"
        using cover_step_ok [of "fst (snd st)" cp n j L "fst st" "snd (snd st)"] by fastforce
    qed (use Cons.prems(1) in simp)
    then obtain g2 cmds2 cov where cover:
      "for_each [0..<n] (cover_step L cp) (sp_insert L g1 s', cmds, True) = Inr (g2, cmds2, cov)"
      "loaded_wf cmds2 cp n" by (metis fst_conv snd_conv prod.exhaust)
    have step: "span_loop L cp (i # js) cspan (rt, cmds, add) =
        (if added then if cov then Inr ((g2, sp_holds L g2 s'), cmds2, True, True)
           else span_loop L cp js (cspan[i := s']) ((g2, sp_holds L g2 s'), cmds2, True)
         else span_loop L cp js (cspan[i := s']) ((g1, False), cmds, add))"
      using Cons.prems(2) False rt g c cover(1) by simp
    have "\<forall>i \<in> set js. i < length (cspan[i := s'])" using Cons.prems(2) by simp
    then show ?thesis unfolding step using Cons.IH [OF cover(2)] Cons.IH [OF Cons.prems(1)] by auto
  qed
qed

lemma read_dependency_ok:
  assumes "wf_command c"
  shows "(\<exists>b. read_dependency L rt c = Inr b) \<or> snd rt \<and> read_dependency L rt c = Inl Use_after_scope"
proof -
  obtain g e where rt: "rt = (g, e)" by force
  have "\<forall>i \<in> set is. i < length ss \<Longrightarrow> (\<exists>b. read_dependency_loop L (g, e) ss is = Inr b) \<or>
      e \<and> read_dependency_loop L (g, e) ss is = Inl Use_after_scope" for ss "is"
    by (induction "is"; cases e) auto
  then show ?thesis using assms rt by (simp add: read_dependency_def wf_command_def)
qed

definition walk_safe :: "u64 set \<Rightarrow> insts \<Rightarrow> u64 \<Rightarrow> cmd_ptr \<Rightarrow> instance_id option \<Rightarrow> cmds \<Rightarrow> bool" where
  "walk_safe A insts rid cp ignore cmds \<longleftrightarrow>
     (\<forall>k \<in> A. insts (iid rid k) \<noteq> None) \<and>
     (\<exists>n. loaded_wf cmds cp n \<and>
        (\<forall>ti. walked A insts rid ignore ti \<longrightarrow>
           (\<exists>m. loaded_wf cmds (i_command ti) m \<and> m * n \<le> TX_SIZE)))"

lemma walk_safe_respans:
  assumes "walk_safe A insts rid cp ignore cmds" and "respans cp cmds cmds'"
  shows "walk_safe A insts rid cp ignore cmds'"
  using assms(1) respans_loaded_wf [OF assms(2)] unfolding walk_safe_def by blast

text \<open>Some instance that the walk counts has a command that writes.\<close>

definition some_writer :: "u64 set \<Rightarrow> insts \<Rightarrow> u64 \<Rightarrow> instance_id option \<Rightarrow> cmds \<Rightarrow> bool" where
  "some_writer A insts rid ignore cmds \<longleftrightarrow>
     (\<exists>ti tc. walked A insts rid ignore ti \<and> load_cmd cmds (i_command ti) = Inr tc \<and> writing tc = WRITE)"

lemma some_writer_respans:
  assumes "respans cp cmds cmds'"
  shows "some_writer A insts rid ignore cmds' \<longleftrightarrow> some_writer A insts rid ignore cmds"
proof -
  have "(\<exists>tc. load_cmd cmds' p = Inr tc \<and> writing tc = WRITE) \<longleftrightarrow> (\<exists>tc. load_cmd cmds p = Inr tc \<and> writing tc = WRITE)" for p
  proof (cases p)
    case None
    then show ?thesis by simp
  next
    case (Some a)
    show ?thesis
    proof (cases "cmds a")
      case None
      then have "cmds' a = None" using assms by (auto simp: respans_def)
      with None Some show ?thesis by (simp add: load_cmd_eq_Inr)
    next
      case (Some c)
      then obtain ss where "cmds' a = Some (c\<lparr>spans := ss\<rparr>)" using assms unfolding respans_def by blast
      with Some \<open>p = Some a\<close> show ?thesis by (simp add: load_cmd_eq_Inr)
    qed
  qed
  then show ?thesis by (simp add: some_writer_def)
qed

definition scoped :: "bool \<Rightarrow> 'a res \<Rightarrow> bool" where
  "scoped w m \<longleftrightarrow> (\<exists>x. m = Inr x) \<or> w \<and> m = Inl Use_after_scope"

lemma seq_deps_loop_ok:
  assumes laws: "index_laws L keys"
  shows "on_tree (keys ix) c \<Longrightarrow> steps_down (keys ix) c \<le> fuel \<Longrightarrow>
    walk_safe (keys ix) insts rid cp ignore cmds \<Longrightarrow> snd rt \<longrightarrow> some_writer (keys ix) insts rid ignore cmds \<Longrightarrow>
    scoped (some_writer (keys ix) insts rid ignore cmds)
      (seq_deps_loop L ix insts rid cp ignore fuel c (mseq, rt, cmds, p))"
proof (induction fuel arbitrary: c mseq rt cmds p)
  case 0
  then show ?case by (cases c) (auto simp: steps_down_def scoped_def)
next
  case (Suc fuel)
  let ?W = "some_writer (keys ix) insts rid ignore cmds"
  show ?case
  proof (cases c)
    case None
    then show ?thesis by (simp add: scoped_def)
  next
    case (Some k)
    with Suc.prems have k: "k \<in> keys ix" by simp
    then obtain ti where ti: "insts (iid rid k) = Some ti"
      using Suc.prems(3) by (auto simp: walk_safe_def)
    have IH: "scoped ?W (seq_deps_loop L ix insts rid cp ignore fuel (ix_prev L ix k) (mseq', rt', cmds', p'))"
      if r: "respans cp cmds cmds'" and w: "snd rt' \<longrightarrow> ?W" for mseq' rt' cmds' p'
    proof -
      have "scoped (some_writer (keys ix) insts rid ignore cmds')
          (seq_deps_loop L ix insts rid cp ignore fuel (ix_prev L ix k) (mseq', rt', cmds', p'))"
        using Suc.prems(2) Some steps_down_prev [OF laws k] on_tree_moves(3) [OF laws k] w
        by (intro Suc.IH walk_safe_respans [OF Suc.prems(3) r]) (auto simp: some_writer_respans [OF r])
      then show ?thesis by (simp add: some_writer_respans [OF r])
    qed
    show ?thesis
    proof (cases "ignore = Some (i_key ti) \<or> is_state (i_status ti) EXECUTED")
      case True
      with Some ti IH [OF respans_refl Suc.prems(4)] show ?thesis by (auto simp: load_Some Let_def scoped_def)
    next
      case False
      with k ti have wk: "walked (keys ix) insts rid ignore ti" by (auto simp: walked_def)
      with Suc.prems(3) obtain n m where n: "loaded_wf cmds cp n" and m: "loaded_wf cmds (i_command ti) m"
        and le: "m * n \<le> TX_SIZE" by (auto simp: walk_safe_def)
      from interferes_at_ok [OF m n le] obtain hit cspan where
        hit: "interferes_at cmds (i_command ti) cp = Inr (hit, cspan)" "length cspan = TX_SIZE" by blast
      from m obtain tc where tc: "load_cmd cmds (i_command ti) = Inr tc" "unat (tx_size tc) \<le> TX_SIZE"
        by (auto simp: loaded_wf_def wf_command_def)
      from n obtain cmd where cmd: "load_cmd cmds cp = Inr cmd" "wf_command cmd"
        by (auto simp: loaded_wf_def)
      let ?C = "seq_deps_loop L ix insts rid cp ignore fuel (ix_prev L ix k)"
      let ?m = "max mseq (i_seq ti)"
      have step: "seq_deps_loop L ix insts rid cp ignore (Suc fuel) c (mseq, rt, cmds, p) =
          (if \<not> hit then ?C (mseq, rt, cmds, p)
           else if writing tc = WRITE then
             and_then (span_loop L cp [0..<unat (tx_size tc)] cspan (rt, cmds, False)) (\<lambda>(rt', cmds', add, covered).
               if covered then Inr (?m, cmds', if add then probe_add ti p else p)
               else ?C (?m, rt', cmds', if add then probe_add ti p else p))
           else and_then (read_dependency L rt cmd) (\<lambda>b. ?C (?m, rt, cmds, if b then probe_add ti p else p)))"
        using Some ti False hit(1) tc(1) cmd(1) by (simp add: load_Some Let_def)
      note go_on = IH [OF respans_refl Suc.prems(4)]
      show ?thesis
      proof (cases "hit \<and> writing tc = WRITE")
        case True
        then have W: ?W using wk tc(1) unfolding some_writer_def by blast
        from span_loop_ok [OF n, of "[0..<unat (tx_size tc)]" cspan L rt False] tc(2) hit(2)
        consider rt' cmds' add cov where
          "span_loop L cp [0..<unat (tx_size tc)] cspan (rt, cmds, False) = Inr (rt', cmds', add, cov)"
          | "span_loop L cp [0..<unat (tx_size tc)] cspan (rt, cmds, False) = Inl Use_after_scope"
          by auto
        then show ?thesis
        proof cases
          case 1
          have "scoped ?W (?C st)" if "st = (a, rt', cmds', q)" for st a q
            using IH [OF span_loop_respans [OF 1]] W that by simp
          then show ?thesis unfolding step using True 1 by (simp add: scoped_def)
        next
          case 2
          then show ?thesis unfolding step using True W by (simp add: scoped_def)
        qed
      next
        case nw: False
        from read_dependency_ok [OF cmd(2), of L rt] show ?thesis
        proof
          assume "\<exists>b. read_dependency L rt cmd = Inr b"
          then obtain b where "read_dependency L rt cmd = Inr b" ..
          then show ?thesis unfolding step using nw go_on by simp
        next
          assume "snd rt \<and> read_dependency L rt cmd = Inl Use_after_scope"
          then show ?thesis unfolding step using nw go_on Suc.prems(4) by (auto simp: scoped_def)
        qed
      qed
    qed
  qed
qed

text \<open>
  C15. What the dependency computation can do wrong: when the tree's instances exist, the
  caller's command and the command of every instance that is counted are allocated with all
  their ranges, and no pair of them has more than \<^verbatim>\<open>TX_SIZE\<close> pairs of ranges, then
  \<^verbatim>\<open>seq_deps_for_command\<close> returns, whatever the span library answers, or it reads the variable
  \<^verbatim>\<open>nsp\<close> after its block has ended; and it returns when no instance that is counted writes.
\<close>

theorem seq_deps_for_command_safe:
  assumes "index_laws L keys" and "card (keys ix) \<le> loop_fuel L"
    and "walk_safe (keys ix) insts rid cp ignore cmds"
  shows "(\<exists>mseq cmds' p'. seq_deps_for_command L ix insts rid cp ignore (cmds, p) = Inr (mseq, cmds', p')) \<or>
    some_writer (keys ix) insts rid ignore cmds \<and>
      seq_deps_for_command L ix insts rid cp ignore (cmds, p) = Inl Use_after_scope"
proof -
  have "steps_down (keys ix) (ix_max L ix) \<le> loop_fuel L"
    using steps_down_le assms(2) by (rule order_trans)
  from seq_deps_loop_ok [OF assms(1) on_tree_moves(1) [OF assms(1)] this assms(3), of "(sp_empty L, False)"]
  show ?thesis by (auto simp: seq_deps_for_command_def scoped_def)
qed

text \<open>
  An instance without a command (a no-op, a checkpoint, or an instance this replica has
  heard of only through \<^verbatim>\<open>ACCEPT\<close>, \<^verbatim>\<open>COMMIT\<close> or \<^verbatim>\<open>PREPARE\<close>) crashes the computation: if the
  newest instance of a tree is neither executed nor the one to ignore and its command pointer
  is null, \<^verbatim>\<open>seq_deps_for_command\<close> follows it, for every command.
\<close>

theorem seq_deps_for_command_null_command:
  assumes "index_laws L keys" and "loop_fuel L > 0" and "keys ix \<noteq> {}"
    and "insts (iid rid (Max (keys ix))) = Some ti" and "i_command ti = None"
    and "\<not> is_state (i_status ti) EXECUTED" and "ignore \<noteq> Some (i_key ti)"
  shows "seq_deps_for_command L ix insts rid cp ignore (cmds, p) = Inl Null_deref"
proof -
  from assms(2) obtain fuel where "loop_fuel L = Suc fuel" by (cases "loop_fuel L") auto
  moreover have "ix_max L ix = Some (Max (keys ix))"
    using assms(3) by (simp add: ix_max_keys [OF assms(1)] largest_def)
  ultimately show ?thesis
    using assms(4-7) by (simp add: seq_deps_for_command_def load_Some Let_def interferes_at_def)
qed

text \<open>
  \<^verbatim>\<open>pre_accept_conflict\<close> starts at the element with the instance's own number instead of
  at the next smaller one, so in the tree of another replica that has no instance of exactly
  that number it reports no conflict, whatever the tree holds.
\<close>

theorem pre_accept_conflict_blind:
  assumes "index_laws L keys" and "instance_id (i_key i) \<notin> keys ix"
  shows "pre_accept_conflict L ix insts rid i cp seq deps cmds = Inr (None, cmds)"
  using assms(2) by (simp add: pre_accept_conflict_def ix_find_keys [OF assms(1)])

section \<open>Clearing a tree\<close>

text \<open>
  \<open>cleared\<close> relates a tree before and after: what is gone was executed and has a newer
  instance left; every other instance of the heap is as before, and the only commands freed are
  those of the instances that are gone.
\<close>

definition gone_cmds :: "insts \<Rightarrow> u64 \<Rightarrow> u64 set \<Rightarrow> nat set" where
  "gone_cmds insts rid D = {a. \<exists>k \<in> D. \<exists>i. insts (iid rid k) = Some i \<and> i_command i = Some a}"

definition cleared :: "u64 \<Rightarrow> u64 set \<times> insts \<times> cmds \<Rightarrow> u64 set \<times> insts \<times> cmds \<Rightarrow> bool" where
  "cleared rid = (\<lambda>(A, insts, cmds) (A', insts', cmds').
     A' \<subseteq> A \<and>
     (\<forall>k \<in> A - A'. (\<exists>i. insts (iid rid k) = Some i \<and> is_state (i_status i) EXECUTED) \<and>
        insts' (iid rid k) = None \<and> (\<exists>j \<in> A'. k < j)) \<and>
     (\<forall>q. q \<notin> iid rid ` (A - A') \<longrightarrow> insts' q = insts q) \<and>
     (\<forall>a. cmds' a = (if a \<in> gone_cmds insts rid (A - A') then None else cmds a)))"

lemma cleared_refl [simp]: "cleared rid st st"
  by (cases st) (simp add: cleared_def gone_cmds_def)

lemma cleared_trans:
  assumes "cleared rid a b" and "cleared rid b c"
  shows "cleared rid a c"
proof -
  obtain A i1 c1 where a: "a = (A, i1, c1)" by (cases a)
  obtain B i2 c2 where b: "b = (B, i2, c2)" by (cases b)
  obtain C i3 c3 where c: "c = (C, i3, c3)" by (cases c)
  have ab: "B \<subseteq> A" "\<And>k. k \<in> A - B \<Longrightarrow> (\<exists>i. i1 (iid rid k) = Some i \<and> is_state (i_status i) EXECUTED) \<and>
        i2 (iid rid k) = None \<and> (\<exists>j \<in> B. k < j)"
      "\<And>q. q \<notin> iid rid ` (A - B) \<Longrightarrow> i2 q = i1 q"
      "\<And>x. c2 x = (if x \<in> gone_cmds i1 rid (A - B) then None else c1 x)"
    using assms(1) by (auto simp: a b cleared_def)
  have bc: "C \<subseteq> B" "\<And>k. k \<in> B - C \<Longrightarrow> (\<exists>i. i2 (iid rid k) = Some i \<and> is_state (i_status i) EXECUTED) \<and>
        i3 (iid rid k) = None \<and> (\<exists>j \<in> C. k < j)"
      "\<And>q. q \<notin> iid rid ` (B - C) \<Longrightarrow> i3 q = i2 q"
      "\<And>x. c3 x = (if x \<in> gone_cmds i2 rid (B - C) then None else c2 x)"
    using assms(2) by (auto simp: b c cleared_def)
  have same: "i2 (iid rid k) = i1 (iid rid k)" if "k \<in> B" for k
    using that by (intro ab(3)) auto
  have gone: "gone_cmds i1 rid (A - C) = gone_cmds i1 rid (A - B) \<union> gone_cmds i2 rid (B - C)"
    using ab(1) bc(1) by (auto simp: gone_cmds_def same)
  have "(\<exists>i. i1 (iid rid k) = Some i \<and> is_state (i_status i) EXECUTED) \<and>
      i3 (iid rid k) = None \<and> (\<exists>j \<in> C. k < j)" if k: "k \<in> A - C" for k
  proof (cases "k \<in> B")
    case True
    with k bc(2) [of k] same [OF True] show ?thesis by auto
  next
    case False
    with k ab(2) [of k] obtain j where j: "j \<in> B" "k < j" by auto
    have "i3 (iid rid k) = i2 (iid rid k)" using False by (intro bc(3)) auto
    moreover have "\<exists>j \<in> C. k < j"
    proof (cases "j \<in> C")
      case True
      with j show ?thesis by blast
    next
      case False
      with j bc(2) [of j] show ?thesis by (auto intro: less_trans)
    qed
    ultimately show ?thesis using False k ab(2) [of k] by auto
  qed
  moreover have "i3 q = i1 q" if "q \<notin> iid rid ` (A - C)" for q
  proof -
    from that ab(1) bc(1) have "q \<notin> iid rid ` (A - B)" "q \<notin> iid rid ` (B - C)" by auto
    then show ?thesis using ab(3) [of q] bc(3) [of q] by simp
  qed
  moreover have "c3 x = (if x \<in> gone_cmds i1 rid (A - C) then None else c1 x)" for x
    using ab(4) [of x] bc(4) [of x] by (auto simp: gone)
  ultimately show ?thesis
    using ab(1) bc(1) by (auto simp: a c cleared_def)
qed

lemma cleared_delete:
  assumes "destroy_instance (iid rid e) (insts, cmds) = Inr (insts', cmds')"
    and "insts (iid rid e) = Some i" "is_state (i_status i) EXECUTED"
    and "e \<in> A" "k \<in> A" "e < k"
  shows "cleared rid (A, insts, cmds) (A - {e}, insts', cmds')"
proof -
  have "A - (A - {e}) = {e}" using assms(4) by auto
  moreover have "gone_cmds insts rid {e} = {a. i_command i = Some a}"
    using assms(2) by (auto simp: gone_cmds_def)
  moreover have "insts' = insts(iid rid e := None)"
    "\<forall>a. cmds' a = (if i_command i = Some a then None else cmds a)"
    using assms(1,2)
    by (auto simp: destroy_instance_def load_Some and_then_eq_Inr split: option.splits)
  ultimately show ?thesis using assms(2-6) by (auto simp: cleared_def)
qed

lemma clear_loop_cleared:
  assumes laws: "index_laws L keys"
  shows "clear_loop L rid fuel c executed (ix, insts, cmds) = Inr (ix', insts', cmds') \<Longrightarrow>
    on_tree (keys ix) c \<Longrightarrow>
    (\<forall>e. executed = Some e \<longrightarrow> e \<in> keys ix \<and> (\<forall>k. c = Some k \<longrightarrow> e < k) \<and>
       (\<exists>i. insts (iid rid e) = Some i \<and> is_state (i_status i) EXECUTED)) \<Longrightarrow>
    cleared rid (keys ix, insts, cmds) (keys ix', insts', cmds')"
proof (induction fuel arbitrary: c executed ix insts cmds)
  case 0
  then show ?case by (cases c) auto
next
  case (Suc fuel)
  show ?case
  proof (cases c)
    case None
    with Suc.prems show ?thesis by simp
  next
    case (Some k)
    with Suc.prems have k: "k \<in> keys ix" by simp
    let ?n = "ix_next L ix k"
    have n: "on_tree (keys ix) ?n" by (rule on_tree_moves(4) [OF laws k])
    have above: "\<And>j. ?n = Some j \<Longrightarrow> k < j"
      using ix_next_keys [OF laws k] by (auto simp: smallest_Some)
    from Suc.prems(1) Some obtain i where i: "insts (iid rid k) = Some i"
      by (auto simp: and_then_eq_Inr)
    show ?thesis
    proof (cases "i_status i < EXECUTED")
      case True
      with Suc.prems(1) Some i show ?thesis by (simp add: load_Some Let_def)
    next
      case ge: False
      show ?thesis
      proof (cases "is_state (i_status i) EXECUTED")
        case False
        with Suc.prems(1) Some i ge
        have "clear_loop L rid fuel ?n executed (ix, insts, cmds) = Inr (ix', insts', cmds')"
          by (simp add: load_Some Let_def)
        moreover have "\<forall>e. executed = Some e \<longrightarrow> e \<in> keys ix \<and> (\<forall>j. ?n = Some j \<longrightarrow> e < j) \<and>
            (\<exists>i. insts (iid rid e) = Some i \<and> is_state (i_status i) EXECUTED)"
          using Suc.prems(3) Some above by (auto dest: less_trans)
        ultimately show ?thesis using n by (intro Suc.IH)
      next
        case ex: True
        show ?thesis
        proof (cases executed)
          case None
          with Suc.prems(1) Some i ge ex
          have "clear_loop L rid fuel ?n (Some k) (ix, insts, cmds) = Inr (ix', insts', cmds')"
            by (simp add: load_Some Let_def)
          then show ?thesis using n k i ex above by (intro Suc.IH) auto
        next
          case e: (Some e)
          with Suc.prems(1) Some i ge ex obtain insts1 cmds1 where
            d: "destroy_instance (iid rid e) (insts, cmds) = Inr (insts1, cmds1)" and
            rest: "clear_loop L rid fuel ?n (Some k) (ix_delete L ix e, insts1, cmds1) = Inr (ix', insts', cmds')"
            by (auto simp: load_Some Let_def and_then_eq_Inr)
          from Suc.prems(3) e Some obtain ie where ie: "insts (iid rid e) = Some ie"
            "is_state (i_status ie) EXECUTED" "e \<in> keys ix" "e < k" by auto
          have step: "cleared rid (keys ix, insts, cmds) (keys ix - {e}, insts1, cmds1)"
            by (rule cleared_delete [OF d ie(1-3) k ie(4)])
          have "keys ix - (keys ix - {e}) = {e}" using ie(3) by auto
          with step have "insts1 (iid rid k) = insts (iid rid k)"
            using ie(4) by (auto simp: cleared_def)
          moreover have "on_tree (keys ix - {e}) ?n"
            using n above ie(4) by (cases ?n) auto
          ultimately have "cleared rid (keys ix - {e}, insts1, cmds1) (keys ix', insts', cmds')"
            using Suc.IH [OF rest] i k ex above ie(4) by (simp add: ix_delete_keys [OF laws])
          with step show ?thesis by (rule cleared_trans)
        qed
      qed
    qed
  qed
qed

lemma clear_index_walk:
  assumes "index_laws L keys"
    and "clear_index L rid (ix, insts, cmds) = Inr (ix', insts', cmds')"
  shows "cleared rid (keys ix, insts, cmds) (keys ix', insts', cmds')"
proof -
  from assms(2) have "clear_loop L rid (loop_fuel L) (ix_min L ix) None (ix, insts, cmds)
      = Inr (ix', insts', cmds')"
    by (simp add: clear_index_def)
  then show ?thesis
    using on_tree_moves(2) [OF assms(1)] by (rule clear_loop_cleared [OF assms(1)]) simp
qed

text \<open>
  C16. Clearing a tree: only executed instances are destroyed, never the newest one of the
  tree; the instances and commands that are left are unchanged, and a command is freed only
  with the instance that holds it.
\<close>

theorem clear_index_only_executed:
  assumes "index_laws L keys"
    and "clear_index L rid (ix, insts, cmds) = Inr (ix', insts', cmds')"
  shows "cleared rid (keys ix, insts, cmds) (keys ix', insts', cmds') \<and>
    (keys ix \<noteq> {} \<longrightarrow> Max (keys ix) \<in> keys ix')"
proof -
  have c: "cleared rid (keys ix, insts, cmds) (keys ix', insts', cmds')"
    using assms by (rule clear_index_walk)
  moreover have "Max (keys ix) \<in> keys ix'" if "keys ix \<noteq> {}"
  proof (rule ccontr)
    assume "Max (keys ix) \<notin> keys ix'"
    moreover have "Max (keys ix) \<in> keys ix" using that by (intro Max_in) simp_all
    ultimately have "Max (keys ix) \<in> keys ix - keys ix'" by blast
    with c obtain j where "j \<in> keys ix'" "Max (keys ix) < j" "keys ix' \<subseteq> keys ix"
      unfolding cleared_def prod.case by blast
    then show False by (metis Max_ge finite_u64 leD subsetD)
  qed
  ultimately show ?thesis by blast
qed

end
