(* ===== verification/Epx_Replica.thy ===== *)
theory Epx_Replica
  imports Epx_Walks
begin

text \<open>
  \<^verbatim>\<open>src/replica.c\<close> and \<^verbatim>\<open>src/replica.h\<close>: the state of a replica and the operations of the
  protocol on it. Calls into the channel and timer libraries are recorded, in order, in the
  field \<open>r_out\<close>: what the replica sends to its I/O and executor threads and which timers it
  arms or removes. Coroutines and handles are in \<open>Epx_Life\<close>.
\<close>

section \<open>The environment and the state\<close>

text \<open>
  Code outside the repository: the tree library, the \<^verbatim>\<open>khash\<close> table of deferred instances
  (\<^verbatim>\<open>kh_get\<close> with \<^verbatim>\<open>kh_val\<close>, \<^verbatim>\<open>kh_put\<close> with the assignment through \<^verbatim>\<open>kh_val\<close>) and the
  allocator: whether an allocation succeeds, and what \<^verbatim>\<open>malloc\<close> leaves in a fresh message.
\<close>

record ('t, 'g, 'd) env =
  env_tree :: "('t, 'g) tree_lib"
  dh_get :: "'d \<Rightarrow> u64 \<Rightarrow> u64 option"
  dh_put :: "'d \<Rightarrow> u64 \<Rightarrow> u64 \<Rightarrow> 'd"
  alloc_instance :: bool
  alloc_tracker :: bool
  alloc_message :: bool
  malloc_message :: message

datatype timer = Instance_timer instance_id | Replica_timer

text \<open>
  \<open>Send_io\<close> and \<open>Send_eo\<close> show the message as it is when its pointer is enqueued, \<open>Send_exec\<close>
  the instance as it is then; the other thread may follow the pointer later.
\<close>

datatype event =
    Send_io message
  | Send_eo message
  | Send_exec instance_id inst
  | Timeouts_add timer nat
  | Timeouts_del timer

record ('t, 'd) replica =
  r_id :: u64
  r_index :: "'t list"
  r_insts :: insts
  r_cmds :: cmds
  r_dh :: 'd
  r_out :: "event list"

definition emit :: "event \<Rightarrow> ('t, 'd) replica \<Rightarrow> ('t, 'd) replica" where
  "emit e r = r\<lparr>r_out := r_out r @ [e]\<rparr>"

definition set_inst :: "instance_id \<Rightarrow> inst \<Rightarrow> ('t, 'd) replica \<Rightarrow> ('t, 'd) replica" where
  "set_inst k i r = r\<lparr>r_insts := (r_insts r)(k \<mapsto> i)\<rparr>"

lemma replica_simps [simp]:
  "r_id (emit e r) = r_id r" "r_index (emit e r) = r_index r" "r_insts (emit e r) = r_insts r"
  "r_cmds (emit e r) = r_cmds r" "r_dh (emit e r) = r_dh r" "r_out (emit e r) = r_out r @ [e]"
  "r_id (set_inst k i r) = r_id r" "r_index (set_inst k i r) = r_index r"
  "r_insts (set_inst k i r) = (r_insts r)(k \<mapsto> i)" "r_cmds (set_inst k i r) = r_cmds r"
  "r_dh (set_inst k i r) = r_dh r" "r_out (set_inst k i r) = r_out r"
  by (simp_all add: emit_def set_inst_def)

section \<open>Sending and timers\<close>

definition send_io :: "message \<Rightarrow> ('t, 'd) replica \<Rightarrow> ('t, 'd) replica" where
  "send_io m = emit (Send_io m)"

definition send_eo :: "message \<Rightarrow> ('t, 'd) replica \<Rightarrow> ('t, 'd) replica" where
  "send_eo m = emit (Send_eo m)"

definition send_exec :: "instance_id \<Rightarrow> ('t, 'd) replica \<Rightarrow> ('t, 'd) replica res" where
  "send_exec k r = and_then (load (r_insts r) k) (\<lambda>i. Inr (emit (Send_exec k i) r))"

definition cancel_timeout :: "instance_id \<Rightarrow> ('t, 'd) replica \<Rightarrow> ('t, 'd) replica" where
  "cancel_timeout k = emit (Timeouts_del (Instance_timer k))"

definition arm_timeout :: "callback \<Rightarrow> instance_id \<Rightarrow> ('t, 'd) replica \<Rightarrow> ('t, 'd) replica res" where
  "arm_timeout cb k r =
     and_then (load (r_insts r) k) (\<lambda>i.
       Inr (emit (Timeouts_add (Instance_timer k) 20) (set_inst k (i\<lparr>i_timer := Some cb\<rparr>) r)))"

definition init_fp_timeout :: "instance_id \<Rightarrow> ('t, 'd) replica \<Rightarrow> ('t, 'd) replica res" where
  "init_fp_timeout = arm_timeout Fast_path_timeout"

definition init_timeout :: "instance_id \<Rightarrow> ('t, 'd) replica \<Rightarrow> ('t, 'd) replica res" where
  "init_timeout = arm_timeout Slow_path_timeout"

definition dh_key :: "instance_id \<Rightarrow> u64" where
  "dh_key k = push_bit 16 (instance_id k) OR replica_id k"

section \<open>Instances\<close>

definition new_tracker :: leader_tracker where
  "new_tracker = \<lparr>lt_pre_accept_oks = 0, lt_accept_oks = 0, lt_prepare_oks = 0,
     lt_try_pre_accept_oks = 0, lt_nacks = 0, lt_equal = 0, lt_max_ballot = 0,
     lt_recovery_status = NONE,
     lt_ri = \<lparr>ri_command = None, ri_deps = zero_deps, ri_status = NONE, ri_seq = 0,
              ri_pre_accept_count = 0, ri_leader_replied = 0\<rparr>,
     lt_quorum = replicate N 0\<rparr>"

definition index_at :: "('t, 'd) replica \<Rightarrow> u64 \<Rightarrow> 't res" where
  "index_at r rid = aget (r_index r) (unat rid)"

text \<open>A rejected instance is destroyed, command and all; \<open>False\<close> is the return value -1.\<close>

definition register_instance :: "('t, 'g, 'd) env \<Rightarrow> inst \<Rightarrow> ('t, 'd) replica \<Rightarrow>
    (('t, 'd) replica \<times> bool) res" where
  "register_instance E i r =
     and_then (index_at r (replica_id (i_key i))) (\<lambda>t.
       case ix_insert (env_tree E) t (instance_id (i_key i)) of (t', rej) \<Rightarrow>
         let r' = r\<lparr>r_index := (r_index r)[unat (replica_id (i_key i)) := t']\<rparr> in
         case rej of
           None \<Rightarrow> Inr (r'\<lparr>r_insts := (r_insts r)(i_key i \<mapsto> i)\<rparr>, True)
         | Some _ \<Rightarrow>
             (case i_command i of
                None \<Rightarrow> Inr (r', False)
              | Some p \<Rightarrow> and_then (load (r_cmds r) p)
                            (\<lambda>_. Inr (r'\<lparr>r_cmds := (r_cmds r)(p := None)\<rparr>, False))))"

text \<open>The pointer to an instance is its identifier.\<close>

definition find_instance :: "('t, 'g, 'd) env \<Rightarrow> ('t, 'd) replica \<Rightarrow> instance_id \<Rightarrow>
    instance_id option res" where
  "find_instance E r k =
     and_then (index_at r (replica_id k)) (\<lambda>t.
       Inr (map_option (iid (replica_id k)) (ix_find (env_tree E) t (instance_id k))))"

definition max_local :: "('t, 'g, 'd) env \<Rightarrow> ('t, 'd) replica \<Rightarrow> u64 res" where
  "max_local E r =
     and_then (index_at r (r_id r)) (\<lambda>t.
       case ix_max (env_tree E) t of
         None \<Rightarrow> Inr 0
       | Some k \<Rightarrow> and_then (load (r_insts r) (iid (r_id r) k)) (\<lambda>i. Inr (instance_id (i_key i))))"

section \<open>The index over all replicas\<close>

definition sd_for_command :: "('t, 'g, 'd) env \<Rightarrow> ('t, 'd) replica \<Rightarrow> cmd_ptr \<Rightarrow> instance_id option \<Rightarrow>
    seq_deps_probe \<Rightarrow> (u64 \<times> cmds \<times> seq_deps_probe) res" where
  "sd_for_command E r cp ignore p =
     for_each [0..<N] (\<lambda>rc (mseq, cmds, p).
       and_then (aget (r_index r) rc) (\<lambda>t.
         and_then (seq_deps_for_command (env_tree E) t (r_insts r) (of_nat rc) cp ignore (cmds, p))
           (\<lambda>(s, cmds', p'). Inr (max_seq mseq s, cmds', p'))))
       (0, r_cmds r, p)"

definition noop :: "('t, 'g, 'd) env \<Rightarrow> ('t, 'd) replica \<Rightarrow> instance_id \<Rightarrow> dependency list res" where
  "noop E r k =
     and_then (index_at r (replica_id k)) (\<lambda>t. noop_dep (env_tree E) t (r_insts r) k)"

definition barrier :: "('t, 'g, 'd) env \<Rightarrow> ('t, 'd) replica \<Rightarrow> dependency list res" where
  "barrier E r =
     for_each [0..<N] (\<lambda>rc deps.
       and_then (aget (r_index r) rc) (\<lambda>t.
         barrier_dep (env_tree E) t (r_insts r) (of_nat rc) deps)) zero_deps"

definition clear :: "('t, 'g, 'd) env \<Rightarrow> ('t, 'd) replica \<Rightarrow> ('t, 'd) replica res" where
  "clear E r =
     for_each [0..<N] (\<lambda>rc r.
       and_then (aget (r_index r) rc) (\<lambda>t.
         and_then (clear_index (env_tree E) (of_nat rc) (t, r_insts r, r_cmds r))
           (\<lambda>(t', insts', cmds').
              Inr (r\<lparr>r_index := (r_index r)[rc := t'], r_insts := insts', r_cmds := cmds'\<rparr>)))) r"

text \<open>The search stops at the first tree that reports a conflict.\<close>

fun pac_conflict_loop :: "('t, 'g, 'd) env \<Rightarrow> ('t, 'd) replica \<Rightarrow> inst \<Rightarrow> cmd_ptr \<Rightarrow> u64 \<Rightarrow>
    dependency list \<Rightarrow> nat list \<Rightarrow> cmds \<Rightarrow> (instance_id option \<times> cmds) res" where
  "pac_conflict_loop E r i cp seq deps [] cmds = Inr (None, cmds)"
| "pac_conflict_loop E r i cp seq deps (rc # rcs) cmds =
     and_then (aget (r_index r) rc) (\<lambda>t.
       and_then (pre_accept_conflict (env_tree E) t (r_insts r) (of_nat rc) i cp seq deps cmds)
         (\<lambda>(conflict, cmds').
            case conflict of
              Some c \<Rightarrow> Inr (Some c, cmds')
            | None \<Rightarrow> pac_conflict_loop E r i cp seq deps rcs cmds'))"

definition pac_conflict :: "('t, 'g, 'd) env \<Rightarrow> ('t, 'd) replica \<Rightarrow> inst \<Rightarrow> cmd_ptr \<Rightarrow> u64 \<Rightarrow>
    dependency list \<Rightarrow> (instance_id option \<times> cmds) res" where
  "pac_conflict E r i cp seq deps = pac_conflict_loop E r i cp seq deps [0..<N] (r_cmds r)"

definition find_conflict :: "('t, 'g, 'd) env \<Rightarrow> ('t, 'd) replica \<Rightarrow> inst \<Rightarrow> cmd_ptr \<Rightarrow> u64 \<Rightarrow>
    dependency list \<Rightarrow> (instance_id option \<times> cmds) res" where
  "find_conflict E r i cp seq deps =
     (if i_command i \<noteq> None \<and> i_status i \<ge> ACCEPTED then Inr (Some (i_key i), r_cmds r)
      else if i_command i \<noteq> None \<and> i_seq i = seq \<and> equal_deps (i_deps i) deps
        then Inr (None, r_cmds r)
      else pac_conflict E r i cp seq deps)"

end
