(* ===== verification/Epx_Handlers.thy ===== *)
theory Epx_Handlers
  imports Epx_Replica
begin

text \<open>
  \<^verbatim>\<open>src/epaxos.c\<close>: the message handlers of the protocol, the timer callbacks and the entry
  points \<^verbatim>\<open>step\<close>, \<^verbatim>\<open>propose\<close> and \<^verbatim>\<open>checkpoint\<close>. A handler gets the replica, the identifier
  of the instance (its pointer) and the message, and returns the replica and the message as
  it leaves them. The main loop of the thread is not in this theory.
\<close>

type_synonym ('t, 'd) outcome = "(('t, 'd) replica \<times> message) res"

section \<open>Committing, checkpoints and recovery\<close>

text \<open>The message is in hand twice: the enqueued pointers and the caller's are one object.\<close>

definition do_commit :: "('t, 'd) replica \<Rightarrow> instance_id \<Rightarrow> message \<Rightarrow> ('t, 'd) outcome" where
  "do_commit r k m =
     and_then (load (r_insts r) k) (\<lambda>i.
       let r1 = set_inst k (i\<lparr>i_status := COMMITTED\<rparr>) (cancel_timeout k r);
           m1 = m\<lparr>m_type := COMMIT\<rparr> in
       and_then (send_exec k r1) (\<lambda>r2.
         let r3 = send_io m1 r2 in
         and_then (load_cmd (r_cmds r) (i_command i)) (\<lambda>c.
           Inr (if writing c = WRITE then send_eo m1 r3 else r3, m1))))"

definition checkpoint :: "('t, 'g, 'd) env \<Rightarrow> message option \<Rightarrow> ('t, 'd) replica \<Rightarrow>
    ('t, 'd) replica res" where
  "checkpoint E mo r =
     (if \<not> alloc_instance E \<or> \<not> alloc_tracker E then Inr r
      else and_then (max_local E r) (\<lambda>top.
        let i = new_instance\<lparr>i_lt := Some new_tracker, i_key := iid (r_id r) (top + 1)\<rparr>;
            k = i_key i in
        and_then (register_instance E i r) (\<lambda>(r1, registered).
          if \<not> registered then Inr r1
          else and_then (barrier E r1) (\<lambda>deps.
            and_then (deref (case mo of Some m \<Rightarrow> Some m
                             | None \<Rightarrow> if alloc_message E then Some (malloc_message E) else None)) (\<lambda>m.
              let i' = i\<lparr>i_deps := deps, i_status := PRE_ACCEPTED\<rparr>;
                  m' = m\<lparr>m_id := k, m_deps := deps, m_ballot := i_ballot i, m_type := PRE_ACCEPT\<rparr> in
              and_then (init_fp_timeout k (set_inst k i' r1)) (\<lambda>r2.
                Inr (send_io m' r2)))))))"

definition recover :: "('t, 'g, 'd) env \<Rightarrow> ('t, 'd) replica \<Rightarrow> instance_id \<Rightarrow> message \<Rightarrow>
    ('t, 'd) outcome" where
  "recover E r k m =
     and_then (load (r_insts r) k) (\<lambda>i.
       case (case i_lt i of Some lt \<Rightarrow> Some lt | None \<Rightarrow> if alloc_tracker E then Some new_tracker else None) of
         None \<Rightarrow> Inr (r, m)
       | Some lt0 \<Rightarrow>
         let lt1 = lt0\<lparr>lt_recovery_status := PREPARING\<rparr>;
             lt2 = (if is_state (i_status i) ACCEPTED then lt1\<lparr>lt_max_ballot := i_ballot i\<rparr>
                    else if is_state (i_status i) PRE_ACCEPTED
                    then lt1\<lparr>lt_ri := (lt_ri lt1)\<lparr>ri_pre_accept_count := 1,
                           ri_leader_replied := (if r_id r = replica_id (i_key i) then 1 else 0)\<rparr>\<rparr>
                    else lt1);
             lt3 = lt2\<lparr>lt_ri := (lt_ri lt2)\<lparr>ri_status := i_status i, ri_command := i_command i,
                           ri_seq := i_seq i, ri_deps := i_deps i\<rparr>\<rparr>;
             i' = i\<lparr>i_lt := Some lt3, i_ballot := larger_ballot (i_ballot i) (r_id r)\<rparr>;
             m' = m\<lparr>m_ballot := i_ballot i', m_id := i_key i, m_command := i_command i,
                    m_seq := i_seq i, m_type := PREPARE\<rparr> in
         and_then (init_timeout k (set_inst k i' r)) (\<lambda>r'. Inr (send_io m' r', m')))"

section \<open>Pre-accept\<close>

definition phase1 :: "('t, 'g, 'd) env \<Rightarrow> ('t, 'd) replica \<Rightarrow> instance_id \<Rightarrow> message \<Rightarrow>
    ('t, 'd) outcome" where
  "phase1 E r k m =
     and_then (load (r_insts r) k) (\<lambda>i0.
       let i1 = instance_reset i0;
           r1 = emit (Timeouts_del (Instance_timer k)) (set_inst k i1 r) in
       and_then (sd_for_command E r1 (m_command m) (Some (i_key i1)) \<lparr>updated = 0, p_deps = zero_deps\<rparr>)
         (\<lambda>(s, cmds', p).
           and_then (deref (i_lt i1)) (\<lambda>lt.
             let i2 = i1\<lparr>i_seq := s + 1, i_status := PRE_ACCEPTED,
                         i_lt := Some (lt\<lparr>lt_equal := (if updated p = 0 then 1 else 0)\<rparr>),
                         i_deps := p_deps p, i_command := m_command m, i_ballot := m_ballot m\<rparr>;
                 m' = m\<lparr>m_seq := i_seq i2, m_deps := i_deps i2, m_id := i_key i2,
                        m_type := PRE_ACCEPT\<rparr> in
             and_then (init_fp_timeout k (set_inst k i2 (r1\<lparr>r_cmds := cmds'\<rparr>))) (\<lambda>r2.
               Inr (send_io m' r2, m')))))"

definition pre_accept :: "('t, 'g, 'd) env \<Rightarrow> ('t, 'd) replica \<Rightarrow> instance_id \<Rightarrow> message \<Rightarrow>
    ('t, 'd) outcome" where
  "pre_accept E r k m =
     and_then (load (r_insts r) k) (\<lambda>i.
       if is_state (i_status i) (COMMITTED OR ACCEPTED) then Inr (r, m)
       else if \<not> is_state (i_status i) (PRE_ACCEPTED OR NONE) then Inr (r, m)
       else if m_ballot m < i_ballot i then
         let m' = m\<lparr>m_ballot := i_ballot i, m_command := i_command i, m_seq := i_seq i,
                    m_nack := 1, m_deps := i_deps i, m_type := PRE_ACCEPT_REPLY\<rparr> in
         Inr (send_io m' r, m')
       else and_then (sd_for_command E r (m_command m) (Some (i_key i)) \<lparr>updated = 0, p_deps = i_deps i\<rparr>)
         (\<lambda>(s, cmds', p).
           let nseq = max_seq (m_seq m) (s + 1);
               i' = i\<lparr>i_status := (if updated p = 0 then PRE_ACCEPTED_EQ else PRE_ACCEPTED),
                      i_command := m_command m, i_ballot := m_ballot m,
                      i_deps := p_deps p, i_seq := nseq\<rparr>;
               r1 = set_inst k i' (r\<lparr>r_cmds := cmds'\<rparr>) in
           and_then (if i_command i' = None then clear E r1 else Inr r1) (\<lambda>r2.
             if i_seq i' \<noteq> m_seq m \<or> updated p > 0 \<or> has_uncommitted_deps i'
                \<or> \<not> is_initial_ballot (m_ballot m) then
               let m' = m\<lparr>m_seq := nseq, m_deps := i_deps i', m_type := PRE_ACCEPT_REPLY\<rparr> in
               Inr (send_io m' r2, m')
             else
               let m' = m\<lparr>m_type := PRE_ACCEPT_OK\<rparr> in
               Inr (send_io m' r2, m'))))"

text \<open>
  The counters are bytes: \<^verbatim>\<open>++\<close> wraps. \<open>quorum\<close> is \<^verbatim>\<open>N/2\<close>.
\<close>

definition quorum :: u8 where
  "quorum = of_nat (N div 2)"

lemma quorum_1 [simp]: "quorum = 1"
  by (simp add: quorum_def)

definition pre_accept_ok :: "('t, 'd) replica \<Rightarrow> instance_id \<Rightarrow> message \<Rightarrow> ('t, 'd) outcome" where
  "pre_accept_ok r k m =
     and_then (load (r_insts r) k) (\<lambda>i.
       if \<not> is_state (i_status i) PRE_ACCEPTED \<or> \<not> is_initial_ballot (i_ballot i) then Inr (r, m)
       else and_then (deref (i_lt i)) (\<lambda>lt.
         let lt' = lt\<lparr>lt_pre_accept_oks := lt_pre_accept_oks lt + 1\<rparr>;
             i' = i\<lparr>i_lt := Some lt'\<rparr> in
         if lt_pre_accept_oks lt' \<ge> quorum \<and> lt_equal lt' \<noteq> 0 \<and> \<not> has_uncommitted_deps i'
         then do_commit (set_inst k i' r) k m
         else if lt_pre_accept_oks lt' \<ge> quorum then
           let m' = m\<lparr>m_type := ACCEPT\<rparr> in
           Inr (send_io m' (set_inst k (i'\<lparr>i_status := ACCEPTED\<rparr>) r), m')
         else Inr (set_inst k i' r, m)))"

text \<open>What \<^verbatim>\<open>pre_accept_reply\<close> and \<^verbatim>\<open>accept_reply\<close> do with a nack.\<close>

definition nack_reply :: "('t, 'g, 'd) env \<Rightarrow> ('t, 'd) replica \<Rightarrow> instance_id \<Rightarrow> message \<Rightarrow>
    ('t, 'd) outcome" where
  "nack_reply E r k m =
     and_then (load (r_insts r) k) (\<lambda>i.
       and_then (deref (i_lt i)) (\<lambda>lt.
         let lt1 = lt\<lparr>lt_nacks := lt_nacks lt + 1\<rparr>;
             lt2 = (if m_ballot m > lt_max_ballot lt1 then lt1\<lparr>lt_max_ballot := m_ballot m\<rparr> else lt1);
             r' = set_inst k (i\<lparr>i_lt := Some lt2\<rparr>) r in
         if lt_nacks lt2 \<ge> quorum then recover E r' k m else Inr (r', m)))"

text \<open>The loop over the reply's dependencies: every change is taken off \<^verbatim>\<open>equal\<close>.\<close>

definition reply_deps :: "dependency list \<Rightarrow> dependency list \<times> u8 \<Rightarrow> dependency list \<times> u8" where
  "reply_deps ds st =
     fold (\<lambda>d (deps, equal). case update_deps deps d of (deps', n) \<Rightarrow> (deps', equal - of_nat n)) ds st"

definition pre_accept_reply :: "('t, 'g, 'd) env \<Rightarrow> ('t, 'd) replica \<Rightarrow> instance_id \<Rightarrow> message \<Rightarrow>
    ('t, 'd) outcome" where
  "pre_accept_reply E r k m =
     and_then (load (r_insts r) k) (\<lambda>i.
       if \<not> is_state (i_status i) PRE_ACCEPTED \<or> i_ballot i \<noteq> m_ballot m then Inr (r, m)
       else if m_nack m \<noteq> 0 then nack_reply E r k m
       else and_then (deref (i_lt i)) (\<lambda>lt.
         let lt1 = lt\<lparr>lt_pre_accept_oks := lt_pre_accept_oks lt + 1\<rparr>;
             seq' = (if m_seq m > i_seq i then m_seq m else i_seq i);
             eq1 = (if m_seq m > i_seq i then 1 else lt_equal lt1) in
         case reply_deps (m_deps m) (i_deps i, eq1) of (deps', eq2) \<Rightarrow>
         let lt2 = lt1\<lparr>lt_equal := (if eq2 = 1 then 1 else 0)\<rparr>;
             i' = i\<lparr>i_seq := seq', i_deps := deps', i_lt := Some lt2\<rparr> in
         if lt_pre_accept_oks lt2 \<ge> quorum \<and> lt_equal lt2 \<noteq> 0 \<and> is_initial_ballot (i_ballot i')
            \<and> \<not> has_uncommitted_deps i'
         then do_commit (set_inst k i' r) k m
         else if lt_pre_accept_oks lt2 \<ge> quorum then
           let m' = m\<lparr>m_type := ACCEPT\<rparr> in
           Inr (send_io m' (set_inst k (i'\<lparr>i_status := ACCEPTED\<rparr>) r), m')
         else Inr (set_inst k i' r, m)))"

section \<open>Accept\<close>

definition accept :: "('t, 'g, 'd) env \<Rightarrow> ('t, 'd) replica \<Rightarrow> instance_id \<Rightarrow> message \<Rightarrow>
    ('t, 'd) outcome" where
  "accept E r k m =
     and_then (load (r_insts r) k) (\<lambda>i.
       if is_state (i_status i) (COMMITTED OR EXECUTED) then Inr (r, m)
       else if m_ballot m < i_ballot i then
         let m' = m\<lparr>m_nack := 1, m_ballot := i_ballot i, m_type := ACCEPT_REPLY\<rparr> in
         Inr (send_io m' r, m')
       else
         let i' = i\<lparr>i_status := ACCEPTED, i_ballot := m_ballot m, i_seq := m_seq m,
                    i_deps := m_deps m\<rparr>;
             r1 = set_inst k i' r;
             m' = m\<lparr>m_type := ACCEPT_REPLY\<rparr> in
         and_then (if m_command m = None then clear E r1 else Inr r1) (\<lambda>r2.
           Inr (send_io m' r2, m')))"

text \<open>\<^verbatim>\<open>accept_oks+1\<close> is computed on \<^verbatim>\<open>int\<close> and does not wrap.\<close>

definition accept_reply :: "('t, 'g, 'd) env \<Rightarrow> ('t, 'd) replica \<Rightarrow> instance_id \<Rightarrow> message \<Rightarrow>
    ('t, 'd) outcome" where
  "accept_reply E r k m =
     and_then (load (r_insts r) k) (\<lambda>i.
       if \<not> is_state (i_status i) ACCEPTED \<or> i_ballot i \<noteq> m_ballot m then Inr (r, m)
       else if m_nack m \<noteq> 0 then nack_reply E r k m
       else and_then (deref (i_lt i)) (\<lambda>lt.
         let lt' = lt\<lparr>lt_accept_oks := lt_accept_oks lt + 1\<rparr>;
             r' = set_inst k (i\<lparr>i_lt := Some lt'\<rparr>) r in
         if unat (lt_accept_oks lt') + 1 > N div 2 then do_commit r' k m else Inr (r', m)))"

section \<open>Recovery\<close>

definition prepare :: "('t, 'd) replica \<Rightarrow> instance_id \<Rightarrow> message \<Rightarrow> ('t, 'd) outcome" where
  "prepare r k m =
     and_then (load (r_insts r) k) (\<lambda>i.
       if m_ballot m < i_ballot i then
         let m' = m\<lparr>m_nack := 1, m_type := PREPARE_REPLY\<rparr> in
         Inr (send_io m' r, m')
       else
         let i' = i\<lparr>i_ballot := m_ballot m\<rparr>;
             m' = m\<lparr>m_command := i_command i', m_deps := i_deps i', m_seq := i_seq i',
                    m_ballot := i_ballot i', m_instance_status := i_status i',
                    m_type := PREPARE_REPLY\<rparr> in
         Inr (send_io m' (set_inst k i' r), m'))"

text \<open>What \<^verbatim>\<open>prepare_reply\<close> records of a reply from a replica that has not committed.\<close>

definition note_reply :: "inst \<Rightarrow> message \<Rightarrow> leader_tracker \<Rightarrow> leader_tracker" where
  "note_reply i m lt =
     (let take = (\<lambda>lt. let ri = update_recovery_instance (lt_ri lt) m in
                       lt\<lparr>lt_ri := ri\<lparr>ri_pre_accept_count := ri_pre_accept_count ri + 1\<rparr>\<rparr>);
          bump = (\<lambda>lt. lt\<lparr>lt_ri := (lt_ri lt)\<lparr>
                       ri_pre_accept_count := ri_pre_accept_count (lt_ri lt) + 1\<rparr>\<rparr>);
          lt1 = (if is_state (m_instance_status m) ACCEPTED
                    \<and> (lt_max_ballot lt < m_ballot m \<or> is_state (ri_status (lt_ri lt)) NONE)
                 then take (lt\<lparr>lt_max_ballot := m_ballot m\<rparr>) else lt)
      in if is_state (m_instance_status m) (PRE_ACCEPTED OR PRE_ACCEPTED_EQ)
            \<and> ri_status (lt_ri lt1) < ACCEPTED
         then let lt2 = (if is_state (ri_status (lt_ri lt1)) NONE
                            \<or> is_state (m_instance_status m) PRE_ACCEPTED_EQ then take lt1
                         else if m_seq m = i_seq i \<and> equal_deps (m_deps m) (i_deps i) then bump lt1
                         else lt1)
              in (if m_from m = replica_id (m_id m)
                  then lt2\<lparr>lt_ri := (lt_ri lt2)\<lparr>ri_leader_replied := 1\<rparr>\<rparr> else lt2)
         else lt1)"

text \<open>
  The four ways \<^verbatim>\<open>prepare_reply\<close> goes on once enough replicas answered, each on the instance
  \<open>i\<close> with its tracker \<open>lt\<close>. Where the code calls \<^verbatim>\<open>progress\<close> with a \<^verbatim>\<open>PHASE1\<close> message,
  \<open>phase1\<close> is called: \<open>progress_PHASE1\<close> below is the case of the dispatch.
\<close>

definition recover_noop :: "('t, 'g, 'd) env \<Rightarrow> ('t, 'd) replica \<Rightarrow> instance_id \<Rightarrow> inst \<Rightarrow>
    leader_tracker \<Rightarrow> message \<Rightarrow> ('t, 'd) outcome" where
  "recover_noop E r k i lt m =
     and_then (noop E r (m_id m)) (\<lambda>deps.
       let i' = i\<lparr>i_lt := Some (lt\<lparr>lt_recovery_status := NONE\<rparr>), i_status := ACCEPTED,
                  i_deps := deps\<rparr>;
           m' = m\<lparr>m_deps := deps, m_command := None, m_ballot := i_ballot i', m_type := ACCEPT\<rparr> in
       Inr (send_io m' (set_inst k i' r), m'))"

definition recover_accept :: "('t, 'd) replica \<Rightarrow> instance_id \<Rightarrow> inst \<Rightarrow> leader_tracker \<Rightarrow>
    message \<Rightarrow> ('t, 'd) outcome" where
  "recover_accept r k i lt m =
     (let ri = lt_ri lt;
          i' = i\<lparr>i_command := ri_command ri, i_seq := ri_seq ri, i_deps := ri_deps ri,
                 i_status := ACCEPTED, i_lt := Some (lt\<lparr>lt_recovery_status := NONE\<rparr>)\<rparr>;
          m' = m\<lparr>m_ballot := i_ballot i', m_deps := i_deps i', m_seq := i_seq i', m_type := ACCEPT\<rparr>
      in Inr (send_io m' (set_inst k i' r), m'))"

definition recover_try :: "('t, 'g, 'd) env \<Rightarrow> ('t, 'd) replica \<Rightarrow> instance_id \<Rightarrow> inst \<Rightarrow>
    leader_tracker \<Rightarrow> message \<Rightarrow> ('t, 'd) outcome" where
  "recover_try E r k i lt m =
     (let ri = lt_ri lt;
          lt1 = lt\<lparr>lt_pre_accept_oks := 0, lt_nacks := 0, lt_quorum := replicate N 1\<rparr>;
          i1 = i\<lparr>i_lt := Some lt1\<rparr>;
          r1 = set_inst k i1 r;
          proceed = (\<lambda>r lt i.
            let i' = i\<lparr>i_lt := Some (lt\<lparr>lt_recovery_status := TRY_PRE_ACCEPTING\<rparr>)\<rparr>;
                m' = m\<lparr>m_command := i_command i', m_deps := i_deps i', m_seq := i_seq i',
                       m_ballot := i_ballot i', m_type := TRY_PRE_ACCEPT\<rparr>
            in Inr (send_io m' (set_inst k i' r), m'))
      in and_then (pac_conflict E r1 i1 (ri_command ri) (ri_seq ri) (ri_deps ri)) (\<lambda>(conflict, cmds').
           let r2 = r1\<lparr>r_cmds := cmds'\<rparr> in
           case conflict of
             Some c \<Rightarrow>
               and_then (load (r_insts r2) c) (\<lambda>ci.
                 if i_status ci \<ge> COMMITTED then
                   phase1 E r2 k (m\<lparr>m_type := PHASE1, m_command := ri_command ri, m_ballot := i_ballot i1\<rparr>)
                 else and_then (aset (lt_quorum lt1) (unat (r_id r2)) 0) (\<lambda>q.
                   proceed r2 (lt1\<lparr>lt_nacks := 0, lt_quorum := q\<rparr>) i1))
           | None \<Rightarrow>
               proceed r2 (lt1\<lparr>lt_pre_accept_oks := 1\<rparr>)
                 (i1\<lparr>i_command := ri_command ri, i_seq := ri_seq ri, i_deps := ri_deps ri,
                     i_status := PRE_ACCEPTED\<rparr>)))"

definition recover_restart :: "('t, 'g, 'd) env \<Rightarrow> ('t, 'd) replica \<Rightarrow> instance_id \<Rightarrow> inst \<Rightarrow>
    leader_tracker \<Rightarrow> message \<Rightarrow> ('t, 'd) outcome" where
  "recover_restart E r k i lt m =
     phase1 E (set_inst k (i\<lparr>i_lt := Some (lt\<lparr>lt_recovery_status := NONE\<rparr>)\<rparr>) r) k
       (m\<lparr>m_type := PHASE1, m_command := ri_command (lt_ri lt), m_ballot := i_ballot i\<rparr>)"

definition prepare_reply :: "('t, 'g, 'd) env \<Rightarrow> ('t, 'd) replica \<Rightarrow> instance_id \<Rightarrow> message \<Rightarrow>
    ('t, 'd) outcome" where
  "prepare_reply E r k m =
     and_then (load (r_insts r) k) (\<lambda>i.
       case i_lt i of
         None \<Rightarrow> Inr (r, m)
       | Some lt \<Rightarrow>
         if lt_recovery_status lt \<noteq> PREPARING then Inr (r, m)
         else if m_nack m \<noteq> 0 then
           Inr (set_inst k (i\<lparr>i_lt := Some (lt\<lparr>lt_nacks := lt_nacks lt + 1\<rparr>)\<rparr>) r, m)
         else
           let lt1 = lt\<lparr>lt_prepare_oks := lt_prepare_oks lt + 1\<rparr> in
           if is_state (m_instance_status m) (COMMITTED OR EXECUTED) then
             do_commit (set_inst k (i\<lparr>i_lt := Some lt1, i_seq := m_seq m, i_command := m_command m,
                                      i_deps := m_deps m\<rparr>) r) k (m\<lparr>m_ballot := i_ballot i\<rparr>)
           else
             let lt2 = note_reply i m lt1;
                 i2 = i\<lparr>i_lt := Some lt2\<rparr>;
                 r2 = set_inst k i2 r;
                 ri = lt_ri lt2 in
             if lt_prepare_oks lt2 < quorum then Inr (r2, m)
             else if is_state (ri_status ri) NONE then recover_noop E r2 k i2 lt2 m
             else if is_state (ri_status ri) ACCEPTED
                  \<or> ri_leader_replied ri = 0 \<and> ri_pre_accept_count ri \<ge> quorum
                     \<and> is_state (ri_status ri) PRE_ACCEPTED_EQ then recover_accept r2 k i2 lt2 m
             else if ri_leader_replied ri = 0 \<and> unat (ri_pre_accept_count ri) \<ge> (N div 2 + 1) div 2
               then recover_try E r2 k i2 lt2 m
             else recover_restart E r2 k i2 lt2 m)"

definition try_pre_accept :: "('t, 'g, 'd) env \<Rightarrow> ('t, 'd) replica \<Rightarrow> instance_id \<Rightarrow> message \<Rightarrow>
    ('t, 'd) outcome" where
  "try_pre_accept E r k m =
     and_then (load (r_insts r) k) (\<lambda>i.
       if i_ballot i > m_ballot m then
         let m' = m\<lparr>m_conflict_id := m_id m, m_conflict_status := i_status i,
                    m_ballot := i_ballot i, m_nack := 1, m_type := TRY_PRE_ACCEPT_REPLY\<rparr> in
         Inr (send_io m' r, m')
       else and_then (find_conflict E r i (m_command m) (m_seq m) (m_deps m)) (\<lambda>(conflict, cmds').
         let r1 = r\<lparr>r_cmds := cmds'\<rparr> in
         case conflict of
           Some c \<Rightarrow>
             and_then (load (r_insts r1) c) (\<lambda>ci.
               let m' = m\<lparr>m_conflict_id := i_key ci, m_conflict_status := i_status ci,
                          m_ballot := i_ballot i, m_nack := 1, m_type := TRY_PRE_ACCEPT_REPLY\<rparr> in
               Inr (send_io m' r1, m'))
         | None \<Rightarrow>
             let i' = i\<lparr>i_command := m_command m, i_deps := m_deps m, i_ballot := m_ballot m,
                        i_seq := m_seq m, i_status := PRE_ACCEPTED\<rparr>;
                 m' = m\<lparr>m_type := TRY_PRE_ACCEPT_REPLY\<rparr> in
             Inr (send_io m' (set_inst k i' r1), m')))"

text \<open>
  The last part of a nacked \<^verbatim>\<open>try_pre_accept_reply\<close>: three tests in a row, none of which
  returns, so \<open>phase1\<close> may run in the first and again in the second. The tracker is read
  again each time.
\<close>

definition tracker_of :: "('t, 'd) replica \<Rightarrow> instance_id \<Rightarrow> (inst \<times> leader_tracker) res" where
  "tracker_of r k =
     and_then (load (r_insts r) k) (\<lambda>i. and_then (deref (i_lt i)) (\<lambda>lt. Inr (i, lt)))"

definition try_restart :: "('t, 'g, 'd) env \<Rightarrow> nat \<Rightarrow> instance_id \<Rightarrow>
    ('t, 'd) replica \<times> message \<Rightarrow> ('t, 'd) outcome" where
  "try_restart E nq k = (\<lambda>(r, m).
     if m_conflict_status m \<ge> COMMITTED \<or> nq > N div 2 then
       and_then (tracker_of r k) (\<lambda>(i, lt).
         phase1 E (set_inst k (i\<lparr>i_lt := Some (lt\<lparr>lt_recovery_status := NONE\<rparr>)\<rparr>) r) k
           (m\<lparr>m_type := PHASE1\<rparr>))
     else Inr (r, m))"

definition try_deferred :: "('t, 'g, 'd) env \<Rightarrow> nat \<Rightarrow> recovery_instance \<Rightarrow> instance_id \<Rightarrow>
    ('t, 'd) replica \<times> message \<Rightarrow> ('t, 'd) outcome" where
  "try_deferred E nq ri k = (\<lambda>(r, m).
     if nq = N div 2 then
       case dh_get E (r_dh r) (dh_key (m_id m)) of
         None \<Rightarrow> Inr (r, m)
       | Some v \<Rightarrow>
           and_then (tracker_of r k) (\<lambda>(i, lt).
             and_then (aget (lt_quorum lt) (unat v)) (\<lambda>b.
               if b \<noteq> 0 then
                 phase1 E (set_inst k (i\<lparr>i_lt := Some (lt\<lparr>lt_recovery_status := NONE\<rparr>)\<rparr>) r) k
                   (m\<lparr>m_command := ri_command ri, m_ballot := i_ballot i, m_type := PHASE1\<rparr>)
               else Inr (r, m)))
     else Inr (r, m))"

definition try_defer :: "('t, 'g, 'd) env \<Rightarrow> instance_id \<Rightarrow>
    ('t, 'd) replica \<times> message \<Rightarrow> ('t, 'd) outcome" where
  "try_defer E k = (\<lambda>(r, m).
     and_then (tracker_of r k) (\<lambda>(i, lt).
       if unat (lt_try_pre_accept_oks lt) > N div 2 then
         and_then (init_timeout k
             (r\<lparr>r_dh := dh_put E (r_dh r) (dh_key (m_conflict_id m)) (replica_id (m_id m))\<rparr>))
           (\<lambda>r'. Inr (r', m))
       else Inr (r, m)))"

definition try_pre_accept_reply :: "('t, 'g, 'd) env \<Rightarrow> ('t, 'd) replica \<Rightarrow> instance_id \<Rightarrow>
    message \<Rightarrow> ('t, 'd) outcome" where
  "try_pre_accept_reply E r k m =
     and_then (load (r_insts r) k) (\<lambda>i.
       case i_lt i of
         None \<Rightarrow> Inr (r, m)
       | Some lt \<Rightarrow>
         if lt_recovery_status lt \<noteq> TRY_PRE_ACCEPTING \<or> ri_status (lt_ri lt) = NONE then Inr (r, m)
         else let ri = lt_ri lt in
         if m_nack m \<noteq> 0 then
           let lt1 = lt\<lparr>lt_nacks := lt_nacks lt + 1\<rparr> in
           if m_ballot m > i_ballot i then
             let i' = i\<lparr>i_lt := Some lt1, i_ballot := larger_ballot (m_ballot m) (r_id r)\<rparr>;
                 m' = m\<lparr>m_ballot := i_ballot i', m_type := TRY_PRE_ACCEPT\<rparr> in
             Inr (send_io m' (set_inst k i' r), m')
           else
             let lt2 = lt1\<lparr>lt_try_pre_accept_oks := lt_try_pre_accept_oks lt1 + 1\<rparr> in
             if eq_instance_id (m_conflict_id m) (m_id m) then
               and_then (aset (lt_quorum lt2) (unat (m_from m)) 0) (\<lambda>q.
                 and_then (aset q (unat (replica_id (m_conflict_id m))) 0) (\<lambda>q'.
                   let i' = i\<lparr>i_lt := Some (lt2\<lparr>lt_quorum := q'\<rparr>)\<rparr>;
                       m' = m\<lparr>m_type := PREPARE\<rparr> in
                   Inr (send_io m' (set_inst k i' r), m')))
             else
               let nq = length (filter (\<lambda>b. b = 0) (lt_quorum lt2)) in
               and_then (try_restart E nq k (set_inst k (i\<lparr>i_lt := Some lt2\<rparr>) r, m)) (\<lambda>st.
                 and_then (try_deferred E nq ri k st) (try_defer E k))
         else
           let lt1 = lt\<lparr>lt_pre_accept_oks := lt_pre_accept_oks lt + 1,
                        lt_try_pre_accept_oks := lt_try_pre_accept_oks lt + 1\<rparr> in
           if lt_pre_accept_oks lt1 \<ge> quorum then
             let i' = i\<lparr>i_command := ri_command ri, i_deps := ri_deps ri, i_seq := ri_seq ri,
                        i_status := ACCEPTED,
                        i_lt := Some (lt1\<lparr>lt_accept_oks := 0, lt_recovery_status := NONE\<rparr>)\<rparr>;
                 m' = m\<lparr>m_command := ri_command ri, m_deps := ri_deps ri, m_seq := ri_seq ri,
                        m_instance_status := ACCEPTED, m_type := ACCEPT\<rparr> in
             Inr (send_io m' (set_inst k i' r), m')
           else Inr (set_inst k (i\<lparr>i_lt := Some lt1\<rparr>) r, m))"

section \<open>Commit and dispatch\<close>

definition commit :: "('t, 'd) replica \<Rightarrow> instance_id \<Rightarrow> message \<Rightarrow> ('t, 'd) outcome" where
  "commit r k m =
     and_then (load (r_insts r) k) (\<lambda>i.
       let i1 = i\<lparr>i_status := COMMITTED\<rparr> in
       and_then (send_exec k (set_inst k i1 (cancel_timeout k r))) (\<lambda>r1.
         Inr (set_inst k (i1\<lparr>i_seq := m_seq m, i_deps := m_deps m\<rparr>) r1, m)))"

definition progress :: "('t, 'g, 'd) env \<Rightarrow> ('t, 'd) replica \<Rightarrow> instance_id \<Rightarrow> message \<Rightarrow>
    ('t, 'd) outcome" where
  "progress E r k m =
     (case m_type m of
        PHASE1 \<Rightarrow> phase1 E r k m
      | PRE_ACCEPT \<Rightarrow> pre_accept E r k m
      | PRE_ACCEPT_REPLY \<Rightarrow> pre_accept_reply E r k m
      | ACCEPT \<Rightarrow> accept E r k m
      | COMMIT \<Rightarrow> commit r k m
      | ACCEPT_REPLY \<Rightarrow> accept_reply E r k m
      | PRE_ACCEPT_OK \<Rightarrow> pre_accept_ok r k m
      | PREPARE \<Rightarrow> prepare r k m
      | PREPARE_REPLY \<Rightarrow> prepare_reply E r k m
      | TRY_PRE_ACCEPT \<Rightarrow> try_pre_accept E r k m
      | TRY_PRE_ACCEPT_REPLY \<Rightarrow> try_pre_accept_reply E r k m
      | EXECUTE \<Rightarrow> Inr (r, m)
      | Unnamed_type _ \<Rightarrow> Inr (r, m))"

lemma progress_PHASE1: "progress E r k (m\<lparr>m_type := PHASE1\<rparr>) = phase1 E r k (m\<lparr>m_type := PHASE1\<rparr>)"
  by (simp add: progress_def)

section \<open>Timers\<close>

text \<open>A block from \<^verbatim>\<open>calloc\<close>.\<close>

definition zero_message :: message where
  "zero_message = \<lparr>m_type = Unnamed_type 0, m_to = 0, m_ballot = 0, m_nack = 0, m_id = zero_id,
     m_command = None, m_seq = 0, m_deps = zero_deps, m_from = 0, m_instance_status = 0,
     m_conflict_id = zero_id, m_conflict_status = 0, m_start = 0, m_stop = 0, m_ref = 0\<rparr>"

definition slow_path_timeout :: "('t, 'g, 'd) env \<Rightarrow> instance_id \<Rightarrow> ('t, 'd) replica \<Rightarrow>
    ('t, 'd) replica res" where
  "slow_path_timeout E k r =
     and_then (deref (if alloc_message E then Some zero_message else None)) (\<lambda>m.
       and_then (recover E r k (m\<lparr>m_type := PREPARE\<rparr>)) (\<lambda>(r', _). Inr r'))"

definition fast_path_timeout :: "('t, 'g, 'd) env \<Rightarrow> instance_id \<Rightarrow> ('t, 'd) replica \<Rightarrow>
    ('t, 'd) replica res" where
  "fast_path_timeout E k r =
     and_then (load (r_insts r) k) (\<lambda>i.
       and_then (init_timeout k r) (\<lambda>r1.
         and_then (deref (if alloc_message E then Some (message_from_instance (malloc_message E) i)
                          else None)) (\<lambda>m.
           Inr (send_io (m\<lparr>m_type := ACCEPT\<rparr>) r1))))"

definition checkpoint_timeout :: "('t, 'g, 'd) env \<Rightarrow> ('t, 'd) replica \<Rightarrow> ('t, 'd) replica res" where
  "checkpoint_timeout E r = checkpoint E None r"

definition fire :: "('t, 'g, 'd) env \<Rightarrow> timer \<Rightarrow> ('t, 'd) replica \<Rightarrow> ('t, 'd) replica res" where
  "fire E t r =
     (case t of
        Replica_timer \<Rightarrow> checkpoint_timeout E r
      | Instance_timer k \<Rightarrow>
          and_then (load (r_insts r) k) (\<lambda>i.
            and_then (deref (i_timer i)) (\<lambda>cb.
              case cb of
                Fast_path_timeout \<Rightarrow> fast_path_timeout E k r
              | Slow_path_timeout \<Rightarrow> slow_path_timeout E k r
              | Checkpoint_timeout \<Rightarrow> checkpoint_timeout E r)))"

text \<open>\<open>expired\<close> are the timers that \<^verbatim>\<open>timeouts_get\<close> hands out, in its order.\<close>

definition tick :: "('t, 'g, 'd) env \<Rightarrow> timer list \<Rightarrow> ('t, 'd) replica \<Rightarrow> ('t, 'd) replica res" where
  "tick E expired r = for_each expired (fire E) r"

section \<open>Entry points\<close>

text \<open>The Boolean is false where the C function returns -1.\<close>

definition step :: "('t, 'g, 'd) env \<Rightarrow> message \<Rightarrow> ('t, 'd) replica \<Rightarrow>
    (('t, 'd) replica \<times> bool) res" where
  "step E m r =
     (if instance_id (m_id m) = 0 then Inr (r, False)
      else and_then (find_instance E r (m_id m)) (\<lambda>found.
        case found of
          Some k \<Rightarrow> and_then (progress E r k m) (\<lambda>(r', _). Inr (r', True))
        | None \<Rightarrow>
            if \<not> alloc_instance E then Inr (r, False)
            else and_then (register_instance E (new_instance\<lparr>i_key := m_id m\<rparr>) r) (\<lambda>(r1, registered).
              if \<not> registered then Inr (r1, False)
              else and_then (init_timeout (m_id m) r1) (\<lambda>r2.
                and_then (progress E r2 (m_id m) m) (\<lambda>(r', _). Inr (r', True))))))"

definition propose :: "('t, 'g, 'd) env \<Rightarrow> message \<Rightarrow> ('t, 'd) replica \<Rightarrow>
    (('t, 'd) replica \<times> bool) res" where
  "propose E m r =
     (if \<not> alloc_instance E \<or> \<not> alloc_tracker E then Inr (r, False)
      else and_then (max_local E r) (\<lambda>top.
        let k = iid (r_id r) (top + 1) in
        and_then (register_instance E (new_instance\<lparr>i_lt := Some new_tracker, i_key := k\<rparr>) r)
          (\<lambda>(r1, registered).
            if \<not> registered then Inr (r1, False)
            else and_then (progress E r1 k (m\<lparr>m_type := PHASE1\<rparr>)) (\<lambda>(r', _). Inr (r', True)))))"

section \<open>The thread\<close>

text \<open>
  What \<^verbatim>\<open>choose\<close> reports to \<^verbatim>\<open>run\<close>: a tick, with the timers that expired, a message of
  another replica or a client's proposal. The I/O thread allocated the command of a message
  before it sent the message here; \<open>deliver\<close> is the replica's view of that.
\<close>

datatype input = Tick "timer list" | Step message "command option" | Propose message "command option"

definition deliver :: "message \<Rightarrow> command option \<Rightarrow> ('t, 'd) replica \<Rightarrow> ('t, 'd) replica" where
  "deliver m c r =
     (case (m_command m, c) of
        (Some p, Some cmd) \<Rightarrow> r\<lparr>r_cmds := (r_cmds r)(p \<mapsto> cmd)\<rparr>
      | _ \<Rightarrow> r)"

definition new_replica :: "('t, 'g, 'd) env \<Rightarrow> u64 \<Rightarrow> 'd \<Rightarrow> ('t, 'd) replica" where
  "new_replica E rid kh_init = \<lparr>r_id = rid, r_index = replicate N (ix_empty (env_tree E)),
     r_insts = Map.empty, r_cmds = Map.empty, r_dh = kh_init, r_out = []\<rparr>"

definition serve :: "('t, 'g, 'd) env \<Rightarrow> input \<Rightarrow> ('t, 'd) replica \<Rightarrow>
    (('t, 'd) replica \<times> bool) res" where
  "serve E x r =
     (case x of
        Tick expired \<Rightarrow> and_then (tick E expired r) (\<lambda>r'. Inr (r', True))
      | Step m c \<Rightarrow> step E m (deliver m c r)
      | Propose m c \<Rightarrow> propose E m (deliver m c r))"

text \<open>The thread ends at the first error and leaves the rest of its inputs unread.\<close>

fun run :: "('t, 'g, 'd) env \<Rightarrow> input list \<Rightarrow> ('t, 'd) replica \<Rightarrow> ('t, 'd) replica res" where
  "run E [] r = Inr r"
| "run E (x # xs) r =
     and_then (serve E x r) (\<lambda>(r', ok). if ok then run E xs r' else Inr r')"

end
