(* ===== verification/Epx_Invariant.thy ===== *)
theory Epx_Invariant
  imports Epx_Handlers
begin

text \<open>
  What every operation of the replica keeps: the trees and the heap of instances agree, every
  stored or sent dependency array has the size of its type, the number of the replica and what was sent
  already do not change, and the trees do not grow. The contract is a locale that every
  message handler interprets.
\<close>

section \<open>Coherence\<close>

text \<open>
  All that is known of an array of dependencies that came from another node: its size. The decoder fills
  at most \<^verbatim>\<open>N\<close> entries of memory that \<^verbatim>\<open>malloc\<close> left as it was, in the order of the sender.
\<close>

definition sized_deps :: "dependency list \<Rightarrow> bool" where
  "sized_deps ds \<longleftrightarrow> length ds = MAX_DEPS"

lemma sized_zero [simp]: "sized_deps zero_deps"
  using wf_deps_length [OF wf_deps_zero] by (simp add: sized_deps_def)

lemma wf_sized [simp]: "wf_deps ds \<Longrightarrow> sized_deps ds"
  by (simp add: sized_deps_def wf_deps_length)

lemma sized_update: "sized_deps ds \<Longrightarrow> sized_deps (fst (update_deps ds d))"
  by (simp add: sized_deps_def update_deps_def split: option.split)

definition wf_tracker :: "leader_tracker \<Rightarrow> bool" where
  "wf_tracker lt \<longleftrightarrow> length (lt_quorum lt) = N \<and> sized_deps (ri_deps (lt_ri lt))"

definition wf_inst :: "instance_id \<Rightarrow> inst \<Rightarrow> bool" where
  "wf_inst k i \<longleftrightarrow> i_key i = k \<and> sized_deps (i_deps i) \<and> (\<forall>lt. i_lt i = Some lt \<longrightarrow> wf_tracker lt)"

fun wf_event :: "event \<Rightarrow> bool" where
  "wf_event (Send_io m) \<longleftrightarrow> sized_deps (m_deps m)"
| "wf_event (Send_eo m) \<longleftrightarrow> sized_deps (m_deps m)"
| "wf_event (Send_exec k i) \<longleftrightarrow> wf_inst k i"
| "wf_event _ \<longleftrightarrow> True"

definition agree :: "('t \<Rightarrow> u64 set) \<Rightarrow> 't list \<Rightarrow> insts \<Rightarrow> bool" where
  "agree keys ts insts \<longleftrightarrow> length ts = N \<and>
     (\<forall>k. insts k \<noteq> None \<longleftrightarrow>
        unat (replica_id k) < N \<and> instance_id k \<in> keys (ts ! unat (replica_id k)))"

definition coherent :: "('t \<Rightarrow> u64 set) \<Rightarrow> ('t, 'd) replica \<Rightarrow> bool" where
  "coherent keys r \<longleftrightarrow> agree keys (r_index r) (r_insts r) \<and>
     (\<forall>k i. r_insts r k = Some i \<longrightarrow> wf_inst k i) \<and> (\<forall>e \<in> set (r_out r). wf_event e)"

definition frame :: "('t \<Rightarrow> u64 set) \<Rightarrow> ('t, 'd) replica \<Rightarrow> ('t, 'd) replica \<Rightarrow> bool" where
  "frame keys r r' \<longleftrightarrow> r_id r' = r_id r \<and> (\<exists>es. r_out r' = r_out r @ es) \<and>
     (\<forall>j < N. keys (r_index r' ! j) \<subseteq> keys (r_index r ! j))"

definition keeps :: "('t \<Rightarrow> u64 set) \<Rightarrow> ('t, 'd) replica \<Rightarrow> ('t, 'd) replica \<Rightarrow> bool" where
  "keeps keys r r' \<longleftrightarrow> coherent keys r' \<and> frame keys r r'"

lemma coherent_wf_inst: "coherent keys r \<Longrightarrow> r_insts r k = Some i \<Longrightarrow> wf_inst k i"
  by (simp add: coherent_def)

lemma wf_inst_timer [simp]: "wf_inst k (i\<lparr>i_timer := x\<rparr>) \<longleftrightarrow> wf_inst k i"
  by (simp add: wf_inst_def)

lemma wf_inst_status [simp]: "wf_inst k (i\<lparr>i_status := x\<rparr>) \<longleftrightarrow> wf_inst k i"
  by (simp add: wf_inst_def)

lemma frame_refl [simp]: "frame keys r r"
  by (simp add: frame_def)

lemma frame_trans: "frame keys a b \<Longrightarrow> frame keys b c \<Longrightarrow> frame keys a c"
  by (fastforce simp: frame_def)

lemma keeps_trans: "keeps keys a b \<Longrightarrow> keeps keys b c \<Longrightarrow> keeps keys a c"
  using frame_trans by (auto simp: keeps_def)

lemma keeps_refl: "coherent keys r \<Longrightarrow> keeps keys r r"
  by (simp add: keeps_def)

named_theorems keeps_intros \<open>operations that keep the replica coherent\<close>

lemma keeps_emit [keeps_intros]: "keeps keys r r' \<Longrightarrow> wf_event e \<Longrightarrow> keeps keys r (emit e r')"
  by (auto simp: keeps_def coherent_def frame_def)

lemma keeps_cmds [keeps_intros]: "keeps keys r r' \<Longrightarrow> keeps keys r (r'\<lparr>r_cmds := c\<rparr>)"
  by (auto simp: keeps_def coherent_def frame_def)

lemma keeps_dh [keeps_intros]: "keeps keys r r' \<Longrightarrow> keeps keys r (r'\<lparr>r_dh := d\<rparr>)"
  by (auto simp: keeps_def coherent_def frame_def)

lemma agree_upd: "agree keys ts insts \<Longrightarrow> insts k \<noteq> None \<Longrightarrow> agree keys ts (insts(k \<mapsto> i))"
  by (auto simp: agree_def)

lemma keeps_set_inst [keeps_intros]:
  assumes "keeps keys r r'" and "r_insts r' k \<noteq> None" and "wf_inst k i"
  shows "keeps keys r (set_inst k i r')"
  using assms agree_upd [of keys "r_index r'" "r_insts r'" k i]
  by (auto simp: keeps_def coherent_def frame_def)

lemma arm_timeout_eq:
  "arm_timeout cb k r = Inr r' \<longleftrightarrow> (\<exists>i. r_insts r k = Some i \<and>
     r' = emit (Timeouts_add (Instance_timer k) 20) (set_inst k (i\<lparr>i_timer := Some cb\<rparr>) r))"
  by (auto simp: arm_timeout_def and_then_eq_Inr)

lemma keeps_arm_timeout:
  assumes "keeps keys r r1" and "arm_timeout cb k r1 = Inr r2"
  shows "keeps keys r r2"
proof -
  from assms obtain i where i: "r_insts r1 k = Some i"
    and r2: "r2 = emit (Timeouts_add (Instance_timer k) 20) (set_inst k (i\<lparr>i_timer := Some cb\<rparr>) r1)"
    by (auto simp: arm_timeout_eq)
  have "wf_inst k i" using assms(1) i by (auto simp: keeps_def intro: coherent_wf_inst)
  then show ?thesis unfolding r2 using assms(1) i by (intro keeps_intros) auto
qed

lemma keeps_init_timeout:
  "keeps keys r r1 \<Longrightarrow> init_timeout k r1 = Inr r2 \<Longrightarrow> keeps keys r r2"
  "keeps keys r r1 \<Longrightarrow> init_fp_timeout k r1 = Inr r2 \<Longrightarrow> keeps keys r r2"
  by (auto simp: init_timeout_def init_fp_timeout_def intro: keeps_arm_timeout)

lemma arm_timeout_insts:
  "arm_timeout cb k r = Inr r' \<Longrightarrow> r_insts r' q \<noteq> None \<longleftrightarrow> r_insts r q \<noteq> None"
  by (auto simp: arm_timeout_eq split: if_splits)

section \<open>Calls into the index\<close>

lemma seq_deps_for_command_wf:
  assumes "index_laws L keys"
    and "seq_deps_for_command L ix insts rid cp ignore (cmds, p) = Inr (s, cmds', p')"
    and "sized_deps (p_deps p)"
  shows "sized_deps (p_deps p')"
proof -
  have "sized_deps (p_deps p') \<and> respans cp cmds cmds'"
  proof (rule seq_deps_loop_invariant [OF assms(1), where P = "\<lambda>mseq q. sized_deps (p_deps q)"])
    show "seq_deps_loop L ix insts rid cp ignore (loop_fuel L) (ix_max L ix) (0, (sp_empty L, False), cmds, p) = Inr (s, cmds', p')"
      using assms(2) by (simp add: seq_deps_for_command_def)
    show "on_tree (keys ix) (ix_max L ix)" by (rule on_tree_moves(1) [OF assms(1)])
  qed (use assms(3) in \<open>auto simp: probe_add_def add_dep_def sized_update\<close>)
  then show ?thesis ..
qed

lemma sd_for_command_wf:
  assumes laws: "index_laws (env_tree E) keys"
    and res: "sd_for_command E r cp ignore p = Inr (s, cmds', p')" and wf: "sized_deps (p_deps p)"
  shows "sized_deps (p_deps p')"
proof -
  have "sized_deps (p_deps (snd (snd (s, cmds', p'))))"
    using res unfolding sd_for_command_def
  proof (rule for_each_invariant [where P = "\<lambda>st. sized_deps (p_deps (snd (snd st)))"])
    fix rc st st'
    assume "sized_deps (p_deps (snd (snd (st :: u64 \<times> cmds \<times> seq_deps_probe))))"
      and "(case st of (mseq, cmds, p) \<Rightarrow> and_then (aget (r_index r) rc) (\<lambda>t.
         and_then (seq_deps_for_command (env_tree E) t (r_insts r) (of_nat rc) cp ignore (cmds, p))
           (\<lambda>(s, cmds', p'). Inr (max_seq mseq s, cmds', p')))) = Inr st'"
    then show "sized_deps (p_deps (snd (snd st')))"
      by (auto elim!: and_thenE split: prod.splits intro: seq_deps_for_command_wf [OF laws])
  qed (use wf in simp)
  then show ?thesis by simp
qed

lemma add_dep_wf: "sized_deps ds \<Longrightarrow> sized_deps (fst (add_dep ds i))"
  by (simp add: add_dep_def sized_update)

lemma noop_wf: "noop E r k = Inr deps \<Longrightarrow> sized_deps deps"
  by (auto simp: noop_def noop_dep_def elim!: and_thenE split: option.splits intro!: add_dep_wf)

lemma barrier_wf: "barrier E r = Inr deps \<Longrightarrow> sized_deps deps"
  unfolding barrier_def
  by (erule for_each_invariant) (auto simp: barrier_dep_def elim!: and_thenE intro: add_dep_wf)

lemma reply_deps_wf:
  assumes "sized_deps ds" shows "sized_deps (fst (reply_deps es (ds, eq)))"
proof -
  have "sized_deps (fst st) \<Longrightarrow> sized_deps (fst (fold (\<lambda>d (deps, equal).
      case update_deps deps d of (deps', n) \<Rightarrow> (deps', equal - of_nat n)) es st))" for st :: "_ \<times> u8"
  proof (induction es arbitrary: st)
    case (Cons d es)
    have "sized_deps (fst (case st of (deps, equal) \<Rightarrow>
        case update_deps deps d of (deps', n) \<Rightarrow> (deps', equal - of_nat n :: u8)))"
      using sized_update [of "fst st" d] Cons.prems by (simp split: prod.splits) (metis fst_conv)
    then show ?case by (simp add: Cons.IH)
  qed simp
  then show ?thesis using assms by (simp add: reply_deps_def)
qed

section \<open>Clearing\<close>

lemma unat_of_nat_N [simp]: "rc < N \<Longrightarrow> unat (of_nat rc :: u64) = rc"
  by (simp add: N_def unat_of_nat)

text \<open>What \<open>clear\<close> does to the heap of instances: some executed ones go, the others stay.\<close>

definition only_executed_gone :: "insts \<Rightarrow> insts \<Rightarrow> bool" where
  "only_executed_gone insts insts' \<longleftrightarrow>
     (\<forall>k. insts' k = insts k \<or>
        insts' k = None \<and> (\<exists>i. insts k = Some i \<and> is_state (i_status i) EXECUTED))"

lemma only_executed_gone_refl [simp]: "only_executed_gone x x"
  by (simp add: only_executed_gone_def)

lemma only_executed_gone_trans:
  "only_executed_gone a b \<Longrightarrow> only_executed_gone b c \<Longrightarrow> only_executed_gone a c"
  unfolding only_executed_gone_def by metis

lemma only_executed_gone_keeps:
  "only_executed_gone a b \<Longrightarrow> a k = Some i \<Longrightarrow> \<not> is_state (i_status i) EXECUTED \<Longrightarrow> b k = Some i"
  unfolding only_executed_gone_def by (metis option.inject)

lemma cleared_only_executed:
  assumes "cleared rid (A, insts, cmds) (A', insts', cmds')"
  shows "only_executed_gone insts insts'"
  unfolding only_executed_gone_def
proof
  fix q
  show "insts' q = insts q \<or>
      insts' q = None \<and> (\<exists>i. insts q = Some i \<and> is_state (i_status i) EXECUTED)"
    using assms by (cases "q \<in> iid rid ` (A - A')") (auto simp: cleared_def)
qed

lemma cleared_at:
  assumes "cleared rid (A, insts, cmds) (A', insts', cmds')"
  shows "n \<in> A - A' \<Longrightarrow> insts' (iid rid n) = None"
    and "n \<notin> A - A' \<Longrightarrow> insts' (iid rid n) = insts (iid rid n)"
    and "replica_id k \<noteq> rid \<Longrightarrow> insts' k = insts k"
    and "A' \<subseteq> A"
proof -
  have gone: "\<forall>k \<in> A - A'. insts' (iid rid k) = None"
    and same: "\<forall>q. q \<notin> iid rid ` (A - A') \<longrightarrow> insts' q = insts q" and sub: "A' \<subseteq> A"
    using assms unfolding cleared_def prod.case by blast+
  show "n \<in> A - A' \<Longrightarrow> insts' (iid rid n) = None" using gone by blast
  have "n \<notin> A - A' \<Longrightarrow> iid rid n \<notin> iid rid ` (A - A')" by auto
  then show "n \<notin> A - A' \<Longrightarrow> insts' (iid rid n) = insts (iid rid n)" using same by blast
  have "replica_id k \<noteq> rid \<Longrightarrow> k \<notin> iid rid ` (A - A')" by auto
  then show "replica_id k \<noteq> rid \<Longrightarrow> insts' k = insts k" using same by blast
  show "A' \<subseteq> A" by (rule sub)
qed

lemma cleared_agree:
  assumes ag: "agree keys ts insts" and rc: "rc < N"
    and cl: "cleared (of_nat rc) (keys (ts ! rc), insts, cmds) (keys t', insts', cmds')"
  shows "agree keys (ts[rc := t']) insts'"
proof -
  have len: "length ts = N" using ag by (simp add: agree_def)
  have at: "insts k \<noteq> None \<longleftrightarrow> unat (replica_id k) < N \<and> instance_id k \<in> keys (ts ! unat (replica_id k))"
    for k using ag unfolding agree_def by blast
  have "insts' k \<noteq> None \<longleftrightarrow>
      unat (replica_id k) < N \<and> instance_id k \<in> keys (ts[rc := t'] ! unat (replica_id k))" for k
  proof (cases "replica_id k = of_nat rc")
    case True
    then have k: "k = iid (of_nat rc) (instance_id k)" and u: "unat (replica_id k) = rc"
      using rc by (metis iid_eta, simp)
    show ?thesis
    proof (cases "instance_id k \<in> keys (ts ! rc) - keys t'")
      case True
      then have "insts' k = None" using cleared_at(1) [OF cl True] k by simp
      then show ?thesis using True len rc u by simp
    next
      case False
      then have "insts' k = insts k" using cleared_at(2) [OF cl False] k by simp
      then show ?thesis using at [of k] False len rc u cleared_at(4) [OF cl] by auto
    qed
  next
    case False
    then have "insts' k = insts k" by (rule cleared_at(3) [OF cl])
    moreover have "unat (replica_id k) \<noteq> rc" using False by auto
    ultimately show ?thesis using at [of k] by simp
  qed
  then show ?thesis using len by (simp add: agree_def)
qed

lemma keeps_clear:
  fixes r :: "('t, 'd) replica"
  assumes laws: "index_laws (env_tree E) keys" and coh: "coherent keys r" and res: "clear E r = Inr r'"
  shows "keeps keys r r' \<and> only_executed_gone (r_insts r) (r_insts r') \<and> r_out r' = r_out r"
  using res unfolding clear_def
proof (rule for_each_invariant [where
      P = "\<lambda>s :: ('t, 'd) replica. keeps keys r s \<and> only_executed_gone (r_insts r) (r_insts s) \<and> r_out s = r_out r"])
  fix rc s s'
  assume rc: "rc \<in> set [0..<N]"
    and P: "keeps keys r s \<and> only_executed_gone (r_insts r) (r_insts s) \<and> r_out s = r_out r"
    and "and_then (aget (r_index s) rc) (\<lambda>t. and_then
        (clear_index (env_tree E) (of_nat rc) (t, r_insts s, r_cmds s)) (\<lambda>(t', insts', cmds').
          Inr (s\<lparr>r_index := (r_index s)[rc := t'], r_insts := insts', r_cmds := cmds'\<rparr>))) = Inr s'"
  then obtain t' insts' cmds' where rc': "rc < length (r_index s)"
    and step: "clear_index (env_tree E) (of_nat rc) (r_index s ! rc, r_insts s, r_cmds s) = Inr (t', insts', cmds')"
    and s': "s' = s\<lparr>r_index := (r_index s)[rc := t'], r_insts := insts', r_cmds := cmds'\<rparr>"
    by (auto elim!: and_thenE simp: aget_eq_Inr split: prod.splits)
  have cl: "cleared (of_nat rc) (keys (r_index s ! rc), r_insts s, r_cmds s) (keys t', insts', cmds')"
    by (rule clear_index_walk [OF laws step])
  have gone: "only_executed_gone (r_insts s) insts'" using cl by (rule cleared_only_executed)
  have ag: "agree keys ((r_index s)[rc := t']) insts'"
    by (rule cleared_agree [OF _ _ cl]) (use P rc in \<open>auto simp: keeps_def coherent_def\<close>)
  have sub: "keys t' \<subseteq> keys (r_index s ! rc)" using cl by (simp add: cleared_def)
  have wf: "wf_inst k i" if "insts' k = Some i" for k i
  proof -
    have "r_insts s k = Some i" using gone that unfolding only_executed_gone_def by (metis option.distinct(1))
    then show ?thesis using P by (auto simp: keeps_def intro: coherent_wf_inst)
  qed
  have "keys ((r_index s)[rc := t'] ! j) \<subseteq> keys (r_index s ! j)" for j
    using sub rc' by (cases "j = rc") auto
  then have "keeps keys r s'"
    using P ag wf by (fastforce simp: s' keeps_def coherent_def frame_def)
  moreover have "only_executed_gone (r_insts r) (r_insts s')"
    using P gone by (auto simp: s' intro: only_executed_gone_trans)
  ultimately show "keeps keys r s' \<and> only_executed_gone (r_insts r) (r_insts s') \<and> r_out s' = r_out r"
    using P by (simp add: s')
qed (simp add: keeps_refl coh)

section \<open>Every handler keeps the replica coherent\<close>

lemmas eval_simps = and_then_eq_Inr arm_timeout_eq init_timeout_def init_fp_timeout_def
  send_exec_def send_io_def send_eo_def cancel_timeout_def Let_def

lemmas wf_inst_defs = wf_inst_def wf_tracker_def

lemma new_tracker_wf [simp]: "wf_tracker new_tracker"
  by (simp add: wf_tracker_def new_tracker_def)

text \<open>The instance a handler works on, with what is known of it.\<close>

lemma coherentD:
  assumes "coherent keys r" and "r_insts r k = Some i"
  shows "i_key i = k" and "sized_deps (i_deps i)"
    and "i_lt i = Some lt \<Longrightarrow> length (lt_quorum lt) = N"
    and "i_lt i = Some lt \<Longrightarrow> sized_deps (ri_deps (lt_ri lt))"
  using coherent_wf_inst [OF assms] by (simp_all add: wf_inst_defs)

lemma coherent_keeps: "keeps keys r r' \<Longrightarrow> coherent keys r'"
  by (simp add: keeps_def)

text \<open>The walks of one message end when every tree has fuel for its elements.\<close>

definition small :: "('t, 'g, 'd) env \<Rightarrow> ('t \<Rightarrow> u64 set) \<Rightarrow> ('t, 'd) replica \<Rightarrow> bool" where
  "small E keys r \<longleftrightarrow> (\<forall>t \<in> set (r_index r). card (keys t) \<le> loop_fuel (env_tree E))"

lemma small_simps [simp]:
  "small E keys (emit e r) = small E keys r" "small E keys (set_inst k i r) = small E keys r"
  "small E keys (r\<lparr>r_cmds := c\<rparr>) = small E keys r" "small E keys (r\<lparr>r_dh := d\<rparr>) = small E keys r"
  by (simp_all add: small_def)

locale handler =
  fixes E :: "('t, 'g, 'd) env" and keys :: "'t \<Rightarrow> u64 set"
    and h :: "('t, 'd) replica \<Rightarrow> instance_id \<Rightarrow> message \<Rightarrow> ('t, 'd) outcome"
  assumes keeps_step: "index_laws (env_tree E) keys \<Longrightarrow> coherent keys r \<Longrightarrow> sized_deps (m_deps m) \<Longrightarrow>
      h r k m = Inr (r', m') \<Longrightarrow> keeps keys r r' \<and> sized_deps (m_deps m')"
    and ends: "index_laws (env_tree E) keys \<Longrightarrow> small E keys r \<Longrightarrow> no_bound (h r k m)"
begin

lemma after:
  assumes "index_laws (env_tree E) keys" and "keeps keys r0 r" and "sized_deps (m_deps m)"
    and "h r k m = Inr (r', m')"
  shows "keeps keys r0 r' \<and> sized_deps (m_deps m')"
  using keeps_step [OF assms(1) coherent_keeps [OF assms(2)] assms(3,4)] keeps_trans [OF assms(2)] by blast

text \<open>A handler creates no instance.\<close>

lemma no_new:
  assumes "index_laws (env_tree E) keys" and "coherent keys r" and "sized_deps (m_deps m)"
    and "h r k m = Inr (r', m')" and "r_insts r' q \<noteq> None"
  shows "r_insts r q \<noteq> None"
  using keeps_step [OF assms(1-4)] assms(2,5) by (auto simp: keeps_def coherent_def agree_def frame_def)

text \<open>A queue of messages, each for its own instance.\<close>

lemma messages:
  assumes "index_laws (env_tree E) keys" and "coherent keys r" and "\<forall>(k, m) \<in> set ms. sized_deps (m_deps m)"
    and "for_each ms (\<lambda>(k, m) r. and_then (h r k m) (\<lambda>(r', _). Inr r')) r = Inr r'"
  shows "keeps keys r r'"
  using assms(4)
proof (rule for_each_invariant [where P = "keeps keys r"])
  show "keeps keys r r" using assms(2) by (rule keeps_refl)
  fix x s s'
  assume x: "x \<in> set ms" and s: "keeps keys r s"
    and step: "(case x of (k, m) \<Rightarrow> \<lambda>r. and_then (h r k m) (\<lambda>(r', _). Inr r')) s = Inr s'"
  from step obtain m' where "h s (fst x) (snd x) = Inr (s', m')"
    by (auto elim!: and_thenE split: prod.splits)
  with assms(1) s show "keeps keys r s'" using after assms(3) x by (metis case_prod_beta')
qed

end

interpretation do_commit: handler E keys do_commit for E :: "('t, 'g, 'd) env" and keys
proof unfold_locales
  fix r :: "('t, 'd) replica" and m r' m' k
  assume coh: "coherent keys r" and m: "sized_deps (m_deps m)" and res: "do_commit r k m = Inr (r', m')"
  from res obtain i where "r_insts r k = Some i" by (auto simp: do_commit_def eval_simps)
  with coherent_wf_inst [OF coh this] res m show "keeps keys r r' \<and> sized_deps (m_deps m')"
    by (auto simp: do_commit_def eval_simps intro!: keeps_intros keeps_refl coh split: if_splits)
next
  fix r :: "('t, 'd) replica" and m k
  show "no_bound (do_commit r k m)"
    by (auto simp: do_commit_def send_exec_def Let_def intro!: no_bound_intros)
qed

interpretation recover: handler E keys "recover E" for E :: "('t, 'g, 'd) env" and keys
proof unfold_locales
  fix r :: "('t, 'd) replica" and m r' m' k
  assume coh: "coherent keys r" and m: "sized_deps (m_deps m)" and res: "recover E r k m = Inr (r', m')"
  from res obtain i where Some: "r_insts r k = Some i" by (auto simp: recover_def eval_simps)
  note i = coherentD [OF coh Some]
  show "keeps keys r r' \<and> sized_deps (m_deps m')"
  proof (cases "case i_lt i of Some lt \<Rightarrow> Some lt | None \<Rightarrow> if alloc_tracker E then Some new_tracker else None")
    case None
    then show ?thesis using res m coh Some by (simp add: recover_def eval_simps keeps_refl)
  next
    case lt: (Some lt)
    then have "wf_tracker lt"
      using i(3,4) by (auto simp: wf_tracker_def split: option.splits if_splits)
         (simp_all add: new_tracker_def)
    with lt Some i m res show ?thesis
      by (auto simp: recover_def eval_simps wf_inst_defs intro!: keeps_intros keeps_refl coh)
  qed
next
  fix r :: "('t, 'd) replica" and m k
  show "no_bound (recover E r k m)"
    by (auto simp: recover_def arm_timeout_def init_timeout_def Let_def intro!: no_bound_intros
        split: option.split)
qed

lemma sd_for_command_ends:
  assumes "index_laws (env_tree E) keys" and "small E keys r"
  shows "no_bound (sd_for_command E r cp ignore p)"
  using assms unfolding sd_for_command_def
  by (auto simp: small_def aget_eq_Inr intro!: no_bound_intros walks_no_bound(1))

lemma clear_ends:
  fixes r :: "('t, 'd) replica"
  assumes "index_laws (env_tree E) keys" and "small E keys r"
  shows "no_bound (clear E r)"
proof -
  let ?f = "\<lambda>rc (r :: ('t, 'd) replica). and_then (aget (r_index r) rc) (\<lambda>t.
         and_then (clear_index (env_tree E) (of_nat rc) (t, r_insts r, r_cmds r))
           (\<lambda>(t', insts', cmds').
              Inr (r\<lparr>r_index := (r_index r)[rc := t'], r_insts := insts', r_cmds := cmds'\<rparr>)))"
  have "small E keys r \<Longrightarrow> no_bound (for_each js ?f r)" for js and r :: "('t, 'd) replica"
  proof (induction js arbitrary: r)
    case (Cons j js)
    have "no_bound (?f j r)"
      using Cons.prems
      by (auto simp: small_def aget_eq_Inr intro!: no_bound_intros walks_no_bound(3) [OF assms(1)])
    moreover have "small E keys s" if s: "?f j r = Inr s" for s
    proof -
      from s obtain t' insts' cmds' where j: "j < length (r_index r)"
        and c: "clear_index (env_tree E) (of_nat j) (r_index r ! j, r_insts r, r_cmds r) = Inr (t', insts', cmds')"
        and "s = r\<lparr>r_index := (r_index r)[j := t'], r_insts := insts', r_cmds := cmds'\<rparr>"
        by (auto elim!: and_thenE simp: aget_eq_Inr split: prod.splits)
      moreover have "card (keys t') \<le> card (keys (r_index r ! j))"
        by (intro card_mono) (simp_all add: cleared_at(4) [OF clear_index_walk [OF assms(1) c]])
      ultimately show ?thesis
        using Cons.prems j unfolding small_def
        by (auto dest!: set_update_subset_insert [THEN subsetD] intro: le_trans)
    qed
    ultimately show ?case by (auto intro!: no_bound_intros Cons.IH simp del: and_then_eq_Inr)
  qed simp
  then show ?thesis using assms(2) by (simp add: clear_def)
qed

interpretation phase1: handler E keys "phase1 E" for E :: "('t, 'g, 'd) env" and keys
proof unfold_locales
  fix r :: "('t, 'd) replica" and m r' m' k
  assume laws: "index_laws (env_tree E) keys" and coh: "coherent keys r" and m: "sized_deps (m_deps m)"
    and res: "phase1 E r k m = Inr (r', m')"
  from res obtain i s cmds' p lt where i: "r_insts r k = Some i"
    and sd: "sd_for_command E (emit (Timeouts_del (Instance_timer k)) (set_inst k (instance_reset i) r))
      (m_command m) (Some (i_key i)) \<lparr>updated = 0, p_deps = zero_deps\<rparr> = Inr (s, cmds', p)"
    and lt: "i_lt i = Some lt"
    by (fastforce simp: phase1_def eval_simps instance_reset_def)
  have p: "sized_deps (p_deps p)" using sd_for_command_wf [OF laws sd] by simp
  note i' = coherentD [OF coh i]
  show "keeps keys r r' \<and> sized_deps (m_deps m')"
    using res i sd lt p i' i'(3,4) [OF lt]
    by (auto simp: phase1_def eval_simps wf_inst_defs instance_reset_def
        intro!: keeps_intros keeps_refl coh)
next
  fix r :: "('t, 'd) replica" and m k
  assume "index_laws (env_tree E) keys" and "small E keys r"
  then show "no_bound (phase1 E r k m)"
    by (auto simp: phase1_def arm_timeout_def init_fp_timeout_def Let_def
        intro!: no_bound_intros sd_for_command_ends split: option.split)
qed

lemma keeps_clear_from:
  assumes "index_laws (env_tree E) keys" and "keeps keys r0 r"
    and "(if c then clear E r else Inr r) = Inr r'"
  shows "keeps keys r0 r'"
proof (cases c)
  case True
  then have "keeps keys r r'"
    using assms(3) keeps_clear [OF assms(1) coherent_keeps [OF assms(2)]] by simp
  with assms(2) show ?thesis by (rule keeps_trans)
next
  case False
  then show ?thesis using assms(2,3) by simp
qed

text \<open>The middle of \<^verbatim>\<open>pre_accept\<close>: the dependencies are joined and the trees may be cleared.\<close>

lemma keeps_joined:
  assumes laws: "index_laws (env_tree E) keys" and coh: "coherent keys r" and i: "r_insts r k = Some i"
    and sd: "sd_for_command E r cp ignore \<lparr>updated = 0, p_deps = i_deps i\<rparr> = Inr (s, cmds', p)"
    and cl: "(if c then clear E (set_inst k i' (r\<lparr>r_cmds := cmds'\<rparr>))
              else Inr (set_inst k i' (r\<lparr>r_cmds := cmds'\<rparr>))) = Inr r2"
    and i': "i_key i' = i_key i" "i_deps i' = p_deps p" "i_lt i' = i_lt i"
  shows "keeps keys r r2 \<and> sized_deps (p_deps p)"
proof -
  have p: "sized_deps (p_deps p)" using sd_for_command_wf [OF laws sd] coherentD(2) [OF coh i] by simp
  have "wf_inst k i'" using coherentD [OF coh i] p i' by (auto simp: wf_inst_defs)
  then have "keeps keys r (set_inst k i' (r\<lparr>r_cmds := cmds'\<rparr>))"
    using i by (intro keeps_intros keeps_refl coh) simp_all
  then have "keeps keys r r2" using cl by (rule keeps_clear_from [OF laws])
  then show ?thesis using p ..
qed

interpretation pre_accept: handler E keys "pre_accept E" for E :: "('t, 'g, 'd) env" and keys
proof unfold_locales
  fix r :: "('t, 'd) replica" and m r' m' k
  assume laws: "index_laws (env_tree E) keys" and coh: "coherent keys r" and m: "sized_deps (m_deps m)"
    and res: "pre_accept E r k m = Inr (r', m')"
  have "yields (\<lambda>(r', m'). keeps keys r r' \<and> sized_deps (m_deps m')) (pre_accept E r k m)"
    unfolding pre_accept_def Let_def send_io_def
    apply (intro yields_intros; clarsimp simp only: prod.case load_eq_Inr)
    subgoal using m coh by (simp add: keeps_refl)
    subgoal using m coh by (simp add: keeps_refl)
    subgoal using coherentD(2) [OF coh] coh by (auto intro!: keeps_intros keeps_refl)
    subgoal by (drule (2) keeps_joined [OF laws coh]) (auto intro!: keeps_intros)
    subgoal using m by - (drule (2) keeps_joined [OF laws coh], auto intro!: keeps_intros)
    done
  with res show "keeps keys r r' \<and> sized_deps (m_deps m')" by (auto dest: yieldsD)
next
  fix r :: "('t, 'd) replica" and m k
  assume "index_laws (env_tree E) keys" and "small E keys r"
  then show "no_bound (pre_accept E r k m)"
    by (auto simp: pre_accept_def Let_def intro!: no_bound_intros sd_for_command_ends clear_ends)
qed

interpretation accept: handler E keys "accept E" for E :: "('t, 'g, 'd) env" and keys
proof unfold_locales
  fix r :: "('t, 'd) replica" and m r' m' k
  assume laws: "index_laws (env_tree E) keys" and coh: "coherent keys r" and m: "sized_deps (m_deps m)"
    and res: "accept E r k m = Inr (r', m')"
  from res obtain i where i: "r_insts r k = Some i" by (auto simp: accept_def eval_simps)
  note i' = coherentD [OF coh i]
  show "keeps keys r r' \<and> sized_deps (m_deps m')"
  proof (cases "is_state (i_status i) (COMMITTED OR EXECUTED) \<or> m_ballot m < i_ballot i")
    case True
    then show ?thesis
      using res i m coh by (auto simp: accept_def eval_simps intro!: keeps_intros keeps_refl split: if_splits)
  next
    case False
    let ?i = "i\<lparr>i_status := ACCEPTED, i_ballot := m_ballot m, i_seq := m_seq m, i_deps := m_deps m\<rparr>"
    from False res i obtain r2 where
      cl: "(if m_command m = None then clear E (set_inst k ?i r) else Inr (set_inst k ?i r)) = Inr r2"
      and m': "m' = m\<lparr>m_type := ACCEPT_REPLY\<rparr>" and r': "r' = emit (Send_io m') r2"
      by (auto simp: accept_def eval_simps split: if_splits)
    have "wf_inst k ?i" using m i' by (auto simp: wf_inst_defs)
    then have "keeps keys r r2" using i
      by (intro keeps_clear_from [OF laws _ cl] keeps_intros keeps_refl coh) simp_all
    then show ?thesis using m' r' m by (auto intro!: keeps_intros)
  qed
next
  fix r :: "('t, 'd) replica" and m k
  assume "index_laws (env_tree E) keys" and "small E keys r"
  then show "no_bound (accept E r k m)"
    by (auto simp: accept_def Let_def intro!: no_bound_intros clear_ends)
qed

interpretation pre_accept_ok: handler E keys pre_accept_ok for E :: "('t, 'g, 'd) env" and keys
proof unfold_locales
  fix r :: "('t, 'd) replica" and m r' m' k
  assume laws: "index_laws (env_tree E) keys" and coh: "coherent keys r" and m: "sized_deps (m_deps m)"
    and res: "pre_accept_ok r k m = Inr (r', m')"
  from res obtain i where i: "r_insts r k = Some i" by (auto simp: pre_accept_ok_def eval_simps)
  note i' = coherentD [OF coh i]
  show "keeps keys r r' \<and> sized_deps (m_deps m')"
    using res i i' m coh
    by (auto simp: pre_accept_ok_def eval_simps wf_inst_defs split: if_splits
        intro!: keeps_intros keeps_refl elim!: do_commit.after [OF laws, rotated 2])
next
  fix r :: "('t, 'd) replica" and m k
  assume "index_laws (env_tree E) keys" and "small E keys r"
  then show "no_bound (pre_accept_ok r k m)"
    by (auto simp: pre_accept_ok_def Let_def intro!: no_bound_intros do_commit.ends)
qed

lemma tracker_update:
  assumes "wf_inst k i" and "wf_tracker lt"
  shows "wf_inst k (i\<lparr>i_lt := Some lt\<rparr>)"
  using assms by (simp add: wf_inst_def)

lemma keeps_tracker:
  assumes "coherent keys r" and "r_insts r k = Some i" and "wf_tracker lt"
  shows "keeps keys r (set_inst k (i\<lparr>i_lt := Some lt\<rparr>) r)"
  using assms coherent_wf_inst [OF assms(1,2)] by (intro keeps_intros keeps_refl tracker_update) simp_all

lemma coherent_tracker:
  "coherent keys r \<Longrightarrow> r_insts r k = Some i \<Longrightarrow> i_lt i = Some lt \<Longrightarrow> wf_tracker lt"
  using coherent_wf_inst by (fastforce simp: wf_inst_def)

interpretation nack_reply: handler E keys "nack_reply E" for E :: "('t, 'g, 'd) env" and keys
proof unfold_locales
  fix r :: "('t, 'd) replica" and m r' m' k
  assume laws: "index_laws (env_tree E) keys" and coh: "coherent keys r" and m: "sized_deps (m_deps m)"
    and res: "nack_reply E r k m = Inr (r', m')"
  from res obtain i lt where i: "r_insts r k = Some i" and lt: "i_lt i = Some lt"
    by (auto simp: nack_reply_def and_then_eq_Inr)
  have upd: "keeps keys r (set_inst k (i\<lparr>i_lt := Some lt'\<rparr>) r)"
    if "lt_quorum lt' = lt_quorum lt" "lt_ri lt' = lt_ri lt" for lt'
    using coherent_tracker [OF coh i lt] that by (intro keeps_tracker [OF coh i]) (simp add: wf_tracker_def)
  have "yields (\<lambda>(r', m'). keeps keys r r' \<and> sized_deps (m_deps m')) (nack_reply E r k m)"
    unfolding nack_reply_def load_Some [of "r_insts r", OF i] lt and_then_Inr deref_simps Let_def
    by (intro yields_intros yieldsI)
       (auto intro: upd simp: m dest!: recover.after [OF laws upd m, rotated 2])
  with res show "keeps keys r r' \<and> sized_deps (m_deps m')" by (auto dest: yieldsD)
next
  fix r :: "('t, 'd) replica" and m k
  assume "index_laws (env_tree E) keys" and "small E keys r"
  then show "no_bound (nack_reply E r k m)"
    by (auto simp: nack_reply_def Let_def intro!: no_bound_intros recover.ends)
qed

interpretation pre_accept_reply: handler E keys "pre_accept_reply E" for E :: "('t, 'g, 'd) env" and keys
proof unfold_locales
  fix r :: "('t, 'd) replica" and m r' m' k
  assume laws: "index_laws (env_tree E) keys" and coh: "coherent keys r" and m: "sized_deps (m_deps m)"
    and res: "pre_accept_reply E r k m = Inr (r', m')"
  have upd: "keeps keys r (set_inst k j r)"
    if "r_insts r k = Some i" "i_lt i = Some lt" "reply_deps (m_deps m) (i_deps i, e) = (ds, e')"
      "i_key j = i_key i" "i_deps j = ds" "i_lt j = Some (lt\<lparr>lt_pre_accept_oks := n, lt_equal := q\<rparr>)"
    for i j lt n q e e' ds
  proof -
    have "sized_deps ds"
      using reply_deps_wf [of "i_deps i" "m_deps m" e] coherentD(2) [OF coh that(1)] that(3) by simp
    then have "wf_inst k j"
      using coherent_wf_inst [OF coh that(1)] coherent_tracker [OF coh that(1,2)] that(4-6)
      by (simp add: wf_inst_def wf_tracker_def)
    then show ?thesis using that(1) coh by (intro keeps_intros keeps_refl) simp_all
  qed
  have "yields (\<lambda>(r', m'). keeps keys r r' \<and> sized_deps (m_deps m')) (pre_accept_reply E r k m)"
    unfolding pre_accept_reply_def Let_def send_io_def
    apply (intro yields_intros yieldsI; simp only: split_paired_all prod.case load_eq_Inr deref_eq_Inr)
    subgoal using m coh by (simp add: keeps_refl)
    subgoal using nack_reply.keeps_step [OF laws coh m] by blast
    subgoal by (erule do_commit.after [OF laws _ m, rotated], erule (2) upd; simp)
    subgoal by (intro conjI keeps_emit, erule (2) upd; simp add: m)
    subgoal by (intro conjI, erule (2) upd; simp add: m)
    done
  with res show "keeps keys r r' \<and> sized_deps (m_deps m')" by (auto dest: yieldsD)
next
  fix r :: "('t, 'd) replica" and m k
  assume "index_laws (env_tree E) keys" and "small E keys r"
  then show "no_bound (pre_accept_reply E r k m)"
    by (auto simp: pre_accept_reply_def Let_def intro!: no_bound_intros nack_reply.ends do_commit.ends
        split: prod.split)
qed

interpretation accept_reply: handler E keys "accept_reply E" for E :: "('t, 'g, 'd) env" and keys
proof unfold_locales
  fix r :: "('t, 'd) replica" and m r' m' k
  assume laws: "index_laws (env_tree E) keys" and coh: "coherent keys r" and m: "sized_deps (m_deps m)"
    and res: "accept_reply E r k m = Inr (r', m')"
  have upd: "keeps keys r (set_inst k (i\<lparr>i_lt := Some (lt\<lparr>lt_accept_oks := n\<rparr>)\<rparr>) r)"
    if "r_insts r k = Some i" "i_lt i = Some lt" for i lt n
    using coherent_tracker [OF coh that] by (intro keeps_tracker [OF coh that(1)]) (simp add: wf_tracker_def)
  have "yields (\<lambda>(r', m'). keeps keys r r' \<and> sized_deps (m_deps m')) (accept_reply E r k m)"
    unfolding accept_reply_def Let_def
    apply (intro yields_intros yieldsI; simp only: split_paired_all prod.case load_eq_Inr deref_eq_Inr)
    subgoal using m coh by (simp add: keeps_refl)
    subgoal using nack_reply.keeps_step [OF laws coh m] by blast
    subgoal using do_commit.after [OF laws upd m] by blast
    subgoal using m upd by blast
    done
  with res show "keeps keys r r' \<and> sized_deps (m_deps m')" by (auto dest: yieldsD)
next
  fix r :: "('t, 'd) replica" and m k
  assume "index_laws (env_tree E) keys" and "small E keys r"
  then show "no_bound (accept_reply E r k m)"
    by (auto simp: accept_reply_def Let_def intro!: no_bound_intros nack_reply.ends do_commit.ends)
qed

interpretation prepare: handler E keys prepare for E :: "('t, 'g, 'd) env" and keys
proof unfold_locales
  fix r :: "('t, 'd) replica" and m r' m' k
  assume laws: "index_laws (env_tree E) keys" and coh: "coherent keys r" and m: "sized_deps (m_deps m)"
    and res: "prepare r k m = Inr (r', m')"
  from res obtain i where "r_insts r k = Some i" by (auto simp: prepare_def and_then_eq_Inr)
  with coherentD [OF coh this] coherent_wf_inst [OF coh this] res m coh
  show "keeps keys r r' \<and> sized_deps (m_deps m')"
    by (auto simp: prepare_def eval_simps wf_inst_def intro!: keeps_intros keeps_refl split: if_splits)
qed (auto simp: prepare_def Let_def intro!: no_bound_intros)

interpretation commit: handler E keys commit for E :: "('t, 'g, 'd) env" and keys
proof unfold_locales
  fix r :: "('t, 'd) replica" and m r' m' k
  assume laws: "index_laws (env_tree E) keys" and coh: "coherent keys r" and m: "sized_deps (m_deps m)"
    and res: "commit r k m = Inr (r', m')"
  from res obtain i where "r_insts r k = Some i" by (auto simp: commit_def eval_simps)
  with coherentD [OF coh this] coherent_wf_inst [OF coh this] res m coh
  show "keeps keys r r' \<and> sized_deps (m_deps m')"
    by (auto simp: commit_def eval_simps wf_inst_def intro!: keeps_intros keeps_refl)
qed (auto simp: commit_def send_exec_def Let_def intro!: no_bound_intros)

end
