(* ===== verification/Epx_Reachable.thy ===== *)
theory Epx_Reachable
  imports Epx_Invariant
begin

text \<open>
  The contract of \<open>Epx_Invariant\<close> for the recovery handlers and for \<^verbatim>\<open>progress\<close>, then the
  entry points \<^verbatim>\<open>step\<close>, \<^verbatim>\<open>propose\<close> and \<^verbatim>\<open>tick\<close>, and the states a replica can reach.
\<close>

section \<open>Recovery\<close>

lemma note_reply_wf:
  "wf_tracker lt \<Longrightarrow> sized_deps (m_deps m) \<Longrightarrow> wf_tracker (note_reply i m lt)"
  by (simp add: note_reply_def update_recovery_instance_def wf_tracker_def Let_def)

lemma pac_conflict_loop_ends:
  assumes "index_laws (env_tree E) keys" and "small E keys r"
  shows "no_bound (pac_conflict_loop E r i cp seq deps rcs cmds)"
  using assms
  by (induction rcs arbitrary: cmds)
     (auto simp: small_def aget_eq_Inr intro!: no_bound_intros walks_no_bound(2) split: option.split)

lemma conflict_ends:
  assumes "index_laws (env_tree E) keys" and "small E keys r"
  shows "no_bound (pac_conflict E r i cp seq deps)" and "no_bound (find_conflict E r i cp seq deps)"
  using pac_conflict_loop_ends [OF assms] by (simp_all add: find_conflict_def pac_conflict_def)

lemma noop_ends: "no_bound (noop E r k)"
  by (auto simp: noop_def index_at_def noop_dep_def intro!: no_bound_intros split: option.split)

text \<open>The four continuations of \<^verbatim>\<open>prepare_reply\<close>, on the instance as it is in the heap.\<close>

lemma keeps_recover_noop:
  assumes coh: "coherent keys r" and i: "r_insts r k = Some i" and lt: "i_lt i = Some lt"
    and res: "recover_noop E r k i lt m = Inr (r', m')"
  shows "keeps keys r r' \<and> sized_deps (m_deps m')"
proof -
  have "wf_tracker lt" by (rule coherent_tracker [OF coh i lt])
  then show ?thesis
    using res coherentD [OF coh i] i coh
    by (auto simp: recover_noop_def eval_simps wf_inst_defs noop_wf intro!: keeps_intros keeps_refl)
qed

lemma keeps_recover_accept:
  assumes coh: "coherent keys r" and i: "r_insts r k = Some i" and lt: "i_lt i = Some lt"
    and res: "recover_accept r k i lt m = Inr (r', m')"
  shows "keeps keys r r' \<and> sized_deps (m_deps m')"
proof -
  have "wf_tracker lt" by (rule coherent_tracker [OF coh i lt])
  then show ?thesis
    using res coherentD [OF coh i] i coh
    by (auto simp: recover_accept_def eval_simps wf_inst_defs intro!: keeps_intros keeps_refl)
qed

lemma keeps_recover_restart:
  assumes laws: "index_laws (env_tree E) keys" and coh: "coherent keys r" and i: "r_insts r k = Some i"
    and lt: "i_lt i = Some lt" and m: "sized_deps (m_deps m)"
    and res: "recover_restart E r k i lt m = Inr (r', m')"
  shows "keeps keys r r' \<and> sized_deps (m_deps m')"
proof (rule phase1.after [OF laws _ _ res [unfolded recover_restart_def]])
  show "keeps keys r (set_inst k (i\<lparr>i_lt := Some (lt\<lparr>lt_recovery_status := NONE\<rparr>)\<rparr>) r)"
    using coherent_tracker [OF coh i lt] by (intro keeps_tracker [OF coh i]) (simp add: wf_tracker_def)
qed (simp add: m)

lemma keeps_recover_try:
  assumes laws: "index_laws (env_tree E) keys" and coh: "coherent keys r" and i: "r_insts r k = Some i"
    and lt: "i_lt i = Some lt" and m: "sized_deps (m_deps m)"
    and res: "recover_try E r k i lt m = Inr (r', m')"
  shows "keeps keys r r' \<and> sized_deps (m_deps m')"
proof -
  have w: "wf_tracker lt" by (rule coherent_tracker [OF coh i lt])
  let ?lt = "lt\<lparr>lt_pre_accept_oks := 0, lt_nacks := 0, lt_quorum := replicate N 1\<rparr>"
  let ?r = "set_inst k (i\<lparr>i_lt := Some ?lt\<rparr>) r"
  have r1: "keeps keys r (?r\<lparr>r_cmds := c\<rparr>)" for c
    using w by (intro keeps_cmds keeps_tracker [OF coh i]) (simp add: wf_tracker_def)
  have upd: "keeps keys r (set_inst k j (?r\<lparr>r_cmds := c\<rparr>)) \<and> sized_deps (i_deps j)"
    if "i_key j = i_key i" "i_deps j = i_deps i \<or> i_deps j = ri_deps (lt_ri lt)"
      "\<exists>lt'. i_lt j = Some lt' \<and> length (lt_quorum lt') = N \<and> lt_ri lt' = lt_ri lt" for j c
  proof -
    have "wf_inst k j" using that w coherentD [OF coh i] by (auto simp: wf_inst_defs)
    then show ?thesis by (intro conjI keeps_set_inst [OF r1]) (simp_all add: wf_inst_def)
  qed
  have "yields (\<lambda>(r', m'). keeps keys r r' \<and> sized_deps (m_deps m')) (recover_try E r k i lt m)"
    unfolding recover_try_def Let_def send_io_def
    apply (intro yields_intros yieldsI; simp only: split_paired_all prod.case load_eq_Inr aset_eq_Inr)
    subgoal using upd w coherentD(2) [OF coh i] by (auto intro!: keeps_emit simp: wf_tracker_def)
    subgoal by (erule phase1.after [OF laws r1, rotated]) (simp add: m)
    subgoal using upd w coherentD(2) [OF coh i] by (auto intro!: keeps_emit simp: wf_tracker_def)
    done
  with res show ?thesis by (auto dest: yieldsD)
qed

interpretation prepare_reply: handler E keys "prepare_reply E" for E :: "('t, 'g, 'd) env" and keys
proof unfold_locales
  fix r :: "('t, 'd) replica" and m r' m' k
  assume laws: "index_laws (env_tree E) keys" and coh: "coherent keys r" and m: "sized_deps (m_deps m)"
    and res: "prepare_reply E r k m = Inr (r', m')"
  have upd: "keeps keys r (set_inst k (i\<lparr>i_lt := Some lt'\<rparr>) r)"
    if "r_insts r k = Some i" "i_lt i = Some lt" "wf_tracker lt \<Longrightarrow> wf_tracker lt'" for i lt lt'
    using keeps_tracker [OF coh that(1)] coherent_tracker [OF coh that(1,2)] that(3) by blast
  have note_wf: "wf_tracker lt \<Longrightarrow> wf_tracker (note_reply i m (lt\<lparr>lt_prepare_oks := n\<rparr>))" for lt i n
    using m by (intro note_reply_wf) (simp_all add: wf_tracker_def)
  have go_on: "keeps keys r r2 \<and> sized_deps (m_deps m2)"
    if "r_insts r k = Some i" "i_lt i = Some lt"
      "coherent keys (set_inst k (i\<lparr>i_lt := Some (note_reply i m (lt\<lparr>lt_prepare_oks := n\<rparr>))\<rparr>) r) \<Longrightarrow>
       keeps keys (set_inst k (i\<lparr>i_lt := Some (note_reply i m (lt\<lparr>lt_prepare_oks := n\<rparr>))\<rparr>) r) r2
         \<and> sized_deps (m_deps m2)" for i lt n r2 m2
    using upd [OF that(1,2) note_wf] that(3) coherent_keeps keeps_trans by blast
  have "yields (\<lambda>(r', m'). keeps keys r r' \<and> sized_deps (m_deps m')) (prepare_reply E r k m)"
    unfolding prepare_reply_def Let_def
    apply (intro yields_intros yieldsI; simp only: split_paired_all prod.case load_eq_Inr)
    subgoal using coh m by (simp add: keeps_refl)
    subgoal using coh m by (simp add: keeps_refl)
    subgoal using m by (intro conjI upd) (simp_all add: wf_tracker_def)
    subgoal for i lt
      apply (erule do_commit.after [OF laws, rotated 2])
      subgoal using coherentD [OF coh, of k i] coherent_tracker [OF coh, of k i lt] m coh
        by (auto intro!: keeps_set_inst keeps_refl simp: wf_inst_defs)
      using m by simp
    subgoal by (intro conjI, erule (1) upd, erule note_wf, rule m)
    subgoal by (rule go_on, assumption, assumption, erule keeps_recover_noop [rotated 3]) simp_all
    subgoal by (rule go_on, assumption, assumption, erule keeps_recover_accept [rotated 3]) simp_all
    subgoal by (rule go_on, assumption, assumption, erule keeps_recover_try [OF laws, rotated 4]) (simp_all add: m)
    subgoal by (rule go_on, assumption, assumption, erule keeps_recover_restart [OF laws, rotated 4]) (simp_all add: m)
    done
  with res show "keeps keys r r' \<and> sized_deps (m_deps m')" by (auto dest: yieldsD)
next
  fix r :: "('t, 'd) replica" and m k
  assume "index_laws (env_tree E) keys" and "small E keys r"
  then show "no_bound (prepare_reply E r k m)"
    by (auto simp: prepare_reply_def recover_noop_def recover_accept_def recover_try_def
        recover_restart_def Let_def intro!: no_bound_intros phase1.ends noop_ends conflict_ends do_commit.ends
        split: option.split)
qed

interpretation try_pre_accept: handler E keys "try_pre_accept E" for E :: "('t, 'g, 'd) env" and keys
proof unfold_locales
  fix r :: "('t, 'd) replica" and m r' m' k
  assume laws: "index_laws (env_tree E) keys" and coh: "coherent keys r" and m: "sized_deps (m_deps m)"
    and res: "try_pre_accept E r k m = Inr (r', m')"
  have upd: "keeps keys r (set_inst k j (r\<lparr>r_cmds := c\<rparr>))"
    if "r_insts r k = Some i" "i_key j = i_key i" "i_deps j = m_deps m" "i_lt j = i_lt i" for i j c
  proof -
    have "wf_inst k j" using that coherent_wf_inst [OF coh that(1)] m by (auto simp: wf_inst_def)
    then show ?thesis using that(1) by (intro keeps_intros keeps_refl coh) simp_all
  qed
  have "yields (\<lambda>(r', m'). keeps keys r r' \<and> sized_deps (m_deps m')) (try_pre_accept E r k m)"
    unfolding try_pre_accept_def Let_def send_io_def
    apply (intro yields_intros yieldsI; simp only: split_paired_all prod.case load_eq_Inr)
    subgoal using m coh by (auto intro!: keeps_intros keeps_refl)
    subgoal by (intro conjI keeps_emit, erule upd) (simp_all add: m)
    subgoal using m coh by (auto intro!: keeps_intros keeps_refl)
    done
  with res show "keeps keys r r' \<and> sized_deps (m_deps m')" by (auto dest: yieldsD)
next
  fix r :: "('t, 'd) replica" and m k
  assume "index_laws (env_tree E) keys" and "small E keys r"
  then show "no_bound (try_pre_accept E r k m)"
    by (auto simp: try_pre_accept_def Let_def intro!: no_bound_intros conflict_ends split: option.split)
qed

text \<open>The three tests at the end of \<^verbatim>\<open>try_pre_accept_reply\<close>, as handlers of their own.\<close>

lemma phase1_index: "phase1 E r k m = Inr (r', m') \<Longrightarrow> r_index r' = r_index r"
  by (auto simp: phase1_def eval_simps)

lemma tracker_of_eq: "tracker_of r k = Inr (i, lt) \<longleftrightarrow> r_insts r k = Some i \<and> i_lt i = Some lt"
  by (auto simp: tracker_of_def and_then_eq_Inr)

lemma keeps_recovery_done:
  assumes "coherent keys r" and "tracker_of r k = Inr (i, lt)"
  shows "keeps keys r (set_inst k (i\<lparr>i_lt := Some (lt\<lparr>lt_recovery_status := s\<rparr>)\<rparr>) r)"
  using assms coherent_tracker [OF assms(1), of k i lt]
  by (intro keeps_tracker) (simp_all add: tracker_of_eq wf_tracker_def)

interpretation try_restart: handler E keys "\<lambda>r k m. try_restart E nq k (r, m)"
  for E :: "('t, 'g, 'd) env" and keys nq
proof unfold_locales
  fix r :: "('t, 'd) replica" and m r' m' k
  assume laws: "index_laws (env_tree E) keys" and coh: "coherent keys r" and m: "sized_deps (m_deps m)"
    and res: "try_restart E nq k (r, m) = Inr (r', m')"
  have "yields (\<lambda>(r', m'). keeps keys r r' \<and> sized_deps (m_deps m')) (try_restart E nq k (r, m))"
    unfolding try_restart_def prod.case
    apply (intro yields_intros yieldsI; simp only: split_paired_all prod.case)
    subgoal by (erule phase1.after [OF laws keeps_recovery_done [OF coh], rotated 2]) (simp_all add: m)
    subgoal using m coh by (simp add: keeps_refl)
    done
  with res show "keeps keys r r' \<and> sized_deps (m_deps m')" by (auto dest: yieldsD)
next
  fix r :: "('t, 'd) replica" and m k
  assume "index_laws (env_tree E) keys" and "small E keys r"
  then show "no_bound (try_restart E nq k (r, m))"
    by (auto simp: try_restart_def tracker_of_def intro!: no_bound_intros phase1.ends)
qed

interpretation try_deferred: handler E keys "\<lambda>r k m. try_deferred E nq ri k (r, m)"
  for E :: "('t, 'g, 'd) env" and keys nq ri
proof unfold_locales
  fix r :: "('t, 'd) replica" and m r' m' k
  assume laws: "index_laws (env_tree E) keys" and coh: "coherent keys r" and m: "sized_deps (m_deps m)"
    and res: "try_deferred E nq ri k (r, m) = Inr (r', m')"
  have "yields (\<lambda>(r', m'). keeps keys r r' \<and> sized_deps (m_deps m')) (try_deferred E nq ri k (r, m))"
    unfolding try_deferred_def prod.case
    apply (intro yields_intros yieldsI; simp only: split_paired_all prod.case)
    subgoal using m coh by (simp add: keeps_refl)
    subgoal by (erule phase1.after [OF laws keeps_recovery_done [OF coh], rotated 2]) (simp_all add: m)
    subgoal using m coh by (simp add: keeps_refl)
    subgoal using m coh by (simp add: keeps_refl)
    done
  with res show "keeps keys r r' \<and> sized_deps (m_deps m')" by (auto dest: yieldsD)
next
  fix r :: "('t, 'd) replica" and m k
  assume "index_laws (env_tree E) keys" and "small E keys r"
  then show "no_bound (try_deferred E nq ri k (r, m))"
    by (auto simp: try_deferred_def tracker_of_def intro!: no_bound_intros phase1.ends split: option.split)
qed

interpretation try_defer: handler E keys "\<lambda>r k m. try_defer E k (r, m)"
  for E :: "('t, 'g, 'd) env" and keys
proof unfold_locales
  fix r :: "('t, 'd) replica" and m r' m' k
  assume laws: "index_laws (env_tree E) keys" and coh: "coherent keys r" and m: "sized_deps (m_deps m)"
    and res: "try_defer E k (r, m) = Inr (r', m')"
  have "yields (\<lambda>(r', m'). keeps keys r r' \<and> sized_deps (m_deps m')) (try_defer E k (r, m))"
    unfolding try_defer_def prod.case
    apply (intro yields_intros yieldsI; simp only: split_paired_all prod.case)
    subgoal by (intro conjI, erule keeps_init_timeout(1) [rotated], intro keeps_intros keeps_refl coh, rule m)
    subgoal using m coh by (simp add: keeps_refl)
    done
  with res show "keeps keys r r' \<and> sized_deps (m_deps m')" by (auto dest: yieldsD)
next
  fix r :: "('t, 'd) replica" and m k
  show "no_bound (try_defer E k (r, m))"
    by (auto simp: try_defer_def tracker_of_def init_timeout_def arm_timeout_def intro!: no_bound_intros)
qed

lemma try_restart_index: "try_restart E nq k (r, m) = Inr (r', m') \<Longrightarrow> r_index r' = r_index r"
  by (auto simp: try_restart_def elim!: and_thenE dest!: phase1_index split: if_splits)

lemma try_deferred_index: "try_deferred E nq ri k (r, m) = Inr (r', m') \<Longrightarrow> r_index r' = r_index r"
  by (auto simp: try_deferred_def elim!: and_thenE dest!: phase1_index split: if_splits option.splits)

interpretation try_pre_accept_reply: handler E keys "try_pre_accept_reply E"
  for E :: "('t, 'g, 'd) env" and keys
proof unfold_locales
  fix r :: "('t, 'd) replica" and m r' m' k
  assume laws: "index_laws (env_tree E) keys" and coh: "coherent keys r" and m: "sized_deps (m_deps m)"
    and res: "try_pre_accept_reply E r k m = Inr (r', m')"
  have upd: "keeps keys r (set_inst k j r) \<and> sized_deps (ri_deps (lt_ri lt))"
    if "r_insts r k = Some i" "i_lt i = Some lt" "i_key j = i_key i"
      "wf_tracker lt \<Longrightarrow> \<exists>lt'. i_lt j = Some lt' \<and> wf_tracker lt'"
      "i_deps j = i_deps i \<or> i_deps j = ri_deps (lt_ri lt)" for i lt j
  proof -
    note w = coherent_tracker [OF coh that(1,2)]
    then have "wf_inst k j"
      using that(3-5) coherent_wf_inst [OF coh that(1)] by (auto simp: wf_inst_def wf_tracker_def)
    then show ?thesis using that(1) w by (auto intro!: keeps_intros keeps_refl coh simp: wf_tracker_def)
  qed
  have tail: "keeps keys r r2 \<and> sized_deps (m_deps m2)"
    if s: "keeps keys r s" and st: "try_restart E nq k (s, m) = Inr st"
      "try_deferred E nq ri k st = Inr st'" "try_defer E k st' = Inr (r2, m2)" for s nq ri st st' r2 m2
  proof (cases st, cases st')
    fix ra ma rb mb
    assume eq: "st = (ra, ma)" "st' = (rb, mb)"
    note 1 = try_restart.after [OF laws s m st(1) [unfolded eq]]
    note 2 = try_deferred.after [OF laws 1 [THEN conjunct1] 1 [THEN conjunct2] st(2) [unfolded eq]]
    show ?thesis
      by (rule try_defer.after [OF laws 2 [THEN conjunct1] 2 [THEN conjunct2] st(3) [unfolded eq]])
  qed
  have "yields (\<lambda>(r', m'). keeps keys r r' \<and> sized_deps (m_deps m')) (try_pre_accept_reply E r k m)"
    unfolding try_pre_accept_reply_def Let_def send_io_def
    apply (intro yields_intros yieldsI; simp only: split_paired_all prod.case load_eq_Inr aset_eq_Inr)
    subgoal using coh m by (simp add: keeps_refl)
    subgoal using coh m by (simp add: keeps_refl)
    subgoal by (intro conjI keeps_emit, rule upd [THEN conjunct1]) (auto simp: m wf_tracker_def)
    subgoal by (intro conjI keeps_emit, rule upd [THEN conjunct1]) (auto simp: m wf_tracker_def)
    subgoal by (erule (2) tail [rotated], rule upd [THEN conjunct1]) (auto simp: wf_tracker_def)
    subgoal by (intro conjI keeps_emit, rule upd [THEN conjunct1]) (auto simp: m wf_tracker_def dest: upd [THEN conjunct2])
    subgoal by (intro conjI, rule upd [THEN conjunct1]) (auto simp: m wf_tracker_def)
    done
  with res show "keeps keys r r' \<and> sized_deps (m_deps m')" by (auto dest: yieldsD)
next
  fix r :: "('t, 'd) replica" and m k
  assume laws: "index_laws (env_tree E) keys" and sm: "small E keys r"
  have tail: "no_bound (and_then (try_restart E nq k (s, m)) (\<lambda>st.
      and_then (try_deferred E nq ri k st) (try_defer E k)))" if "r_index s = r_index r" for nq ri s
  proof -
    have "small E keys s" using sm that by (simp add: small_def)
    then show ?thesis
      using try_restart_index [of E nq k s m] laws
      by (auto intro!: no_bound_intros try_restart.ends try_deferred.ends try_defer.ends simp: small_def
          dest: try_deferred_index)
  qed
  show "no_bound (try_pre_accept_reply E r k m)"
    by (auto simp: try_pre_accept_reply_def Let_def intro!: no_bound_intros tail split: option.split)
qed

section \<open>Dispatch\<close>

interpretation progress: handler E keys "progress E" for E :: "('t, 'g, 'd) env" and keys
proof unfold_locales
  fix r :: "('t, 'd) replica" and m r' m' k
  assume a: "index_laws (env_tree E) keys" "coherent keys r" "sized_deps (m_deps m)"
    and "progress E r k m = Inr (r', m')"
  then show "keeps keys r r' \<and> sized_deps (m_deps m')"
    using phase1.keeps_step [OF a] pre_accept.keeps_step [OF a] pre_accept_reply.keeps_step [OF a]
      accept.keeps_step [OF a] commit.keeps_step [OF a] accept_reply.keeps_step [OF a]
      pre_accept_ok.keeps_step [OF a] prepare.keeps_step [OF a] prepare_reply.keeps_step [OF a]
      try_pre_accept.keeps_step [OF a] try_pre_accept_reply.keeps_step [OF a] keeps_refl [OF a(2)]
    by (cases "m_type m") (simp_all add: progress_def)
next
  fix r :: "('t, 'd) replica" and m k
  assume a: "index_laws (env_tree E) keys" "small E keys r"
  show "no_bound (progress E r k m)"
    using phase1.ends [OF a] pre_accept.ends [OF a] pre_accept_reply.ends [OF a] accept.ends [OF a]
      commit.ends [OF a] accept_reply.ends [OF a] pre_accept_ok.ends [OF a] prepare.ends [OF a]
      prepare_reply.ends [OF a] try_pre_accept.ends [OF a] try_pre_accept_reply.ends [OF a]
    by (cases "m_type m") (simp_all add: progress_def)
qed

section \<open>Entry points\<close>

text \<open>An entry point may register an instance, so the trees may grow.\<close>

definition serves :: "('t \<Rightarrow> u64 set) \<Rightarrow> ('t, 'd) replica \<Rightarrow> ('t, 'd) replica \<Rightarrow> bool" where
  "serves keys r r' \<longleftrightarrow> coherent keys r' \<and> r_id r' = r_id r \<and> (\<exists>es. r_out r' = r_out r @ es)"

lemma keeps_serves: "keeps keys r r' \<Longrightarrow> serves keys r r'"
  by (simp add: keeps_def serves_def frame_def)

lemma serves_trans: "serves keys a b \<Longrightarrow> serves keys b c \<Longrightarrow> serves keys a c"
  by (fastforce simp: serves_def)

lemma serves_refl: "coherent keys r \<Longrightarrow> serves keys r r"
  by (simp add: serves_def)

lemma serves_coherent: "serves keys r r' \<Longrightarrow> coherent keys r'"
  by (simp add: serves_def)

lemma serves_register:
  assumes laws: "index_laws (env_tree E) keys" and coh: "coherent keys r"
    and wf: "wf_inst (i_key i) i" and res: "register_instance E i r = Inr (r', b)"
  shows "serves keys r r'" and "b \<Longrightarrow> r_insts r' = (r_insts r)(i_key i \<mapsto> i)"
    and "b \<longleftrightarrow> r_insts r (i_key i) = None"
proof -
  let ?t = "r_index r ! unat (replica_id (i_key i))"
  have ag: "agree keys (r_index r) (r_insts r)" using coh by (simp add: coherent_def)
  from res obtain t' rej where u: "unat (replica_id (i_key i)) < N"
    and ins: "ix_insert (env_tree E) ?t (instance_id (i_key i)) = (t', rej)"
    and idx: "r_index r' = (r_index r)[unat (replica_id (i_key i)) := t']"
    and out: "r_id r' = r_id r" "r_out r' = r_out r"
    and heap: "b \<longleftrightarrow> rej = None" "r_insts r' = (if b then (r_insts r)(i_key i \<mapsto> i) else r_insts r)"
    using ag unfolding register_instance_def index_at_def agree_def
    by (auto simp: aget_eq_Inr Let_def elim!: and_thenE split: prod.splits option.splits)
  have t': "keys t' = insert (instance_id (i_key i)) (keys ?t)"
    and rej: "rej = (if instance_id (i_key i) \<in> keys ?t then Some (instance_id (i_key i)) else None)"
    using ix_insert_keys [OF laws, of ?t "instance_id (i_key i)"]
      ix_insert_old [OF laws, of ?t "instance_id (i_key i)"] ins by simp_all
  have old: "r_insts r (i_key i) \<noteq> None \<longleftrightarrow> instance_id (i_key i) \<in> keys ?t"
    using ag u unfolding agree_def by simp
  show b: "b \<longleftrightarrow> r_insts r (i_key i) = None" using heap(1) rej old by auto
  show "b \<Longrightarrow> r_insts r' = (r_insts r)(i_key i \<mapsto> i)" using heap(2) by simp
  have "agree keys (r_index r') (r_insts r')"
    unfolding agree_def
  proof (intro conjI allI)
    show "length (r_index r') = N" using ag idx by (simp add: agree_def)
    fix k
    have at: "r_insts r k \<noteq> None \<longleftrightarrow>
        unat (replica_id k) < N \<and> instance_id k \<in> keys (r_index r ! unat (replica_id k))"
      using ag unfolding agree_def by blast
    show "r_insts r' k \<noteq> None \<longleftrightarrow>
        unat (replica_id k) < N \<and> instance_id k \<in> keys (r_index r' ! unat (replica_id k))"
    proof (cases "replica_id k = replica_id (i_key i)")
      case True
      have "k = i_key i \<longleftrightarrow> instance_id k = instance_id (i_key i)"
        using True by (cases k; cases "i_key i") auto
      then show ?thesis using True at old b heap(2) t' u ag idx by (auto simp: agree_def)
    next
      case False
      then have "k \<noteq> i_key i" "unat (replica_id k) \<noteq> unat (replica_id (i_key i))"
        by (auto simp: word_unat_eq_iff)
      then show ?thesis using at heap(2) idx by simp
    qed
  qed
  then show "serves keys r r'"
    using coh wf heap(2) out by (auto simp: serves_def coherent_def)
qed

lemma new_instance_wf:
  "wf_inst k (new_instance\<lparr>i_key := k\<rparr>)" "wf_inst k (new_instance\<lparr>i_lt := Some new_tracker, i_key := k\<rparr>)"
  by (simp_all add: wf_inst_def new_instance_def)

lemma serves_progress:
  assumes laws: "index_laws (env_tree E) keys" and "serves keys r0 r" and "sized_deps (m_deps m)"
    and "progress E r k m = Inr (r', m')"
  shows "serves keys r0 r'"
  using progress.keeps_step [OF laws serves_coherent [OF assms(2)] assms(3,4)]
    serves_trans [OF assms(2)] keeps_serves by blast

lemma serves_step:
  fixes E :: "('t, 'g, 'd) env"
  assumes laws: "index_laws (env_tree E) keys" and coh: "coherent keys r" and m: "sized_deps (m_deps m)"
    and res: "step E m r = Inr (r', ok)"
  shows "serves keys r r'"
proof -
  have "yields (\<lambda>(r', ok). serves keys r r') (step E m r)"
    unfolding step_def
    apply (intro yields_intros yieldsI; simp only: split_paired_all prod.case)
    subgoal by (rule serves_refl [OF coh])
    subgoal by (rule serves_refl [OF coh])
    subgoal using serves_register(1) [OF laws coh, of "new_instance\<lparr>i_key := m_id m\<rparr>"]
      by (auto simp: new_instance_wf)
    subgoal premises p for _ _ _ r1 b r2
    proof -
      have s1: "serves keys r r1"
        using serves_register(1) [OF laws coh, of "new_instance\<lparr>i_key := m_id m\<rparr>" r1 b] p
        by (simp add: new_instance_wf)
      have "init_timeout (m_id m) r1 = Inr r2" using p by simp
      then have "serves keys r1 r2"
        by (rule keeps_serves [OF keeps_init_timeout(1) [OF keeps_refl [OF serves_coherent [OF s1]]]])
      with s1 have "serves keys r r2" by (rule serves_trans)
      then show ?thesis using serves_progress [OF laws _ m] p by blast
    qed
    subgoal using serves_progress [OF laws serves_refl [OF coh] m] by blast
    done
  then show ?thesis using res by (auto dest: yieldsD)
qed

lemma serves_propose:
  fixes E :: "('t, 'g, 'd) env"
  assumes laws: "index_laws (env_tree E) keys" and coh: "coherent keys r" and m: "sized_deps (m_deps m)"
    and res: "propose E m r = Inr (r', ok)"
  shows "serves keys r r'"
proof -
  have "yields (\<lambda>(r', ok). serves keys r r') (propose E m r)"
    unfolding propose_def Let_def
    apply (intro yields_intros yieldsI; simp only: split_paired_all prod.case)
    subgoal by (rule serves_refl [OF coh])
    subgoal for top
      using serves_register(1) [OF laws coh,
          of "new_instance\<lparr>i_lt := Some new_tracker, i_key := iid (r_id r) (top + 1)\<rparr>"]
      by (simp add: new_instance_wf)
    subgoal premises p for top _ _ r1
    proof -
      have "serves keys r r1"
        using serves_register(1) [OF laws coh, of "new_instance\<lparr>i_lt := Some new_tracker,
            i_key := iid (r_id r) (top + 1)\<rparr>" r1 True] p
        by (simp add: new_instance_wf)
      then show ?thesis using serves_progress [OF laws, of r r1 "m\<lparr>m_type := PHASE1\<rparr>"] m p by auto
    qed
    done
  then show ?thesis using res by (auto dest: yieldsD)
qed

lemma serves_checkpoint:
  fixes E :: "('t, 'g, 'd) env"
  assumes laws: "index_laws (env_tree E) keys" and coh: "coherent keys r"
    and res: "checkpoint E mo r = Inr r'"
  shows "serves keys r r'"
proof -
  have "yields (serves keys r) (checkpoint E mo r)"
    unfolding checkpoint_def Let_def send_io_def
    apply (intro yields_intros yieldsI; (simp only: split_paired_all prod.case)?)
    subgoal by (rule serves_refl [OF coh])
    subgoal for top
      using serves_register(1) [OF laws coh,
          of "new_instance\<lparr>i_lt := Some new_tracker, i_key := iid (r_id r) (top + 1)\<rparr>"]
      by (simp add: new_instance_wf)
    subgoal premises p for top _ _ r1 b deps m0 r2
    proof -
      let ?i = "new_instance\<lparr>i_lt := Some new_tracker, i_key := iid (r_id r) (top + 1)\<rparr>"
      have reg: "register_instance E ?i r = Inr (r1, True)" using p by simp
      have s1: "serves keys r r1"
        using serves_register(1) [OF laws coh _ reg] by (simp add: new_instance_wf)
      have i: "r_insts r1 (iid (r_id r) (top + 1)) = Some ?i"
        using serves_register(2) [OF laws coh _ reg] by (simp add: new_instance_wf)
      have "barrier E r1 = Inr deps" using p by simp
      then have deps: "sized_deps deps" by (rule barrier_wf)
      then have "wf_inst (iid (r_id r) (top + 1)) (?i\<lparr>i_deps := deps, i_status := PRE_ACCEPTED\<rparr>)"
        by (simp add: wf_inst_def)
      then have "keeps keys r1 (set_inst (iid (r_id r) (top + 1)) (?i\<lparr>i_deps := deps, i_status := PRE_ACCEPTED\<rparr>) r1)"
        using i by (intro keeps_intros keeps_refl serves_coherent [OF s1]) simp_all
      moreover have "init_fp_timeout (iid (r_id r) (top + 1)) (set_inst (iid (r_id r) (top + 1))
          (?i\<lparr>i_deps := deps, i_status := PRE_ACCEPTED\<rparr>) r1) = Inr r2"
        using p by simp
      ultimately have "keeps keys r1 r2" by (rule keeps_init_timeout(2))
      then have "serves keys r1 (emit (Send_io (m0\<lparr>m_id := iid (r_id r) (top + 1), m_deps := deps,
          m_ballot := i_ballot ?i, m_type := PRE_ACCEPT\<rparr>)) r2)"
        using deps by (intro keeps_serves keeps_emit) simp_all
      with s1 show ?thesis using serves_trans by simp
    qed
    done
  then show ?thesis using res by (auto dest: yieldsD)
qed

lemma serves_fire:
  fixes E :: "('t, 'g, 'd) env"
  assumes laws: "index_laws (env_tree E) keys" and coh: "coherent keys r" and res: "fire E t r = Inr r'"
  shows "serves keys r r'"
proof -
  have slow: "serves keys r s" if "slow_path_timeout E k r = Inr s" for k s
    using that recover.keeps_step [OF laws coh, of "zero_message\<lparr>m_type := PREPARE\<rparr>" k s]
    by (auto simp: slow_path_timeout_def zero_message_def intro: keeps_serves elim!: and_thenE split: if_splits)
  have fast: "serves keys r s" if s: "fast_path_timeout E k r = Inr s" for k s
  proof -
    from s obtain i r1 raw where i: "r_insts r k = Some i" and r1: "init_timeout k r = Inr r1"
      and s': "s = emit (Send_io (message_from_instance raw i\<lparr>m_type := ACCEPT\<rparr>)) r1"
      by (auto simp: fast_path_timeout_def send_io_def elim!: and_thenE split: if_splits)
    have "keeps keys r r1" by (rule keeps_init_timeout(1) [OF keeps_refl [OF coh] r1])
    then show ?thesis using coherentD(2) [OF coh i] unfolding s'
      by (intro keeps_serves keeps_emit) (simp_all add: message_from_instance_def)
  qed
  show ?thesis
    using res slow fast serves_checkpoint [OF laws coh]
    by (auto simp: fire_def checkpoint_timeout_def elim!: and_thenE split: timer.splits callback.splits)
qed

lemma serves_tick:
  fixes E :: "('t, 'g, 'd) env"
  assumes laws: "index_laws (env_tree E) keys" and coh: "coherent keys r" and res: "tick E ts r = Inr r'"
  shows "serves keys r r'"
  using res unfolding tick_def
proof (rule for_each_invariant [where P = "serves keys r"])
  show "serves keys r r" by (rule serves_refl [OF coh])
  fix t s s'
  assume "serves keys r s" and "fire E t s = Inr s'"
  then show "serves keys r s'" using serves_fire [OF laws serves_coherent] serves_trans by blast
qed

section \<open>Reachable states\<close>

text \<open>
  All that is asked of an input is what its C type says: the dependencies are an array of
  \<^verbatim>\<open>MAX_DEPS\<close> entries. They may be in any order, with duplicates, and with whatever
  \<^verbatim>\<open>malloc\<close> left in them.
\<close>

fun wf_input :: "input \<Rightarrow> bool" where
  "wf_input (Tick ts) \<longleftrightarrow> True"
| "wf_input (Step m c) \<longleftrightarrow> sized_deps (m_deps m)"
| "wf_input (Propose m c) \<longleftrightarrow> sized_deps (m_deps m)"

lemma serves_deliver: "coherent keys r \<Longrightarrow> serves keys r (deliver m c r)"
  by (auto simp: deliver_def intro!: keeps_serves keeps_cmds keeps_refl split: option.split)

lemma serves_serve:
  assumes "index_laws (env_tree E) keys" and "coherent keys r" and "wf_input x"
    and "serve E x r = Inr (r', ok)"
  shows "serves keys r r'"
proof (cases x)
  case (Tick ts)
  then show ?thesis using assms serves_tick by (auto simp: serve_def elim!: and_thenE)
next
  case (Step m c)
  note d = serves_deliver [OF assms(2), of m c]
  show ?thesis
    using serves_step [OF assms(1) serves_coherent [OF d], of m r' ok] assms(3,4) Step serves_trans [OF d]
    by (simp add: serve_def)
next
  case (Propose m c)
  note d = serves_deliver [OF assms(2), of m c]
  show ?thesis
    using serves_propose [OF assms(1) serves_coherent [OF d], of m r' ok] assms(3,4) Propose serves_trans [OF d]
    by (simp add: serve_def)
qed

text \<open>A replica goes on for as long as it serves its inputs without an error.\<close>

inductive reachable :: "('t, 'g, 'd) env \<Rightarrow> u64 \<Rightarrow> 'd \<Rightarrow> ('t, 'd) replica \<Rightarrow> bool"
  for E rid dh where
  start: "reachable E rid dh (new_replica E rid dh)"
| serve: "reachable E rid dh r \<Longrightarrow> wf_input x \<Longrightarrow> serve E x r = Inr (r', True) \<Longrightarrow>
    reachable E rid dh r'"

inductive_cases reachableE: "reachable E rid dh r"

lemma reachable_run:
  "reachable E rid dh r \<Longrightarrow> \<forall>x \<in> set xs. wf_input x \<Longrightarrow> run E xs r = Inr r' \<Longrightarrow>
   reachable E rid dh r' \<or> (\<exists>r1 x. reachable E rid dh r1 \<and> wf_input x \<and> serve E x r1 = Inr (r', False))"
proof (induction xs arbitrary: r)
  case Nil
  then show ?case by simp
next
  case (Cons x xs)
  from Cons.prems(3) obtain r1 ok where s: "serve E x r = Inr (r1, ok)"
    and rest: "(if ok then run E xs r1 else Inr r1) = Inr r'"
    by (auto elim!: and_thenE)
  show ?case
  proof (cases ok)
    case True
    with s Cons.prems have "reachable E rid dh r1" by (auto intro: reachable.serve)
    moreover have "run E xs r1 = Inr r'" using True rest by simp
    ultimately show ?thesis using Cons.prems(2) by (intro Cons.IH) simp_all
  next
    case False
    then show ?thesis using s rest Cons.prems(1,2) by auto
  qed
qed

lemma new_replica_coherent: "index_laws (env_tree E) keys \<Longrightarrow> coherent keys (new_replica E rid dh)"
  by (auto simp: coherent_def agree_def new_replica_def ix_empty_keys)

text \<open>
  C3. In every state a replica reaches from its start by serving any ticks, messages and
  proposals, whatever order and garbage their arrays of dependencies hold, its trees and its heap
  of instances agree: an instance is allocated exactly when the tree of its replica holds its
  number, and it carries its own key; its identity stays; and every array of dependencies stored
  in an instance or sent in a message has exactly the \<^verbatim>\<open>MAX_DEPS\<close> entries of its type.
\<close>

theorem reachable_coherent:
  assumes "index_laws (env_tree E) keys" and "reachable E rid dh r"
  shows "r_id r = rid \<and> length (r_index r) = N \<and>
    (\<forall>k. r_insts r k \<noteq> None \<longleftrightarrow>
       unat (replica_id k) < N \<and> instance_id k \<in> keys (r_index r ! unat (replica_id k))) \<and>
    (\<forall>k i. r_insts r k = Some i \<longrightarrow> i_key i = k \<and> sized_deps (i_deps i)) \<and>
    (\<forall>m. Send_io m \<in> set (r_out r) \<longrightarrow> sized_deps (m_deps m))"
proof -
  from assms(2) have "coherent keys r \<and> r_id r = rid"
  proof (induction rule: reachable.induct)
    case start
    show ?case using new_replica_coherent [OF assms(1)] by (simp add: new_replica_def)
  next
    case (serve r x r')
    then show ?case using serves_serve [OF assms(1), of r x r' True] by (simp add: serves_def)
  qed
  then show ?thesis by (auto simp: coherent_def agree_def wf_inst_def)
qed

lemma register_small:
  assumes laws: "index_laws (env_tree E) keys" and sm: "\<forall>t \<in> set (r_index r). card (keys t) < loop_fuel (env_tree E)"
    and res: "register_instance E i r = Inr (r', b)"
  shows "small E keys r'"
proof -
  let ?j = "unat (replica_id (i_key i))"
  from res have u: "?j < length (r_index r)"
    and idx: "r_index r' = (r_index r)[?j := fst (ix_insert (env_tree E) (r_index r ! ?j) (instance_id (i_key i)))]"
    by (auto simp: register_instance_def index_at_def aget_eq_Inr Let_def elim!: and_thenE
        split: prod.splits option.splits)
  have "Suc (card (keys (r_index r ! ?j))) \<le> loop_fuel (env_tree E)"
    using sm u by (simp add: Suc_leI)
  then have "card (keys (fst (ix_insert (env_tree E) (r_index r ! ?j) (instance_id (i_key i))))) \<le> loop_fuel (env_tree E)"
    by (simp add: ix_insert_keys [OF laws] card_insert_if)
  then show ?thesis
    using sm unfolding small_def idx by (auto dest!: set_update_subset_insert [THEN subsetD] intro: less_imp_le)
qed

text \<open>
  C12. Handling a message ends: when every tree has fuel for one element more than it holds,
  neither a message of another replica nor a proposal runs out of fuel in any of its loops.
\<close>

theorem message_handling_ends:
  fixes E :: "('t, 'g, 'd) env"
  assumes "index_laws (env_tree E) keys"
    and "\<forall>t \<in> set (r_index r). card (keys t) < loop_fuel (env_tree E)"
  shows "no_bound (step E m r) \<and> no_bound (propose E m r)"
proof -
  have sm: "small E keys r" using assms(2) by (auto simp: small_def)
  have reg: "no_bound (register_instance E i r)" for i
    by (auto simp: register_instance_def index_at_def Let_def intro!: no_bound_intros split: prod.split option.split)
  have timer: "small E keys s'"
    if "register_instance E i r = Inr (s, b)" "init_timeout k s = Inr s'" for i k b and s s' :: "('t, 'd) replica"
    using register_small [OF assms that(1)] that(2) by (auto simp: init_timeout_def arm_timeout_eq)
  have end_timer: "no_bound (init_timeout k s)" for k and s :: "('t, 'd) replica"
    by (auto simp: init_timeout_def arm_timeout_def intro!: no_bound_intros)
  note ends = progress.ends [OF assms(1)]
  have find: "no_bound (find_instance E r k)" and top: "no_bound (max_local E r)" for k
    by (auto simp: find_instance_def max_local_def index_at_def intro!: no_bound_intros split: option.split)
  have "no_bound (propose E m r)"
    unfolding propose_def Let_def
    by (auto intro!: no_bound_intros ends reg top intro: register_small [OF assms])
  moreover have "no_bound (step E m r)"
    unfolding step_def
    by (auto intro!: no_bound_intros ends reg sm end_timer find split: option.split)
       (rule timer, assumption, assumption)
  ultimately show ?thesis by blast
qed

end
