(* ===== verification/Epx_Protocol.thy ===== *)
theory Epx_Protocol
  imports Epx_Reachable
begin

text \<open>
  What the handlers promise of the protocol: each works on one instance, what every message does to
  a decision, with the two cases in which the code does not keep it, ballots and promises.
\<close>

section \<open>A handler works on one instance\<close>

locale local_handler = handler E keys h
  for E :: "('t, 'g, 'd) env" and keys :: "'t \<Rightarrow> u64 set"
    and h :: "('t, 'd) replica \<Rightarrow> instance_id \<Rightarrow> message \<Rightarrow> ('t, 'd) outcome" +
  assumes others: "index_laws (env_tree E) keys \<Longrightarrow> coherent keys r \<Longrightarrow> sized_deps (m_deps m) \<Longrightarrow>
    h r k m = Inr (r', m') \<Longrightarrow> q \<noteq> k \<Longrightarrow>
    r_insts r' q = r_insts r q \<or>
    r_insts r' q = None \<and> (\<exists>i. r_insts r q = Some i \<and> is_state (i_status i) EXECUTED)"
begin

lemma other_kept:
  assumes "index_laws (env_tree E) keys" and "coherent keys r" and "sized_deps (m_deps m)"
    and "h r k m = Inr (r', m')" and "q \<noteq> k"
    and "r_insts r q = Some i" and "\<not> is_state (i_status i) EXECUTED"
  shows "r_insts r' q = Some i"
  using others [OF assms(1-5)] assms(6,7) by auto

lemma other_not_created:
  assumes "index_laws (env_tree E) keys" and "coherent keys r" and "sized_deps (m_deps m)"
    and "h r k m = Inr (r', m')" and "r_insts r' q = Some i" and "q \<noteq> k"
  shows "r_insts r q = Some i"
  using others [OF assms(1-4,6)] assms(5) by auto

end

definition elsewhere :: "instance_id \<Rightarrow> ('t, 'd) replica \<Rightarrow> ('t, 'd) replica \<Rightarrow> bool" where
  "elsewhere k r r' \<longleftrightarrow> (\<forall>q. q \<noteq> k \<longrightarrow> r_insts r' q = r_insts r q)"

lemma elsewhere_refl [simp]: "elsewhere k r r"
  by (simp add: elsewhere_def)

lemma elsewhere_trans: "elsewhere k a b \<Longrightarrow> elsewhere k b c \<Longrightarrow> elsewhere k a c"
  by (simp add: elsewhere_def)

lemma elsewhere_simps [simp]:
  "elsewhere k a (emit e b) \<longleftrightarrow> elsewhere k a b" "elsewhere k a (set_inst k i b) \<longleftrightarrow> elsewhere k a b"
  "elsewhere k a (b\<lparr>r_cmds := c\<rparr>) \<longleftrightarrow> elsewhere k a b" "elsewhere k a (b\<lparr>r_dh := d\<rparr>) \<longleftrightarrow> elsewhere k a b"
  by (auto simp: elsewhere_def)

lemma elsewhere_set [simp]:
  "elsewhere k (set_inst k i a) b \<longleftrightarrow> elsewhere k a b"
  "elsewhere k (a\<lparr>r_cmds := c\<rparr>) b \<longleftrightarrow> elsewhere k a b"
  by (auto simp: elsewhere_def)

lemma do_commit_elsewhere: "do_commit r k m = Inr (r', m') \<Longrightarrow> elsewhere k r r'"
  by (auto simp: do_commit_def eval_simps split: if_splits)

lemma recover_elsewhere: "recover E r k m = Inr (r', m') \<Longrightarrow> elsewhere k r r'"
  by (auto simp: recover_def eval_simps split: option.splits if_splits)

lemma phase1_elsewhere: "phase1 E r k m = Inr (r', m') \<Longrightarrow> elsewhere k r r'"
  by (auto simp: phase1_def eval_simps)

lemma nack_elsewhere: "nack_reply E r k m = Inr (r', m') \<Longrightarrow> elsewhere k r r'"
  by (auto simp: nack_reply_def and_then_eq_Inr Let_def dest!: recover_elsewhere split: if_splits)

lemma pre_accept_ok_elsewhere: "pre_accept_ok r k m = Inr (r', m') \<Longrightarrow> elsewhere k r r'"
  by (auto simp: pre_accept_ok_def and_then_eq_Inr Let_def send_io_def dest!: do_commit_elsewhere split: if_splits)

lemma pre_accept_reply_elsewhere:
  assumes "pre_accept_reply E r k m = Inr (r', m')"
  shows "elsewhere k r r'"
proof -
  have "yields (\<lambda>(r', m'). elsewhere k r r') (pre_accept_reply E r k m)"
    unfolding pre_accept_reply_def Let_def send_io_def
    by (intro yields_intros yieldsI; auto dest!: do_commit_elsewhere nack_elsewhere)
  then show ?thesis using assms by (auto dest: yieldsD)
qed

lemma accept_reply_elsewhere: "accept_reply E r k m = Inr (r', m') \<Longrightarrow> elsewhere k r r'"
  by (auto simp: accept_reply_def and_then_eq_Inr Let_def
      dest!: do_commit_elsewhere nack_elsewhere split: if_splits)

lemma prepare_elsewhere: "prepare r k m = Inr (r', m') \<Longrightarrow> elsewhere k r r'"
  by (auto simp: prepare_def and_then_eq_Inr Let_def send_io_def split: if_splits)

lemma commit_elsewhere: "commit r k m = Inr (r', m') \<Longrightarrow> elsewhere k r r'"
  by (auto simp: commit_def eval_simps)

lemma recover_steps_elsewhere:
  "recover_noop E r k i lt m = Inr (r', m') \<Longrightarrow> elsewhere k r r'"
  "recover_accept r k i lt m = Inr (r', m') \<Longrightarrow> elsewhere k r r'"
  "recover_try E r k i lt m = Inr (r', m') \<Longrightarrow> elsewhere k r r'"
  "recover_restart E r k i lt m = Inr (r', m') \<Longrightarrow> elsewhere k r r'"
  by (auto simp: recover_noop_def recover_accept_def recover_try_def recover_restart_def
      and_then_eq_Inr Let_def send_io_def dest!: phase1_elsewhere split: if_splits option.splits)

lemma prepare_reply_elsewhere:
  assumes "prepare_reply E r k m = Inr (r', m')"
  shows "elsewhere k r r'"
proof -
  have "yields (\<lambda>(r', m'). elsewhere k r r') (prepare_reply E r k m)"
    unfolding prepare_reply_def Let_def send_io_def
    by (intro yields_intros yieldsI; simp only: split_paired_all prod.case)
       (auto dest!: do_commit_elsewhere recover_steps_elsewhere)
  then show ?thesis using assms by (auto dest: yieldsD)
qed

lemma try_pre_accept_elsewhere:
  assumes "try_pre_accept E r k m = Inr (r', m')"
  shows "elsewhere k r r'"
proof -
  have "yields (\<lambda>(r', m'). elsewhere k r r') (try_pre_accept E r k m)"
    unfolding try_pre_accept_def Let_def send_io_def
    by (intro yields_intros yieldsI; simp only: split_paired_all prod.case)
       (auto dest!: do_commit_elsewhere)
  then show ?thesis using assms by (auto dest: yieldsD)
qed

lemma try_parts_elsewhere:
  "try_restart E nq k (r, m) = Inr (r', m') \<Longrightarrow> elsewhere k r r'"
  "try_deferred E nq ri k (r, m) = Inr (r', m') \<Longrightarrow> elsewhere k r r'"
  "try_defer E k (r, m) = Inr (r', m') \<Longrightarrow> elsewhere k r r'"
    apply (auto simp: try_restart_def and_then_eq_Inr dest!: phase1_elsewhere split: if_splits)[]
   apply (auto simp: try_deferred_def and_then_eq_Inr dest!: phase1_elsewhere split: if_splits option.splits)[]
  apply (auto simp: try_defer_def eval_simps elsewhere_def split: if_splits)[]
  done

lemma try_pre_accept_reply_elsewhere:
  assumes "try_pre_accept_reply E r k m = Inr (r', m')"
  shows "elsewhere k r r'"
proof -
  have "yields (\<lambda>(r', m'). elsewhere k r r') (try_pre_accept_reply E r k m)"
    unfolding try_pre_accept_reply_def Let_def send_io_def
    by (intro yields_intros yieldsI; simp only: split_paired_all prod.case)
       (auto dest!: try_parts_elsewhere simp: elsewhere_def)
  then show ?thesis using assms by (auto dest: yieldsD)
qed

lemma clear_from_gone:
  assumes "index_laws (env_tree E) keys" and "keeps keys r0 r"
    and "(if c then clear E r else Inr r) = Inr r'"
  shows "only_executed_gone (r_insts r) (r_insts r')"
  using assms keeps_clear [OF assms(1) coherent_keeps [OF assms(2)]] by (auto split: if_splits)

lemma joined_gone:
  assumes laws: "index_laws (env_tree E) keys" and coh: "coherent keys r" and i: "r_insts r k = Some i"
    and sd: "sd_for_command E r cp ignore \<lparr>updated = 0, p_deps = i_deps i\<rparr> = Inr (s, cmds', p)"
    and cl: "(if c then clear E (set_inst k i' (r\<lparr>r_cmds := cmds'\<rparr>))
              else Inr (set_inst k i' (r\<lparr>r_cmds := cmds'\<rparr>))) = Inr r2"
    and i': "i_key i' = i_key i" "i_deps i' = p_deps p" "i_lt i' = i_lt i"
  shows "only_executed_gone ((r_insts r)(k \<mapsto> i')) (r_insts r2)"
proof -
  have "sized_deps (p_deps p)" using sd_for_command_wf [OF laws sd] coherentD(2) [OF coh i] by simp
  then have "wf_inst k i'" using coherentD [OF coh i] i' by (auto simp: wf_inst_defs)
  then have "keeps keys r (set_inst k i' (r\<lparr>r_cmds := cmds'\<rparr>))"
    using i by (intro keeps_intros keeps_refl coh) simp_all
  from clear_from_gone [OF laws this cl] show ?thesis by simp
qed

lemma pre_accept_gone:
  assumes laws: "index_laws (env_tree E) keys" and coh: "coherent keys r"
    and i: "r_insts r k = Some i" and res: "pre_accept E r k m = Inr (r', m')"
  shows "\<exists>i'. only_executed_gone ((r_insts r)(k \<mapsto> i')) (r_insts r') \<and> i_ballot i \<le> i_ballot i'"
proof -
  have same: "(r_insts r)(k \<mapsto> i) = r_insts r" using i by auto
  have "yields (\<lambda>(r', m'). \<exists>i'. only_executed_gone ((r_insts r)(k \<mapsto> i')) (r_insts r') \<and> i_ballot i \<le> i_ballot i') (pre_accept E r k m)"
    unfolding pre_accept_def Let_def send_io_def load_Some [of "r_insts r", OF i] and_then_Inr
    apply (intro yields_intros; simp only: split_paired_all prod.case)
    subgoal by (rule exI [of _ i]) (simp add: same)
    subgoal by (rule exI [of _ i]) (simp add: same)
    subgoal by (rule exI [of _ i]) (simp add: same)
    subgoal unfolding replica_simps by (rule exI, rule conjI, erule (1) joined_gone [OF laws coh i]) simp_all
    subgoal unfolding replica_simps by (rule exI, rule conjI, erule (1) joined_gone [OF laws coh i]) simp_all
    done
  then show ?thesis using res by (auto dest: yieldsD)
qed

lemma accept_gone:
  assumes laws: "index_laws (env_tree E) keys" and coh: "coherent keys r" and m: "sized_deps (m_deps m)"
    and i: "r_insts r k = Some i" and res: "accept E r k m = Inr (r', m')"
  shows "\<exists>i'. only_executed_gone ((r_insts r)(k \<mapsto> i')) (r_insts r') \<and> i_ballot i \<le> i_ballot i'"
proof -
  have same: "(r_insts r)(k \<mapsto> i) = r_insts r" using i by auto
  let ?i = "i\<lparr>i_status := ACCEPTED, i_ballot := m_ballot m, i_seq := m_seq m, i_deps := m_deps m\<rparr>"
  have "wf_inst k ?i" using m coherentD [OF coh i] by (auto simp: wf_inst_defs)
  then have keep: "keeps keys r (set_inst k ?i r)"
    using i by (intro keeps_intros keeps_refl coh) simp_all
  have "yields (\<lambda>(r', m'). \<exists>i'. only_executed_gone ((r_insts r)(k \<mapsto> i')) (r_insts r') \<and> i_ballot i \<le> i_ballot i') (accept E r k m)"
    unfolding accept_def Let_def send_io_def load_Some [of "r_insts r", OF i] and_then_Inr
    apply (intro yields_intros; simp only: split_paired_all prod.case)
    subgoal by (rule exI [of _ i]) (simp add: same)
    subgoal by (rule exI [of _ i]) (simp add: same)
    subgoal using clear_from_gone [OF laws keep] by (intro exI [of _ ?i]) simp
    done
  then show ?thesis using res by (auto dest: yieldsD)
qed

lemma gone_others:
  assumes "only_executed_gone ((r_insts r)(k \<mapsto> i')) (r_insts r')" and "q \<noteq> k"
  shows "r_insts r' q = r_insts r q \<or>
    r_insts r' q = None \<and> (\<exists>i. r_insts r q = Some i \<and> is_state (i_status i) EXECUTED)"
  using assms(1) [unfolded only_executed_gone_def, rule_format, of q] assms(2) by simp

lemma elsewhere_others: "elsewhere k r r' \<Longrightarrow> q \<noteq> k \<Longrightarrow> r_insts r' q = r_insts r q \<or> X"
  by (simp add: elsewhere_def)

interpretation progress_local: local_handler E keys "progress E" for E :: "('t, 'g, 'd) env" and keys
proof unfold_locales
  fix r :: "('t, 'd) replica" and m r' m' k q
  assume laws: "index_laws (env_tree E) keys" and coh: "coherent keys r" and m: "sized_deps (m_deps m)"
    and res: "progress E r k m = Inr (r', m')" and q: "q \<noteq> k"
  consider "m_type m = PRE_ACCEPT" | "m_type m = ACCEPT" | "elsewhere k r r'"
    using res
    by (cases "m_type m") (auto simp: progress_def dest: phase1_elsewhere pre_accept_ok_elsewhere
        pre_accept_reply_elsewhere accept_reply_elsewhere prepare_elsewhere commit_elsewhere
        prepare_reply_elsewhere try_pre_accept_elsewhere try_pre_accept_reply_elsewhere)
  then show "r_insts r' q = r_insts r q \<or>
    r_insts r' q = None \<and> (\<exists>i. r_insts r q = Some i \<and> is_state (i_status i) EXECUTED)"
  proof cases
    case 1
    then have "pre_accept E r k m = Inr (r', m')" using res by (simp add: progress_def)
    moreover from this obtain i where "r_insts r k = Some i"
      by (auto simp: pre_accept_def and_then_eq_Inr)
    ultimately show ?thesis using pre_accept_gone [OF laws coh] gone_others [OF _ q] by blast
  next
    case 2
    then have "accept E r k m = Inr (r', m')" using res by (simp add: progress_def)
    moreover from this obtain i where "r_insts r k = Some i"
      by (auto simp: accept_def and_then_eq_Inr)
    ultimately show ?thesis using accept_gone [OF laws coh m] gone_others [OF _ q] by blast
  next
    case 3
    then show ?thesis using q by (rule elsewhere_others)
  qed
qed

lemma do_commit_inst:
  "do_commit r k m = Inr (r', m') \<Longrightarrow> r_insts r k = Some i \<Longrightarrow>
   r_insts r' k = Some (i\<lparr>i_status := COMMITTED\<rparr>)"
  by (auto simp: do_commit_def eval_simps split: if_splits)

section \<open>Decisions\<close>

text \<open>What is decided of an instance: its command, its place in the order and its dependencies.\<close>

definition same_decision :: "inst \<Rightarrow> inst \<Rightarrow> bool" where
  "same_decision i i' \<longleftrightarrow> i_status i' = i_status i \<and> i_command i' = i_command i \<and>
     i_seq i' = i_seq i \<and> i_deps i' = i_deps i"

lemma same_decision_refl [simp]: "same_decision i i"
  by (simp add: same_decision_def)

lemma committed_flags [simp]:
  "\<not> is_state COMMITTED EXECUTED" "\<not> is_state COMMITTED PRE_ACCEPTED" "\<not> is_state COMMITTED ACCEPTED"
  "is_state COMMITTED COMMITTED" "\<not> is_state COMMITTED NONE" "\<not> is_state COMMITTED PRE_ACCEPTED_EQ"
  "ACCEPTED \<le> COMMITTED"
  by (simp_all add: is_state_def state_defs)

text \<open>The replica leads a recovery of the instance that is at step \<open>s\<close>.\<close>

definition in_recovery :: "u32 \<Rightarrow> inst \<Rightarrow> bool" where
  "in_recovery s i = (case i_lt i of Some lt \<Rightarrow> lt_recovery_status lt = s | None \<Rightarrow> False)"

text \<open>
  What a commit and a try-pre-accept may still do to a committed instance: \<^verbatim>\<open>commit\<close> overwrites
  the sequence number and the dependencies, and \<^verbatim>\<open>try_pre_accept\<close> takes an instance that has no
  command back to pre-accepted.
\<close>

definition recommitted :: "message \<Rightarrow> inst \<Rightarrow> inst \<Rightarrow> bool" where
  "recommitted m i i' \<longleftrightarrow> i_status i' = COMMITTED \<and> i_command i' = i_command i \<and>
     i_seq i' = m_seq m \<and> i_deps i' = m_deps m \<and> i_ballot i' = i_ballot i"

definition uncommitted :: "message \<Rightarrow> inst \<Rightarrow> inst \<Rightarrow> bool" where
  "uncommitted m i i' \<longleftrightarrow> i_command i = None \<and> i_ballot i \<le> m_ballot m \<and>
     i' = i\<lparr>i_command := m_command m, i_deps := m_deps m, i_ballot := m_ballot m, i_seq := m_seq m,
        i_status := PRE_ACCEPTED\<rparr>"

lemma committed_find_conflict:
  "i_status i = COMMITTED \<Longrightarrow> i_command i \<noteq> None \<Longrightarrow> find_conflict E r i c s d = Inr (Some (i_key i), r_cmds r)"
  by (simp add: find_conflict_def)

lemma committed_try:
  assumes "try_pre_accept E r k m = Inr (r', m')" and "r_insts r k = Some i" and "i_status i = COMMITTED"
  shows "r_insts r' k = Some i \<or> (\<exists>i'. r_insts r' k = Some i' \<and> uncommitted m i i')"
proof (cases "i_command i = None")
  case True
  then show ?thesis using assms
    by (auto simp: try_pre_accept_def eval_simps uncommitted_def split: if_splits option.splits)
next
  case False
  then show ?thesis using assms
    by (auto simp: try_pre_accept_def committed_find_conflict eval_simps split: if_splits)
qed

lemma not_led_reply:
  "\<not> in_recovery PREPARING i \<Longrightarrow> r_insts r k = Some i \<Longrightarrow> prepare_reply E r k m = Inr (r', m') \<Longrightarrow> r' = r"
  "\<not> in_recovery TRY_PRE_ACCEPTING i \<Longrightarrow> r_insts r k = Some i \<Longrightarrow>
    try_pre_accept_reply E r k m = Inr (r', m') \<Longrightarrow> r' = r"
  by (auto simp: in_recovery_def prepare_reply_def try_pre_accept_reply_def load_Some [of "r_insts r"]
      split: option.splits)

text \<open>
  C1. What becomes of a committed instance when any message but \<^verbatim>\<open>PHASE1\<close> is handled, on this
  instance or on another, by a replica that is not itself at the step of a recovery that the
  message answers: its status, command, sequence number and dependencies stay, except in the two
  cases of the code, on the instance of the message. A commit keeps status, command and ballot and
  overwrites sequence number and dependencies with its own. A try-pre-accept with a ballot that is
  not smaller takes an instance that has no command (a committed no-op) back to pre-accepted.
\<close>

theorem committed_stable:
  assumes "index_laws (env_tree E) keys" and "coherent keys r" and "sized_deps (m_deps m)"
    and "m_type m \<noteq> PHASE1"
    and "r_insts r q = Some i" and "i_status i = COMMITTED"
    and "m_type m = PREPARE_REPLY \<Longrightarrow> \<not> in_recovery PREPARING i"
    and "m_type m = TRY_PRE_ACCEPT_REPLY \<Longrightarrow> \<not> in_recovery TRY_PRE_ACCEPTING i"
    and "progress E r k m = Inr (r', m')"
  shows "\<exists>i'. r_insts r' q = Some i' \<and>
    (same_decision i i' \<or>
     q = k \<and> m_type m = COMMIT \<and> recommitted m i i' \<or>
     q = k \<and> m_type m = TRY_PRE_ACCEPT \<and> uncommitted m i i')"
proof (cases "q = k")
  case False
  then show ?thesis
    using progress_local.other_kept [OF assms(1-3,9), of q i] assms(5,6) by auto
next
  case True
  then have k: "r_insts r k = Some i" using assms(5) by simp
  consider "m_type m = TRY_PRE_ACCEPT" | "m_type m = PREPARE" | "m_type m = COMMIT"
    | "m_type m \<noteq> TRY_PRE_ACCEPT" "m_type m \<noteq> PREPARE" "m_type m \<noteq> COMMIT" by blast
  then show ?thesis
  proof cases
    case 1
    then show ?thesis using committed_try [of E r k m r' m' i] assms(9) k True assms(6)
      by (auto simp: progress_def)
  next
    case 2
    then show ?thesis using assms(9) k True assms(6)
      by (auto simp: progress_def prepare_def eval_simps same_decision_def split: if_splits)
  next
    case 3
    then show ?thesis using assms(9) k True assms(6)
      by (auto simp: progress_def commit_def eval_simps recommitted_def)
  next
    case 4
    then have "r' = r"
      using assms(4,9) k assms(6) not_led_reply [of i r k E m r' m'] assms(7,8)
      by (cases "m_type m") (auto simp: progress_def pre_accept_def pre_accept_ok_def pre_accept_reply_def
          accept_def accept_reply_def and_then_eq_Inr is_state_or)
    then show ?thesis using k True by simp
  qed
qed

section \<open>Ballots and promises\<close>

lemma phase1_ballot:
  "phase1 E r k m = Inr (r', m') \<Longrightarrow> r_insts r' k = Some i' \<Longrightarrow> i_ballot i' = m_ballot m"
  by (auto simp: phase1_def eval_simps)

lemma do_commit_ballot:
  "do_commit (set_inst k i r) k m = Inr (r', m') \<Longrightarrow> r_insts r' k = Some i' \<Longrightarrow> i_ballot i' = i_ballot i"
  using do_commit_inst [of "set_inst k i r" k m r' m' i] by auto

lemma recover_try_ballot:
  assumes "recover_try E r k i lt m = Inr (r', m')" and "r_insts r' k = Some i'"
  shows "i_ballot i' = i_ballot i"
proof -
  have "yields (\<lambda>(r', m'). \<forall>i'. r_insts r' k = Some i' \<longrightarrow> i_ballot i' = i_ballot i) (recover_try E r k i lt m)"
    unfolding recover_try_def Let_def send_io_def
    by (intro yields_intros yieldsI; simp only: split_paired_all prod.case)
       (auto dest!: phase1_ballot)
  then show ?thesis using assms by (auto dest: yieldsD)
qed

lemma recover_steps_ballot:
  "recover_noop E r k i lt m = Inr (r', m') \<Longrightarrow> r_insts r' k = Some i' \<Longrightarrow> i_ballot i' = i_ballot i"
  "recover_accept r k i lt m = Inr (r', m') \<Longrightarrow> r_insts r' k = Some i' \<Longrightarrow> i_ballot i' = i_ballot i"
  "recover_try E r k i lt m = Inr (r', m') \<Longrightarrow> r_insts r' k = Some i' \<Longrightarrow> i_ballot i' = i_ballot i"
  "recover_restart E r k i lt m = Inr (r', m') \<Longrightarrow> r_insts r' k = Some i' \<Longrightarrow> i_ballot i' = i_ballot i"
  by (auto simp: recover_noop_def recover_accept_def recover_restart_def
      and_then_eq_Inr Let_def send_io_def dest!: phase1_ballot recover_try_ballot)

lemma prepare_reply_ballot:
  assumes "prepare_reply E r k m = Inr (r', m')" and "r_insts r k = Some i" and "r_insts r' k = Some i'"
  shows "i_ballot i' = i_ballot i"
proof -
  have "yields (\<lambda>(r', m'). \<forall>i'. r_insts r' k = Some i' \<longrightarrow> i_ballot i' = i_ballot i) (prepare_reply E r k m)"
    unfolding prepare_reply_def Let_def send_io_def load_Some [of "r_insts r", OF assms(2)] and_then_Inr
    by (intro yields_intros yieldsI; simp only: split_paired_all prod.case)
       (auto simp: assms(2) dest!: do_commit_ballot recover_steps_ballot)
  then show ?thesis using assms(1,3) by (auto dest: yieldsD)
qed

lemma pre_accept_reply_ballot:
  assumes "pre_accept_reply E r k m = Inr (r', m')" and "m_nack m = 0"
    and "r_insts r k = Some i" and "r_insts r' k = Some i'"
  shows "i_ballot i' = i_ballot i"
proof -
  have "yields (\<lambda>(r', m'). \<forall>i'. r_insts r' k = Some i' \<longrightarrow> i_ballot i' = i_ballot i) (pre_accept_reply E r k m)"
    unfolding pre_accept_reply_def Let_def send_io_def load_Some [of "r_insts r", OF assms(3)] and_then_Inr
    by (intro yields_intros yieldsI; simp only: split_paired_all prod.case)
       (auto simp: assms(2,3) dest!: do_commit_ballot)
  then show ?thesis using assms(1,4) by (auto dest: yieldsD)
qed

lemma replies_ballot:
  assumes "m_nack m = 0" and "r_insts r k = Some i" and "r_insts r' k = Some i'"
  shows "accept_reply E r k m = Inr (r', m') \<Longrightarrow> i_ballot i' = i_ballot i"
    and "try_pre_accept_reply E r k m = Inr (r', m') \<Longrightarrow> i_ballot i' = i_ballot i"
  using assms
  by (auto simp: accept_reply_def try_pre_accept_reply_def pre_accept_ok_def load_Some [of "r_insts r"]
      and_then_eq_Inr Let_def send_io_def dest!: do_commit_ballot split: if_splits option.splits)

text \<open>
  C4. Ballots only grow: handling a message of any type but \<^verbatim>\<open>PHASE1\<close> never lowers the ballot of
  an instance, whichever instance the message is for, unless it is a nack that answers a
  pre-accept, an accept or a try-pre-accept.
\<close>

theorem ballot_monotone:
  assumes "index_laws (env_tree E) keys" and "coherent keys r" and "sized_deps (m_deps m)"
    and "m_type m \<noteq> PHASE1"
    and "m_type m \<in> {PRE_ACCEPT_REPLY, ACCEPT_REPLY, TRY_PRE_ACCEPT_REPLY} \<Longrightarrow> m_nack m = 0"
    and "progress E r k m = Inr (r', m')"
    and "r_insts r q = Some i" and "r_insts r' q = Some i'"
  shows "i_ballot i \<le> i_ballot i'"
proof (cases "q = k")
  case False
  then have "r_insts r q = Some i'" by (rule progress_local.other_not_created [OF assms(1-3,6,8)])
  then show ?thesis using assms(7) by simp
next
  case True
  then have k: "r_insts r k = Some i" "r_insts r' k = Some i'" using assms(7,8) by simp_all
  have gone: "i_ballot i \<le> i_ballot i'"
    if "only_executed_gone ((r_insts r)(k \<mapsto> j)) (r_insts r') \<and> i_ballot i \<le> i_ballot j" for j
    using that k(2) by (auto simp: only_executed_gone_def dest!: spec [of _ k])
  show ?thesis
  proof (cases "m_type m")
    case PRE_ACCEPT
    then show ?thesis using pre_accept_gone [OF assms(1,2) k(1)] assms(6) gone by (auto simp: progress_def)
  next
    case ACCEPT
    then show ?thesis using accept_gone [OF assms(1-3) k(1)] assms(6) gone by (auto simp: progress_def)
  next
    case PREPARE
    then show ?thesis using assms(6) k by (auto simp: progress_def prepare_def eval_simps split: if_splits)
  next
    case TRY_PRE_ACCEPT
    then show ?thesis using assms(6) k
      by (auto simp: progress_def try_pre_accept_def eval_simps split: if_splits option.splits)
  next
    case COMMIT
    then show ?thesis using assms(6) k by (auto simp: progress_def commit_def eval_simps)
  next
    case PRE_ACCEPT_OK
    then have "i_ballot i' = i_ballot i"
      using assms(6) k by (auto simp: progress_def pre_accept_ok_def and_then_eq_Inr Let_def send_io_def
          dest!: do_commit_ballot split: if_splits)
    then show ?thesis by simp
  next
    case PRE_ACCEPT_REPLY
    then have "pre_accept_reply E r k m = Inr (r', m')" "m_nack m = 0"
      using assms(5,6) by (simp_all add: progress_def)
    from pre_accept_reply_ballot [OF this k] show ?thesis by simp
  next
    case ACCEPT_REPLY
    then have "accept_reply E r k m = Inr (r', m')" "m_nack m = 0"
      using assms(5,6) by (simp_all add: progress_def)
    from replies_ballot(1) [OF this(2) k this(1)] show ?thesis by simp
  next
    case TRY_PRE_ACCEPT_REPLY
    then have "try_pre_accept_reply E r k m = Inr (r', m')" "m_nack m = 0"
      using assms(5,6) by (simp_all add: progress_def)
    from replies_ballot(2) [OF this(2) k this(1)] show ?thesis by simp
  next
    case PREPARE_REPLY
    then have "prepare_reply E r k m = Inr (r', m')" using assms(6) by (simp add: progress_def)
    from prepare_reply_ballot [OF this k] show ?thesis by simp
  next
    case PHASE1
    then show ?thesis using assms(4) by simp
  next
    case EXECUTE
    then show ?thesis using assms(6) k by (simp add: progress_def)
  next
    case (Unnamed_type n)
    then show ?thesis using assms(6) k by (simp add: progress_def)
  qed
qed

text \<open>
  C2. A promise is kept: once \<^verbatim>\<open>prepare\<close> has answered without a nack, every accept with a
  smaller ballot is refused, and neither it nor a pre-accept with a smaller ballot changes the
  instance.
\<close>

theorem promise_kept:
  assumes "prepare r k m = Inr (r1, m1)" and "\<not> m_ballot m < i_ballot i" and "r_insts r k = Some i"
    and "m_ballot m2 < m_ballot m" and "\<not> is_state (i_status i) (COMMITTED OR EXECUTED)"
    and "accept E r1 k m2 = Inr (r2, m2')" and "pre_accept E r1 k m3 = Inr (r3, m3')"
    and "m_ballot m3 < m_ballot m"
  shows "m_ballot m1 = m_ballot m \<and> m_nack m2' = 1 \<and> m_ballot m2' = m_ballot m \<and>
    m_type m2' = ACCEPT_REPLY \<and> r_insts r2 = r_insts r1 \<and> r_insts r3 = r_insts r1"
proof -
  have r1: "r_insts r1 k = Some (i\<lparr>i_ballot := m_ballot m\<rparr>)" and m1: "m_ballot m1 = m_ballot m"
    using assms(1,2,3) by (auto simp: prepare_def eval_simps)
  have acc: "m_nack m2' = 1 \<and> m_ballot m2' = m_ballot m \<and> m_type m2' = ACCEPT_REPLY \<and> r_insts r2 = r_insts r1"
    using assms(4,5,6) by (auto simp: accept_def load_Some [of "r_insts r1", OF r1] Let_def send_io_def)
  have "r_insts r3 = r_insts r1"
    using assms(7,8)
    by (auto simp: pre_accept_def load_Some [of "r_insts r1", OF r1] Let_def send_io_def split: if_splits)
  then show ?thesis using acc m1 by simp
qed

end
