(* ===== verification/Epx_Witness.thy ===== *)
theory Epx_Witness
  imports Epx_Protocol
begin

text \<open>
  Concrete inputs at which the hypotheses of the properties hold, and each property applied to
  one of them: a range and a command, a dependency array with two entries, the list model of
  the tree library, a replica with one committed instance, and one that was served an accept.
\<close>

section \<open>Concrete data\<close>

definition ex_span :: span where
  "ex_span = \<lparr>start_key = Key [97], end_key = Key [97]\<rparr>"

definition ex_command :: command where
  "ex_command = \<lparr>spans = ex_span # replicate 99 zero_span, tx_size = 1, cmd_id = 7, writing = WRITE\<rparr>"

definition ex_dep :: "u64 \<Rightarrow> u64 \<Rightarrow> u8 \<Rightarrow> dependency" where
  "ex_dep rid n c = \<lparr>dep_id = iid rid n, committed = c\<rparr>"

definition ex_deps :: "dependency list" where
  "ex_deps = [ex_dep 0 5 1, ex_dep 1 3 0, zero_dep, zero_dep, zero_dep, zero_dep, zero_dep, zero_dep]"

definition ex_inst :: inst where
  "ex_inst = new_instance\<lparr>i_key := iid 0 1, i_status := COMMITTED, i_command := Some 4, i_seq := 9,
     i_deps := ex_deps, i_ballot := 2\<rparr>"

definition ex_env :: "(u64 list, span list, u64 \<Rightarrow> u64 option) env" where
  "ex_env = \<lparr>env_tree = list_lib, dh_get = (\<lambda>d k. d k), dh_put = (\<lambda>d k v. d(k \<mapsto> v)),
     alloc_instance = True, alloc_tracker = True, alloc_message = True, malloc_message = zero_message\<rparr>"

definition ex_replica :: "(u64 list, u64 \<Rightarrow> u64 option) replica" where
  "ex_replica = \<lparr>r_id = 1, r_index = [[1], [], []], r_insts = [iid 0 1 \<mapsto> ex_inst],
     r_cmds = [4 \<mapsto> ex_command], r_dh = Map.empty, r_out = []\<rparr>"

lemma ex_span_keys [simp]: "start_key ex_span = Key [97]" "end_key ex_span = Key [97]"
  by (simp_all add: ex_span_def)

lemma list_lib_fuel: obtains n where "loop_fuel list_lib = Suc (Suc (Suc n))"
  by (rule that [of 61]) (simp add: list_lib_def)

lemma list_lib_moves:
  "ix_min list_lib t = list_min t" "ix_max list_lib t = list_max t"
  "ix_next list_lib t k = list_min (filter (\<lambda>j. k < j) t)"
  "ix_prev list_lib t k = list_max (filter (\<lambda>j. j < k) t)"
  "ix_delete list_lib t k = removeAll k t" "ix_find list_lib t k = (if k \<in> set t then Some k else None)"
  "ix_insert list_lib t k = (if k \<in> set t then (t, Some k) else (k # t, None))"
  by (simp_all add: list_lib_def)

lemma ex_env_laws: "index_laws (env_tree ex_env) set"
  by (simp add: ex_env_def list_lib_laws)

lemma ex_deps_wf [simp]: "wf_deps ex_deps"
  by (simp add: wf_deps_def ex_deps_def ex_dep_def live_deps_def live_def zero_dep_def zero_id_def MAX_DEPS_def)

lemma ex_deps_live: "live_deps ex_deps = [ex_dep 0 5 1, ex_dep 1 3 0]"
  by (simp add: ex_deps_def ex_dep_def live_deps_def live_def zero_dep_def zero_id_def)

lemma ex_replica_coherent: "coherent set ex_replica"
proof -
  have "agree set [[1], [], []] [iid 0 1 \<mapsto> ex_inst]"
    unfolding agree_def
  proof (intro conjI allI)
    show "length [[1], [], []] = N" by (simp add: N_def)
    fix k
    show "([iid 0 1 \<mapsto> ex_inst] k \<noteq> None) \<longleftrightarrow>
        unat (replica_id k) < N \<and> instance_id k \<in> set ([[1], [], []] ! unat (replica_id k))"
      by (cases k) (auto simp: N_def iid_def nth_Cons' unat_eq_0 split: if_splits)
  qed
  then show ?thesis
    by (simp add: coherent_def ex_replica_def wf_inst_def ex_inst_def new_instance_def)
qed

section \<open>Commands, dependencies and ballots\<close>

theorem overlap_sparse_spec_witness:
  "overlap_sparse ex_command ex_command [zero_span] = Inr (True, [ex_span])"
  using overlap_sparse_spec [of ex_command ex_command "[zero_span]"]
  by (simp add: ex_command_def overlap_list_def active_spans_def overlap_row_def)

theorem update_deps_refines_witness:
  "live_deps (fst (update_deps ex_deps (ex_dep 1 3 1))) =
     dep_update_spec (ex_dep 1 3 1) [ex_dep 0 5 1, ex_dep 1 3 0]"
  using update_deps_refines [of ex_deps "ex_dep 1 3 1"] by (simp add: ex_deps_live)

theorem update_deps_loses_oldest_witness:
  "ex_dep 1 3 0 \<notin> set (fst (update_deps ex_deps (ex_dep 2 7 0)))"
  using update_deps_loses_oldest [of ex_deps "ex_dep 2 7 0"]
  by (simp add: ex_deps_live ex_dep_def live_def)

theorem lt_dep_replica_newest_witness: "lt_dep_replica 1 ex_deps = 3"
  using lt_dep_replica_newest [of ex_deps 1]
  by (simp add: ex_deps_live ex_dep_def conj_disj_distribR Collect_disj_eq cong: conj_cong)

theorem has_uncommitted_deps_iff_witness: "has_uncommitted_deps ex_inst"
  using has_uncommitted_deps_iff [of ex_inst]
  by (simp add: ex_inst_def ex_deps_live) (simp add: ex_dep_def)

theorem sort_deps_correct_witness:
  "mset (sort_deps (rev ex_deps)) = mset ex_deps \<and>
   sorted_wrt (\<lambda>a b. did b \<le> did a) (sort_deps (rev ex_deps))"
  using sort_deps_correct [of "rev ex_deps"] wf_deps_length [OF ex_deps_wf] by simp

theorem larger_ballot_spec_witness:
  "larger_ballot 0xF1 2 < 0xF1 \<or> larger_ballot 0xF1 2 = 0xF1"
  using larger_ballot_spec [of 2 "0xF1"] by simp

section \<open>Walks over a tree\<close>

theorem merge_spans_hull_witness:
  "merge_spans list_lib [ex_span] ex_span [ex_span] = ([], ex_span, [ex_span])"
proof -
  obtain rt' m' grp where e: "merge_spans list_lib [ex_span] ex_span [ex_span] = (rt', m', grp)"
    by (metis prod_cases3)
  have "hull ex_span [ex_span] = ex_span" by (simp add: hull_def ex_span_def)
  then have take: "overlaps (hull ex_span []) ex_span" by simp
  from merge_spans_hull [OF e] obtain J where J: "merges ex_span [ex_span] J"
    and r: "m' = hull ex_span (nths [ex_span] J)" "grp = m' # nths [ex_span] (- J)"
      "rt' = fold (\<lambda>c r. sp_delete list_lib r c) (nths [ex_span] J) [ex_span]"
    by blast
  from J take have "0 \<in> J" by (simp add: merges_def)
  with r e \<open>hull ex_span [ex_span] = ex_span\<close> show ?thesis by (simp add: list_lib_def)
qed

theorem index_walks_end_witness:
  "no_bound (clear_index list_lib 0 ([1, 2], [iid 0 1 \<mapsto> ex_inst], Map.empty))"
  using index_walks_end [OF list_lib_laws, of "[1, 2]"] by (simp add: list_lib_def)

definition ex_read :: command where
  "ex_read = ex_command\<lparr>writing := READ\<rparr>"

theorem seq_deps_for_command_safe_witness:
  "\<exists>mseq cmds' p'. seq_deps_for_command list_lib [1] [iid 0 1 \<mapsto> ex_inst] 0 (Some 5) None
     ([4 \<mapsto> ex_read, 5 \<mapsto> ex_command], \<lparr>updated = 0, p_deps = zero_deps\<rparr>) = Inr (mseq, cmds', p')"
proof -
  let ?cs = "[4 \<mapsto> ex_read, 5 \<mapsto> ex_command]"
  have 1: "loaded_wf ?cs (Some 4) 1" "loaded_wf ?cs (Some 5) 1"
    by (simp_all add: loaded_wf_def load_cmd_eq_Inr ex_command_def ex_read_def wf_command_def TX_SIZE_def)
  have 2: "i_command ti = Some 4" if "walked (set [1]) [iid 0 1 \<mapsto> ex_inst] 0 None ti" for ti
    using that by (auto simp: walked_def ex_inst_def)
  from 1 2 have "walk_safe (set [1]) [iid 0 1 \<mapsto> ex_inst] 0 (Some 5) None ?cs"
    unfolding walk_safe_def by (auto intro!: exI [of _ 1] simp: TX_SIZE_def)
  moreover have "\<not> some_writer (set [1]) [iid 0 1 \<mapsto> ex_inst] 0 None ?cs"
  proof
    assume "some_writer (set [1]) [iid 0 1 \<mapsto> ex_inst] 0 None ?cs"
    then obtain ti tc where "walked (set [1]) [iid 0 1 \<mapsto> ex_inst] 0 None ti"
      and "load_cmd ?cs (i_command ti) = Inr tc" "writing tc = WRITE"
      by (auto simp: some_writer_def)
    with 2 [of ti] show False by (auto simp: load_cmd_eq_Inr ex_read_def)
  qed
  ultimately show ?thesis
    using seq_deps_for_command_safe [OF list_lib_laws, of "[1]" "[iid 0 1 \<mapsto> ex_inst]" 0 "Some 5" None ?cs
        "\<lparr>updated = 0, p_deps = zero_deps\<rparr>"]
    by (simp add: list_lib_def)
qed

text \<open>
  The other outcome occurs: two instances write the first range of a command that has two. The
  range of the newer is in the tree, its block is over, and the older one's is compared with it.
\<close>

definition ex_two :: command where
  "ex_two = \<lparr>spans = ex_span # \<lparr>start_key = Key [99], end_key = Key [99]\<rparr> # replicate 98 zero_span, tx_size = 2,
     cmd_id = 8, writing = WRITE\<rparr>"

lemma use_after_scope_occurs:
  "case seq_deps_for_command list_lib [1, 2]
     [iid 0 1 \<mapsto> ex_inst, iid 0 2 \<mapsto> ex_inst\<lparr>i_key := iid 0 2\<rparr>] 0 (Some 5) None
     ([4 \<mapsto> ex_command, 5 \<mapsto> ex_two], \<lparr>updated = 0, p_deps = zero_deps\<rparr>)
   of Inl f \<Rightarrow> f = Use_after_scope | Inr _ \<Rightarrow> False"
  by code_simp

theorem seq_deps_for_command_null_command_witness:
  "seq_deps_for_command list_lib [1] [iid 0 1 \<mapsto> ex_inst\<lparr>i_command := None\<rparr>] 0 (Some 4) None
     ([4 \<mapsto> ex_command], \<lparr>updated = 0, p_deps = zero_deps\<rparr>) = Inl Null_deref"
  by (rule seq_deps_for_command_null_command [OF list_lib_laws, where ti = "ex_inst\<lparr>i_command := None\<rparr>"])
     (simp_all add: list_lib_def ex_inst_def)

theorem pre_accept_conflict_blind_witness:
  "pre_accept_conflict list_lib [3, 4] Map.empty 1 ex_inst (Some 4) 9 ex_deps Map.empty
     = Inr (None, Map.empty)"
  by (rule pre_accept_conflict_blind [OF list_lib_laws]) (simp add: ex_inst_def)

theorem clear_index_only_executed_witness:
  "case clear_index list_lib 0 ([1, 2], [iid 0 1 \<mapsto> ex_inst\<lparr>i_status := EXECUTED, i_command := None\<rparr>,
        iid 0 2 \<mapsto> ex_inst\<lparr>i_status := EXECUTED, i_command := None\<rparr>], Map.empty) of
     Inr (ix', insts', cmds') \<Rightarrow> 2 \<in> set ix' | Inl _ \<Rightarrow> False"
proof -
  let ?is = "[iid 0 1 \<mapsto> ex_inst\<lparr>i_status := EXECUTED, i_command := None\<rparr>,
        iid 0 2 \<mapsto> ex_inst\<lparr>i_status := EXECUTED, i_command := None\<rparr>]"
  obtain n where "loop_fuel list_lib = Suc (Suc (Suc n))" by (rule list_lib_fuel)
  then obtain ix' insts' cmds' where e: "clear_index list_lib 0 ([1, 2], ?is, Map.empty) = Inr (ix', insts', cmds')"
    by (simp add: clear_index_def list_lib_moves list_min_def load_def Let_def
        destroy_instance_def is_state_def EXECUTED_def)
  have "Max (set [1, 2 :: u64]) = 2" by simp
  with clear_index_only_executed [OF list_lib_laws e] e show ?thesis by auto
qed

section \<open>The replica\<close>

definition ex_prepare :: message where
  "ex_prepare = zero_message\<lparr>m_type := PREPARE, m_id := iid 0 1, m_ballot := 0x12\<rparr>"

lemma zero_message_deps [simp]: "sized_deps (m_deps zero_message)"
  by (simp add: zero_message_def)

lemma ex_prepare_result:
  "\<exists>r' m' i'. progress ex_env ex_replica (iid 0 1) ex_prepare = Inr (r', m') \<and> r_insts r' (iid 0 1) = Some i'"
  by (simp add: progress_def ex_prepare_def prepare_def ex_replica_def load_def Let_def send_io_def)

theorem committed_stable_witness:
  "\<exists>r' m' i'. progress ex_env ex_replica (iid 0 1) ex_prepare = Inr (r', m') \<and>
     r_insts r' (iid 0 1) = Some i' \<and> same_decision ex_inst i'"
proof -
  obtain r' m' where e: "progress ex_env ex_replica (iid 0 1) ex_prepare = Inr (r', m')"
    using ex_prepare_result by blast
  have "\<exists>i'. r_insts r' (iid 0 1) = Some i' \<and> same_decision ex_inst i'"
    using committed_stable [OF ex_env_laws ex_replica_coherent _ _ _ _ _ _ e, of "iid 0 1" ex_inst]
    by (auto simp: ex_prepare_def ex_replica_def ex_inst_def)
  with e show ?thesis by blast
qed

theorem ballot_monotone_witness:
  "\<exists>r' m' i'. progress ex_env ex_replica (iid 0 1) ex_prepare = Inr (r', m') \<and>
     r_insts r' (iid 0 1) = Some i' \<and> 2 \<le> i_ballot i'"
proof -
  obtain r' m' i' where e: "progress ex_env ex_replica (iid 0 1) ex_prepare = Inr (r', m')"
    and i: "r_insts r' (iid 0 1) = Some i'"
    using ex_prepare_result by blast
  have "i_ballot ex_inst \<le> i_ballot i'"
    by (rule ballot_monotone [OF ex_env_laws ex_replica_coherent _ _ _ e _ i])
       (simp_all add: ex_prepare_def ex_replica_def)
  then show ?thesis using e i by (auto simp: ex_inst_def)
qed

theorem promise_kept_witness:
  "\<exists>r m r1 m1 r2 m2. prepare r (iid 0 1) m = Inr (r1, m1) \<and>
     accept ex_env r1 (iid 0 1) (m\<lparr>m_ballot := 0x11\<rparr>) = Inr (r2, m2) \<and>
     m_nack m2 = 1 \<and> r_insts r2 = r_insts r1"
proof -
  define i where "i = ex_inst\<lparr>i_status := ACCEPTED\<rparr>"
  define r where "r = ex_replica\<lparr>r_insts := [iid 0 1 \<mapsto> i]\<rparr>"
  have i: "r_insts r (iid 0 1) = Some i" by (simp add: r_def)
  obtain r1 m1 where p: "prepare r (iid 0 1) ex_prepare = Inr (r1, m1)"
    and r1: "r_insts r1 (iid 0 1) = Some (i\<lparr>i_ballot := 0x12\<rparr>)"
    by (simp add: prepare_def load_Some [of "r_insts r", OF i] Let_def send_io_def i_def ex_inst_def ex_prepare_def)
  let ?m = "ex_prepare\<lparr>m_ballot := 0x11\<rparr>"
  obtain r2 m2 where a: "accept ex_env r1 (iid 0 1) ?m = Inr (r2, m2)"
    by (simp add: accept_def load_Some [of "r_insts r1", OF r1] Let_def send_io_def i_def ex_prepare_def
        is_state_def state_defs)
  obtain r3 m3 where b: "pre_accept ex_env r1 (iid 0 1) ?m = Inr (r3, m3)"
    by (simp add: pre_accept_def load_Some [of "r_insts r1", OF r1] Let_def send_io_def i_def ex_prepare_def
        is_state_def state_defs)
  have "\<not> m_ballot ex_prepare < i_ballot i" "m_ballot ?m < m_ballot ex_prepare"
    "\<not> is_state (i_status i) (COMMITTED OR EXECUTED)"
    by (simp_all add: i_def ex_inst_def ex_prepare_def is_state_def state_defs)
  with promise_kept [OF p _ i _ _ a b] have "m_nack m2 = 1 \<and> r_insts r2 = r_insts r1" by blast
  with p a show ?thesis by blast
qed

text \<open>An accept for an instance the replica does not know, with its dependencies in no order.\<close>

definition ex_accept :: message where
  "ex_accept = zero_message\<lparr>m_type := ACCEPT, m_id := iid 0 1, m_ballot := 0x12, m_command := Some 4,
     m_deps := [ex_dep 1 3 0, ex_dep 0 5 1, ex_dep 1 3 0, zero_dep, ex_dep 2 9 0, zero_dep, zero_dep, zero_dep]\<rparr>"

lemma ex_accept_served:
  "\<exists>r. serve ex_env (Step ex_accept (Some ex_command)) (new_replica ex_env 1 Map.empty) = Inr (r, True) \<and>
     r_insts r (iid 0 1) \<noteq> None"
  by (simp add: serve_def deliver_def new_replica_def step_def ex_accept_def zero_message_def ex_env_def list_lib_moves
      find_instance_def register_instance_def index_at_def aget_def N_def init_timeout_def arm_timeout_def
      progress_def accept_def load_def Let_def send_io_def new_instance_def is_state_def state_defs nth_Cons' iid_def
      list_lib_def)

theorem reachable_coherent_witness:
  "\<exists>r i. serve ex_env (Step ex_accept (Some ex_command)) (new_replica ex_env 1 Map.empty) = Inr (r, True) \<and>
     r_insts r (iid 0 1) = Some i \<and> i_key i = iid 0 1 \<and> 1 \<in> set (r_index r ! 0) \<and> \<not> wf_deps (m_deps ex_accept)"
proof -
  obtain r i where s: "serve ex_env (Step ex_accept (Some ex_command)) (new_replica ex_env 1 Map.empty) = Inr (r, True)"
    and i: "r_insts r (iid 0 1) = Some i"
    using ex_accept_served by blast
  have "wf_input (Step ex_accept (Some ex_command))"
    by (simp add: ex_accept_def sized_deps_def MAX_DEPS_def)
  with s have "reachable ex_env 1 Map.empty r" by (blast intro: reachable.intros)
  from reachable_coherent [OF ex_env_laws this] i have "i_key i = iid 0 1 \<and> 1 \<in> set (r_index r ! 0)"
    by (auto simp: iid_def dest!: spec [of _ "iid 0 1"])
  moreover have "\<not> wf_deps (m_deps ex_accept)"
    by (simp add: wf_deps_def ex_accept_def ex_dep_def live_deps_def live_def zero_dep_def zero_id_def MAX_DEPS_def)
  ultimately show ?thesis using s i by blast
qed

theorem message_handling_ends_witness: "no_bound (step ex_env ex_prepare ex_replica)"
  using message_handling_ends [OF ex_env_laws, of ex_replica ex_prepare]
  by (simp add: ex_replica_def ex_env_def list_lib_def)

end
