(* ===== verification/Epx_Execute.thy ===== *)
theory Epx_Execute
  imports Epx_Replica
begin

text \<open>
  \<^verbatim>\<open>src/execute.c\<close>: the executor thread. Committed instances become vertices of a dependency
  graph; Tarjan's algorithm finds its strongly connected components, and a component is
  executed, in the order of sequence numbers, when everything it depends on outside itself is
  executed already.
\<close>

section \<open>State\<close>

text \<open>
  The hash table \<^verbatim>\<open>vertices\<close> is the \<^verbatim>\<open>khash\<close> library: looking up, inserting (with the
  assignment through \<^verbatim>\<open>kh_value\<close>), deleting, and the values in the order \<^verbatim>\<open>kh_foreach_value\<close>
  visits them.
\<close>

record 'v vertex_lib =
  vx_empty :: 'v
  vx_get :: "'v \<Rightarrow> u64 \<Rightarrow> nat option"
  vx_put :: "'v \<Rightarrow> u64 \<Rightarrow> nat \<Rightarrow> 'v"
  vx_del :: "'v \<Rightarrow> u64 \<Rightarrow> 'v"
  vx_values :: "'v \<Rightarrow> nat list"

text \<open>
  A \<^verbatim>\<open>struct tarjan_node*\<close> is an address in the heap of nodes; the instance a node points
  to is named by its identifier. The link \<^verbatim>\<open>next\<close> of the stack is not kept: the stack is the
  list of its nodes, the head first.
\<close>

record tarjan_node =
  tn_i :: instance_id
  tn_index :: int
  tn_low_link :: int
  tn_on_stack :: bool
  tn_deps :: "nat option list"

type_synonym scc = "nat option list"

record 'v executor =
  ex_vertices :: 'v
  ex_nodes :: "nat \<Rightarrow> tarjan_node option"
  ex_scc_count :: nat
  ex_stack :: "nat list"
  ex_sccs :: "scc list"
  ex_executed :: "instance_id option list"
  ex_index :: int

definition contains :: "scc \<Rightarrow> nat \<Rightarrow> bool" where
  "contains cs t \<longleftrightarrow> (\<exists>x \<in> set cs. x = Some t)"

definition new_tn :: "instance_id \<Rightarrow> tarjan_node" where
  "new_tn i = \<lparr>tn_i = i, tn_index = -1, tn_low_link = -1, tn_on_stack = False,
     tn_deps = replicate MAX_DEPS None\<rparr>"

definition not_visited :: "tarjan_node \<Rightarrow> bool" where
  "not_visited n \<longleftrightarrow> tn_index n < 0"

definition reset_node :: "tarjan_node \<Rightarrow> tarjan_node" where
  "reset_node n = n\<lparr>tn_index := -1, tn_low_link := -1, tn_on_stack := False,
     tn_deps := replicate MAX_DEPS None\<rparr>"

definition reset_exec :: "'v executor \<Rightarrow> 'v executor" where
  "reset_exec e = e\<lparr>ex_scc_count := 0, ex_sccs := replicate MAX_DEPS (replicate MAX_DEPS None),
     ex_executed := replicate MAX_DEPS None, ex_stack := [], ex_index := 0\<rparr>"

definition new_executor :: "'v vertex_lib \<Rightarrow> 'v executor \<Rightarrow> 'v executor" where
  "new_executor L e = e\<lparr>ex_vertices := vx_empty L, ex_stack := []\<rparr>"

definition set_node :: "nat \<Rightarrow> tarjan_node \<Rightarrow> 'v executor \<Rightarrow> 'v executor" where
  "set_node n t e = e\<lparr>ex_nodes := (ex_nodes e)(n \<mapsto> t)\<rparr>"

definition push :: "nat \<Rightarrow> 'v executor \<Rightarrow> 'v executor" where
  "push n e = e\<lparr>ex_stack := n # ex_stack e\<rparr>"

section \<open>Strongly connected components\<close>

text \<open>The first lines of \<^verbatim>\<open>visit\<close>.\<close>

definition enter :: "nat \<Rightarrow> tarjan_node \<Rightarrow> 'v executor \<Rightarrow> 'v executor" where
  "enter n t e =
     push n (set_node n (t\<lparr>tn_index := ex_index e, tn_low_link := ex_index e, tn_on_stack := True\<rparr>)
               (e\<lparr>ex_index := ex_index e + 1\<rparr>))"

definition lower :: "nat \<Rightarrow> int \<Rightarrow> 'v executor \<Rightarrow> 'v executor res" where
  "lower n k e =
     and_then (load (ex_nodes e) n) (\<lambda>t. Inr (set_node n (t\<lparr>tn_low_link := min (tn_low_link t) k\<rparr>) e))"

text \<open>The loop that pops a component: a pop from an empty stack is followed and faults.\<close>

fun pop_scc :: "nat \<Rightarrow> nat \<Rightarrow> nat list \<Rightarrow> 'v executor \<Rightarrow> 'v executor res" where
  "pop_scc n cnt [] e = Inl Null_deref"
| "pop_scc n cnt (tn # st) e =
     and_then (load (ex_nodes e) tn) (\<lambda>t.
       let e1 = set_node tn (t\<lparr>tn_on_stack := False\<rparr>) (e\<lparr>ex_stack := st\<rparr>) in
       and_then (aget (ex_sccs e) (ex_scc_count e)) (\<lambda>c.
         and_then (aset c cnt (Some tn)) (\<lambda>c'.
           let e2 = e1\<lparr>ex_sccs := (ex_sccs e)[ex_scc_count e := c']\<rparr> in
           if tn = n then Inr e2 else pop_scc n (Suc cnt) st e2)))"

definition close_scc :: "nat \<Rightarrow> 'v executor \<Rightarrow> 'v executor res" where
  "close_scc n e =
     and_then (load (ex_nodes e) n) (\<lambda>t.
       if tn_low_link t = tn_index t then
         and_then (pop_scc n 0 (ex_stack e) e) (\<lambda>e'. Inr (e'\<lparr>ex_scc_count := ex_scc_count e' + 1\<rparr>))
       else Inr e)"

text \<open>
  \<^verbatim>\<open>visit\<close> with its loop over the dependencies; \<open>fuel\<close> bounds the depth of the recursion.
\<close>

function visit :: "nat \<Rightarrow> nat \<Rightarrow> 'v executor \<Rightarrow> 'v executor res"
  and visit_deps :: "nat \<Rightarrow> nat \<Rightarrow> nat option list \<Rightarrow> 'v executor \<Rightarrow> 'v executor res" where
  "visit 0 n e = Inl Loop_bound"
| "visit (Suc fuel) n e =
     and_then (load (ex_nodes e) n) (\<lambda>t.
       and_then (visit_deps fuel n (tn_deps t) (enter n t e)) (close_scc n))"
| "visit_deps fuel n [] e = Inr e"
| "visit_deps fuel n (None # ds) e = visit_deps fuel n ds e"
| "visit_deps fuel n (Some d # ds) e =
     and_then (load (ex_nodes e) d) (\<lambda>t.
       and_then
         (if not_visited t then
            and_then (visit fuel d e) (\<lambda>e1.
              and_then (load (ex_nodes e1) d) (\<lambda>t1. lower n (tn_low_link t1) e1))
          else if tn_on_stack t then lower n (tn_index t) e
          else Inr e)
         (visit_deps fuel n ds))"
  by pat_completeness auto

termination
  by (relation "measures [\<lambda>x. case x of Inl (fuel, _) \<Rightarrow> 2 * fuel | Inr (fuel, _) \<Rightarrow> 2 * fuel + 1,
      \<lambda>x. case x of Inl _ \<Rightarrow> 0 | Inr (_, _, ds, _) \<Rightarrow> length ds]") auto

text \<open>The first loop of \<^verbatim>\<open>strong_connect\<close> resets a node and links it to its dependencies' nodes.\<close>

definition dep_node :: "'v vertex_lib \<Rightarrow> 'v \<Rightarrow> dependency \<Rightarrow> nat option" where
  "dep_node L v d = (if instance_id (dep_id d) = 0 then None else vx_get L v (dh_key (dep_id d)))"

definition link_node :: "'v vertex_lib \<Rightarrow> insts \<Rightarrow> nat \<Rightarrow> 'v executor \<Rightarrow> 'v executor res" where
  "link_node L insts n e =
     and_then (load (ex_nodes e) n) (\<lambda>t.
       and_then (load insts (tn_i t)) (\<lambda>i.
         Inr (set_node n ((reset_node t)\<lparr>tn_deps := map (dep_node L (ex_vertices e)) (i_deps i)\<rparr>) e)))"

definition visit_new :: "nat \<Rightarrow> nat \<Rightarrow> 'v executor \<Rightarrow> 'v executor res" where
  "visit_new fuel n e =
     and_then (load (ex_nodes e) n) (\<lambda>t. if not_visited t then visit fuel n e else Inr e)"

definition strong_connect :: "'v vertex_lib \<Rightarrow> insts \<Rightarrow> 'v executor \<Rightarrow> 'v executor res" where
  "strong_connect L insts e =
     (let vs = vx_values L (ex_vertices e) in
      and_then (for_each vs (link_node L insts) e) (for_each vs (visit_new (length vs))))"

section \<open>Vertices\<close>

text \<open>
  \<open>a\<close> is the address \<^verbatim>\<open>malloc\<close> returned for the node. A node with the same key is freed and
  replaced, and then nothing was added. That \<^verbatim>\<open>kh_put\<close> itself fails, for want of memory, is not modelled: the library's map takes
  every key.
\<close>

definition add_node :: "'v vertex_lib \<Rightarrow> nat option \<Rightarrow> inst \<Rightarrow> 'v executor \<Rightarrow> ('v executor \<times> bool) res" where
  "add_node L a i e =
     (case a of
        None \<Rightarrow> Inr (e, False)
      | Some n \<Rightarrow>
          let e1 = set_node n (new_tn (i_key i)) e;
              k = dh_key (i_key i) in
          case vx_get L (ex_vertices e1) k of
            None \<Rightarrow> Inr (e1\<lparr>ex_vertices := vx_put L (ex_vertices e1) k n\<rparr>, True)
          | Some old \<Rightarrow>
              and_then (load (ex_nodes e1) old) (\<lambda>_.
                Inr (e1\<lparr>ex_nodes := (ex_nodes e1)(old := None),
                        ex_vertices := vx_put L (ex_vertices e1) k n\<rparr>, False)))"

section \<open>Executing a component\<close>

text \<open>
  One round of \<^verbatim>\<open>sort_scc\<close> on the node at position \<open>i\<close>: the shift loop stops at an empty slot
  or at a node whose sequence number is not larger.
\<close>

definition seq_of :: "insts \<Rightarrow> (nat \<Rightarrow> tarjan_node option) \<Rightarrow> nat \<Rightarrow> u64 res" where
  "seq_of insts nodes n =
     and_then (load nodes n) (\<lambda>t. and_then (load insts (tn_i t)) (\<lambda>i. Inr (i_seq i)))"

fun shift_scc :: "insts \<Rightarrow> (nat \<Rightarrow> tarjan_node option) \<Rightarrow> u64 \<Rightarrow> nat \<Rightarrow> nat \<Rightarrow> scc \<Rightarrow> scc res" where
  "shift_scc insts nodes s d 0 c = aset c 0 (Some d)"
| "shift_scc insts nodes s d (Suc j) c =
     and_then (aget c j) (\<lambda>x.
       case x of
         None \<Rightarrow> aset c (Suc j) (Some d)
       | Some y \<Rightarrow> and_then (seq_of insts nodes y) (\<lambda>sy.
           if sy > s then and_then (aset c (Suc j) (Some y)) (shift_scc insts nodes s d j)
           else aset c (Suc j) (Some d)))"

definition sort_scc :: "insts \<Rightarrow> (nat \<Rightarrow> tarjan_node option) \<Rightarrow> scc \<Rightarrow> scc res" where
  "sort_scc insts nodes c =
     for_each [1..<MAX_DEPS] (\<lambda>i c.
       and_then (aget c i) (\<lambda>x.
         case x of
           None \<Rightarrow> Inr c
         | Some d \<Rightarrow> and_then (seq_of insts nodes d) (\<lambda>s. shift_scc insts nodes s d i c))) c"

text \<open>
  The first loop of \<^verbatim>\<open>execute_scc\<close>: may the component run? A dependency counts as satisfied
  when its vertex is in the component or the replica has its instance as executed. \<open>lookup\<close> is
  \<^verbatim>\<open>find_instance\<close> on the replica, which the executor reads from its own thread.
\<close>

definition dep_ready :: "'v vertex_lib \<Rightarrow> (instance_id \<Rightarrow> instance_id option res) \<Rightarrow> insts \<Rightarrow>
    'v executor \<Rightarrow> scc \<Rightarrow> dependency \<Rightarrow> bool res" where
  "dep_ready L lookup insts e cs d =
     (if instance_id (dep_id d) = 0 then Inr True
      else case vx_get L (ex_vertices e) (dh_key (dep_id d)) of
        Some v \<Rightarrow> if contains cs v then Inr True
                  else and_then (lookup (dep_id d)) (\<lambda>f. case f of
                         None \<Rightarrow> Inr False
                       | Some k \<Rightarrow> and_then (load insts k) (\<lambda>i. Inr (is_state (i_status i) EXECUTED)))
      | None \<Rightarrow> and_then (lookup (dep_id d)) (\<lambda>f. case f of
                         None \<Rightarrow> Inr False
                       | Some k \<Rightarrow> and_then (load insts k) (\<lambda>i. Inr (is_state (i_status i) EXECUTED))))"

fun deps_ready :: "'v vertex_lib \<Rightarrow> (instance_id \<Rightarrow> instance_id option res) \<Rightarrow> insts \<Rightarrow>
    'v executor \<Rightarrow> scc \<Rightarrow> dependency list \<Rightarrow> bool res" where
  "deps_ready L lookup insts e cs [] = Inr True"
| "deps_ready L lookup insts e cs (d # ds) =
     and_then (dep_ready L lookup insts e cs d) (\<lambda>ok.
       if ok then deps_ready L lookup insts e cs ds else Inr False)"

fun scc_ready :: "'v vertex_lib \<Rightarrow> (instance_id \<Rightarrow> instance_id option res) \<Rightarrow> insts \<Rightarrow>
    'v executor \<Rightarrow> scc \<Rightarrow> scc \<Rightarrow> bool res" where
  "scc_ready L lookup insts e cs [] = Inr True"
| "scc_ready L lookup insts e cs (None # vs) = scc_ready L lookup insts e cs vs"
| "scc_ready L lookup insts e cs (Some v # vs) =
     and_then (load (ex_nodes e) v) (\<lambda>t.
       and_then (load insts (tn_i t)) (\<lambda>i.
         and_then (deps_ready L lookup insts e cs (i_deps i)) (\<lambda>ok.
           if ok then scc_ready L lookup insts e cs vs else Inr False)))"

text \<open>The second loop marks the instances executed, deletes their vertices and frees their nodes.\<close>

definition execute_at :: "'v vertex_lib \<Rightarrow> scc \<Rightarrow> nat \<Rightarrow> 'v executor \<times> insts \<Rightarrow> ('v executor \<times> insts) res" where
  "execute_at L cs j = (\<lambda>(e, insts).
     and_then (aget cs j) (\<lambda>x.
       case x of
         None \<Rightarrow> Inr (e, insts)
       | Some v \<Rightarrow>
           and_then (load (ex_nodes e) v) (\<lambda>t.
             and_then (aset (ex_executed e) j (Some (tn_i t))) (\<lambda>ran.
               and_then (load insts (tn_i t)) (\<lambda>i.
                 let k = dh_key (i_key i) in
                 Inr (e\<lparr>ex_executed := ran,
                        ex_vertices := (if vx_get L (ex_vertices e) k = None then ex_vertices e
                                        else vx_del L (ex_vertices e) k),
                        ex_nodes := (ex_nodes e)(v := None)\<rparr>,
                      insts(tn_i t \<mapsto> i\<lparr>i_status := EXECUTED\<rparr>)))))))"

definition execute_scc :: "'v vertex_lib \<Rightarrow> (instance_id \<Rightarrow> instance_id option res) \<Rightarrow> nat \<Rightarrow>
    'v executor \<times> insts \<Rightarrow> ('v executor \<times> insts) res" where
  "execute_scc L lookup c = (\<lambda>(e, insts).
     and_then (aget (ex_sccs e) c) (\<lambda>cs.
       and_then (scc_ready L lookup insts e cs cs) (\<lambda>ready.
         if \<not> ready then Inr (e, insts)
         else and_then (sort_scc insts (ex_nodes e) cs) (\<lambda>cs'.
           for_each [0..<MAX_DEPS] (execute_at L cs')
             (e\<lparr>ex_sccs := (ex_sccs e)[c := cs']\<rparr>, insts)))))"

definition execute :: "'v vertex_lib \<Rightarrow> (instance_id \<Rightarrow> instance_id option res) \<Rightarrow>
    'v executor \<times> insts \<Rightarrow> ('v executor \<times> insts) res" where
  "execute L lookup = (\<lambda>(e, insts).
     and_then (strong_connect L insts e) (\<lambda>e1.
       and_then (for_each [0..<ex_scc_count e1] (execute_scc L lookup) (e1, insts)) (\<lambda>(e2, insts').
         Inr (reset_exec e2, insts'))))"

text \<open>One round of \<^verbatim>\<open>run_execute\<close>: an instance arrives on the channel (\<open>None\<close>: a null pointer).\<close>

definition run_execute :: "'v vertex_lib \<Rightarrow> (instance_id \<Rightarrow> instance_id option res) \<Rightarrow>
    nat option \<Rightarrow> inst option \<Rightarrow> 'v executor \<times> insts \<Rightarrow> ('v executor \<times> insts) res" where
  "run_execute L lookup a arrived = (\<lambda>(e, insts).
     case arrived of
       None \<Rightarrow> Inr (e, insts)
     | Some i \<Rightarrow> and_then (add_node L a i e) (\<lambda>(e', added).
         if added then execute L lookup (e', insts) else Inr (e', insts)))"

end
