(* ===== verification/Epx_Tarjan.thy ===== *)
theory Epx_Tarjan
  imports Epx_Execute
begin

text \<open>
  Correctness of \<^verbatim>\<open>strong_connect\<close> in \<^verbatim>\<open>src/execute.c\<close>: over a closed graph the search ends, it
  leaves an empty stack, and what it emits are exactly the strongly connected components,
  dependencies first. The arrays of \<^verbatim>\<open>MAX_DEPS\<close> entries are overrun only when there are more
  vertices than that.
\<close>

section \<open>The graph and the state of the search\<close>

definition graph :: "nat set \<Rightarrow> (nat \<Rightarrow> nat option list) \<Rightarrow> bool" where
  "graph V D \<longleftrightarrow> finite V \<and> (\<forall>v \<in> V. \<forall>w. Some w \<in> set (D v) \<longrightarrow> w \<in> V)"

definition edges :: "nat set \<Rightarrow> (nat \<Rightarrow> nat option list) \<Rightarrow> (nat \<times> nat) set" where
  "edges V D = {(v, w). v \<in> V \<and> Some w \<in> set (D v)}"

definition idx :: "'v executor \<Rightarrow> nat \<Rightarrow> int" where
  "idx e v = (case ex_nodes e v of None \<Rightarrow> -1 | Some t \<Rightarrow> tn_index t)"

definition low :: "'v executor \<Rightarrow> nat \<Rightarrow> int" where
  "low e v = (case ex_nodes e v of None \<Rightarrow> -1 | Some t \<Rightarrow> tn_low_link t)"

abbreviation visited :: "'v executor \<Rightarrow> nat \<Rightarrow> bool" where
  "visited e v \<equiv> 0 \<le> idx e v"

definition nodes_ok :: "nat set \<Rightarrow> (nat \<Rightarrow> nat option list) \<Rightarrow> 'v executor \<Rightarrow> bool" where
  "nodes_ok V D e \<longleftrightarrow> (\<forall>v \<in> V. \<exists>t. ex_nodes e v = Some t \<and> tn_deps t = D v \<and>
     (tn_on_stack t \<longleftrightarrow> v \<in> set (ex_stack e)))"

definition stack_ok :: "nat set \<Rightarrow> (nat \<Rightarrow> nat option list) \<Rightarrow> 'v executor \<Rightarrow> bool" where
  "stack_ok V D e \<longleftrightarrow> 0 \<le> ex_index e \<and> (\<forall>v \<in> V. idx e v < ex_index e) \<and> set (ex_stack e) \<subseteq> V \<and>
     sorted_wrt (\<lambda>a b. idx e b < idx e a) (ex_stack e) \<and> (\<forall>v \<in> set (ex_stack e). visited e v) \<and>
     (\<forall>a \<in> set (ex_stack e). \<forall>b \<in> set (ex_stack e). idx e a \<le> idx e b \<longrightarrow> (a, b) \<in> (edges V D)\<^sup>*)"

text \<open>The components emitted so far, each as a set of nodes.\<close>

definition emitted :: "'v executor \<Rightarrow> nat \<Rightarrow> nat set" where
  "emitted e j = {v. Some v \<in> set (ex_sccs e ! j)}"

definition finished :: "nat set \<Rightarrow> 'v executor \<Rightarrow> nat set" where
  "finished V e = {v \<in> V. visited e v \<and> v \<notin> set (ex_stack e)}"

definition packed :: "scc \<Rightarrow> bool" where
  "packed c \<longleftrightarrow> (\<exists>xs. distinct xs \<and> length xs \<le> MAX_DEPS \<and>
     c = map Some xs @ replicate (MAX_DEPS - length xs) None)"

lemma packedI:
  "distinct xs \<Longrightarrow> length xs \<le> MAX_DEPS \<Longrightarrow> packed (map Some xs @ replicate (MAX_DEPS - length xs) None)"
  unfolding packed_def by blast

definition arrays_ok :: "'v executor \<Rightarrow> bool" where
  "arrays_ok e \<longleftrightarrow> length (ex_sccs e) = MAX_DEPS \<and> ex_scc_count e \<le> MAX_DEPS \<and>
     (\<forall>j. ex_scc_count e \<le> j \<longrightarrow> j < MAX_DEPS \<longrightarrow> ex_sccs e ! j = replicate MAX_DEPS None) \<and>
     (\<forall>j < ex_scc_count e. packed (ex_sccs e ! j))"

definition sccs_ok :: "nat set \<Rightarrow> (nat \<Rightarrow> nat option list) \<Rightarrow> 'v executor \<Rightarrow> bool" where
  "sccs_ok V D e \<longleftrightarrow>
     finished V e = (\<Union>j < ex_scc_count e. emitted e j) \<and>
     (\<forall>j < ex_scc_count e. emitted e j \<noteq> {} \<and> (\<forall>a \<in> emitted e j. \<forall>b \<in> emitted e j. (a, b) \<in> (edges V D)\<^sup>*)) \<and>
     (\<forall>j < ex_scc_count e. \<forall>a \<in> emitted e j. \<forall>w. (a, w) \<in> edges V D \<longrightarrow> (\<exists>i \<le> j. w \<in> emitted e i)) \<and>
     (\<forall>j < ex_scc_count e. \<forall>i < j. emitted e i \<inter> emitted e j = {})"

definition tarjan_inv :: "nat set \<Rightarrow> (nat \<Rightarrow> nat option list) \<Rightarrow> 'v executor \<Rightarrow> bool" where
  "tarjan_inv V D e \<longleftrightarrow> nodes_ok V D e \<and> stack_ok V D e \<and> arrays_ok e \<and> sccs_ok V D e"

text \<open>What a step promises: a result, or the overrun of an array, and that only if \<open>B\<close>.\<close>

definition outcome :: "bool \<Rightarrow> ('a \<Rightarrow> bool) \<Rightarrow> 'a res \<Rightarrow> bool" where
  "outcome B P m \<longleftrightarrow> (case m of Inr x \<Rightarrow> P x | Inl f \<Rightarrow> f = Out_of_bounds \<and> B)"

lemma outcome_Inr [simp]: "outcome B P (Inr x) \<longleftrightarrow> P x"
  by (simp add: outcome_def)

lemma outcome_Inl [simp]: "outcome B P (Inl f) \<longleftrightarrow> f = Out_of_bounds \<and> B"
  by (simp add: outcome_def)

lemma outcome_and_then:
  "outcome B Q m \<Longrightarrow> (\<And>x. Q x \<Longrightarrow> outcome B P (f x)) \<Longrightarrow> outcome B P (and_then m f)"
  by (cases m) simp_all

lemma outcome_mono: "outcome B Q m \<Longrightarrow> (\<And>x. Q x \<Longrightarrow> P x) \<Longrightarrow> outcome B P m"
  by (cases m) simp_all

section \<open>Simplification of state changes\<close>

lemma set_node_simps [simp]:
  "ex_nodes (set_node n t e) = (ex_nodes e)(n \<mapsto> t)" "ex_stack (set_node n t e) = ex_stack e"
  "ex_sccs (set_node n t e) = ex_sccs e" "ex_scc_count (set_node n t e) = ex_scc_count e"
  "ex_index (set_node n t e) = ex_index e" "ex_vertices (set_node n t e) = ex_vertices e"
  by (simp_all add: set_node_def)

lemma idx_set_node [simp]: "idx (set_node n t e) v = (if v = n then tn_index t else idx e v)"
  by (simp add: idx_def)

lemma low_set_node [simp]: "low (set_node n t e) v = (if v = n then tn_low_link t else low e v)"
  by (simp add: low_def)

lemma idx_other [simp]:
  "idx (e\<lparr>ex_stack := s\<rparr>) v = idx e v" "idx (e\<lparr>ex_sccs := x\<rparr>) v = idx e v"
  "idx (e\<lparr>ex_scc_count := k\<rparr>) v = idx e v" "idx (e\<lparr>ex_index := i\<rparr>) v = idx e v"
  "low (e\<lparr>ex_stack := s\<rparr>) v = low e v" "low (e\<lparr>ex_sccs := x\<rparr>) v = low e v"
  "low (e\<lparr>ex_scc_count := k\<rparr>) v = low e v" "low (e\<lparr>ex_index := i\<rparr>) v = low e v"
  by (simp_all add: idx_def low_def)

lemma idx_Some: "ex_nodes e v = Some t \<Longrightarrow> idx e v = tn_index t"
  by (simp add: idx_def)

lemma low_Some: "ex_nodes e v = Some t \<Longrightarrow> low e v = tn_low_link t"
  by (simp add: low_def)

lemma inv_node:
  assumes "tarjan_inv V D e" and "v \<in> V"
  obtains t where "ex_nodes e v = Some t" "tn_deps t = D v" "tn_on_stack t \<longleftrightarrow> v \<in> set (ex_stack e)"
    "idx e v = tn_index t" "low e v = tn_low_link t"
proof -
  from assms obtain t where t: "ex_nodes e v = Some t" "tn_deps t = D v" "tn_on_stack t \<longleftrightarrow> v \<in> set (ex_stack e)"
    unfolding tarjan_inv_def nodes_ok_def by blast
  show ?thesis by (rule that [OF t idx_Some [OF t(1)] low_Some [OF t(1)]])
qed

text \<open>Only the low link of a node changes.\<close>

definition with_low :: "nat \<Rightarrow> int \<Rightarrow> 'v executor \<Rightarrow> 'v executor" where
  "with_low n k e = (case ex_nodes e n of None \<Rightarrow> e | Some t \<Rightarrow> set_node n (t\<lparr>tn_low_link := k\<rparr>) e)"

lemma with_low_simps [simp]:
  "ex_stack (with_low n k e) = ex_stack e" "ex_sccs (with_low n k e) = ex_sccs e"
  "ex_scc_count (with_low n k e) = ex_scc_count e" "ex_index (with_low n k e) = ex_index e"
  "idx (with_low n k e) v = idx e v"
  by (auto simp: with_low_def idx_def split: option.split)

lemma low_with_low: "ex_nodes e n = Some t \<Longrightarrow> low (with_low n k e) v = (if v = n then k else low e v)"
  by (simp add: with_low_def low_def)

lemma inv_with_low [simp]: "tarjan_inv V D (with_low n k e) \<longleftrightarrow> tarjan_inv V D e"
proof -
  have "nodes_ok V D (with_low n k e) \<longleftrightarrow> nodes_ok V D e"
    unfolding nodes_ok_def by (cases "ex_nodes e n") (auto simp: with_low_def)
  then show ?thesis
    by (simp add: tarjan_inv_def stack_ok_def arrays_ok_def sccs_ok_def emitted_def finished_def)
qed

lemma lower_eq: "ex_nodes e n = Some t \<Longrightarrow> lower n k e = Inr (with_low n (min (low e n) k) e)"
  by (simp add: lower_def with_low_def load_def low_def)

section \<open>Visiting a node\<close>

text \<open>
  What a finished visit of \<open>n\<close> from \<open>e\<close> guarantees: nodes seen before keep their index, and
  the stack grew by nodes that reach \<open>n\<close> and whose edges to the stack stay above the low link
  of \<open>n\<close>; unless the component of \<open>n\<close> was emitted, that low link is the index of an older node
  of the stack that \<open>n\<close> reaches.
\<close>

definition upper :: "nat set \<Rightarrow> (nat \<Rightarrow> nat option list) \<Rightarrow> nat \<Rightarrow> nat list \<Rightarrow> 'v executor \<Rightarrow> bool" where
  "upper V D n vs e \<longleftrightarrow> (\<forall>v \<in> set vs. (v, n) \<in> (edges V D)\<^sup>* \<and>
     (\<forall>w. (v, w) \<in> edges V D \<longrightarrow> visited e w \<and> (w \<in> set (ex_stack e) \<longrightarrow> low e n \<le> idx e w)))"

definition older :: "nat set \<Rightarrow> (nat \<Rightarrow> nat option list) \<Rightarrow> nat \<Rightarrow> 'v executor \<Rightarrow> int \<Rightarrow> bool" where
  "older V D n e k \<longleftrightarrow> (\<exists>w \<in> set (ex_stack e). idx e w = k \<and> (n, w) \<in> (edges V D)\<^sup>*)"

definition extends :: "nat set \<Rightarrow> 'v executor \<Rightarrow> 'v executor \<Rightarrow> bool" where
  "extends V e e' \<longleftrightarrow> ex_index e < ex_index e' \<and> (\<forall>v \<in> V. visited e v \<longrightarrow> idx e' v = idx e v) \<and>
     (\<forall>v \<in> set (ex_stack e). low e' v = low e v)"

definition post_visit :: "nat set \<Rightarrow> (nat \<Rightarrow> nat option list) \<Rightarrow> nat \<Rightarrow> 'v executor \<Rightarrow> 'v executor \<Rightarrow> bool" where
  "post_visit V D n e e' \<longleftrightarrow> tarjan_inv V D e' \<and> extends V e e' \<and> idx e' n = ex_index e \<and>
     (\<exists>new. ex_stack e' = new @ ex_stack e \<and> upper V D n new e' \<and>
        (if new = [] then low e' n = idx e' n else low e' n < idx e' n \<and> older V D n e (low e' n)))"

text \<open>The loop of the visit of \<open>n\<close>, entered from \<open>e0\<close>, after the dependencies \<open>P\<close>.\<close>

definition mid_visit :: "nat set \<Rightarrow> (nat \<Rightarrow> nat option list) \<Rightarrow> nat \<Rightarrow> 'v executor \<Rightarrow> nat set \<Rightarrow> 'v executor \<Rightarrow> bool" where
  "mid_visit V D n e0 P e \<longleftrightarrow> tarjan_inv V D e \<and> extends V e0 e \<and> idx e n = ex_index e0 \<and>
     low e n \<le> idx e n \<and> (low e n = idx e n \<or> older V D n e0 (low e n)) \<and>
     (\<exists>new. ex_stack e = new @ n # ex_stack e0 \<and> upper V D n new e) \<and>
     P \<subseteq> V \<and> (\<forall>p \<in> P. visited e p \<and> (p \<in> set (ex_stack e) \<longrightarrow> low e n \<le> idx e p))"

lemma edges_in: "graph V D \<Longrightarrow> (v, w) \<in> edges V D \<Longrightarrow> v \<in> V \<and> w \<in> V"
  by (auto simp: graph_def edges_def)

lemma stack_sorted:
  assumes "tarjan_inv V D e" and "ex_stack e = xs @ n # ys"
  shows "\<forall>v \<in> set xs. idx e n < idx e v" and "\<forall>v \<in> set ys. idx e v < idx e n"
  using assms by (auto simp: tarjan_inv_def stack_ok_def sorted_wrt_append)

lemma stack_reach:
  assumes "tarjan_inv V D e" and "a \<in> set (ex_stack e)" and "b \<in> set (ex_stack e)" and "idx e a \<le> idx e b"
  shows "(a, b) \<in> (edges V D)\<^sup>*"
  using assms by (auto simp: tarjan_inv_def stack_ok_def)

lemma stack_in:
  assumes "tarjan_inv V D e" and "v \<in> set (ex_stack e)"
  shows "v \<in> V" and "visited e v" and "idx e v < ex_index e"
  using assms by (auto simp: tarjan_inv_def stack_ok_def)

lemma extends_trans:
  assumes "extends V a b" and "extends V b c" and "set (ex_stack a) \<subseteq> set (ex_stack b)"
  shows "extends V a c"
  using assms unfolding extends_def by fastforce

lemma mid_after_visit:
  assumes g: "graph V D" and mid: "mid_visit V D n e0 P e" and inv0: "tarjan_inv V D e0"
    and nd: "(n, d) \<in> edges V D" and post: "post_visit V D d e e'"
  shows "mid_visit V D n e0 (insert d P) (with_low n (min (low e' n) (low e' d)) e')"
proof -
  have inv: "tarjan_inv V D e" and inv': "tarjan_inv V D e'" and ext: "extends V e e'" "extends V e0 e"
    and idn0: "idx e n = ex_index e0" and lown: "low e n \<le> idx e n"
    and wit: "low e n = idx e n \<or> older V D n e0 (low e n)"
    and P: "\<forall>p \<in> P. visited e p \<and> (p \<in> set (ex_stack e) \<longrightarrow> low e n \<le> idx e p)"
    and id: "idx e' d = ex_index e" and PV: "P \<subseteq> V"
    using mid post by (auto simp: mid_visit_def post_visit_def)
  from mid obtain xs where st: "ex_stack e = xs @ n # ex_stack e0" and up: "upper V D n xs e"
    by (auto simp: mid_visit_def)
  from post obtain new where st': "ex_stack e' = new @ ex_stack e" and up': "upper V D d new e'"
    and top: "if new = [] then low e' d = idx e' d else low e' d < idx e' d \<and> older V D d e (low e' d)"
    by (auto simp: post_visit_def)
  have nin: "n \<in> set (ex_stack e)" by (simp add: st)
  have n: "n \<in> V" "d \<in> V" using edges_in [OF g nd] by auto
  obtain t where t: "ex_nodes e' n = Some t" by (rule inv_node [OF inv' n(1)])
  have ln: "low e' n = low e n" and idn: "idx e' n = idx e n"
    using ext(1) nin n(1) stack_in [OF inv nin] by (auto simp: extends_def)
  let ?k = "min (low e' n) (low e' d)" and ?e = "with_low n (min (low e' n) (low e' d)) e'"
  have nd_lt: "idx e n < idx e' d" using stack_in(3) [OF inv nin] id by simp
  have same: "visited e v \<Longrightarrow> v \<in> V \<Longrightarrow> idx e' v = idx e v" for v
    using ext(1) by (simp add: extends_def)
  have newer: "idx e' n < idx e' v" if "v \<in> set new" for v
    using stack_sorted(1) [OF inv', of "new @ xs" n "ex_stack e0"] st st' that by simp
  have k_le: "?k \<le> idx e' v" if "v \<in> set (ex_stack e')" "visited e v" "v \<in> V"
      "v \<in> set (ex_stack e) \<Longrightarrow> low e n \<le> idx e v" for v
  proof (cases "v \<in> set (ex_stack e)")
    case True
    then show ?thesis using that(4) same [OF that(2,3)] ln by simp
  next
    case False
    then have "v \<in> set new" using that(1) st' by simp
    then show ?thesis using newer lown ln idn by fastforce
  qed
  have reach: "(v, n) \<in> (edges V D)\<^sup>*" if v: "v \<in> set new" for v
  proof -
    have "(v, d) \<in> (edges V D)\<^sup>*" using up' v by (simp add: upper_def)
    moreover from v top obtain w where w: "w \<in> set (ex_stack e)" "(d, w) \<in> (edges V D)\<^sup>*"
      by (auto simp: older_def split: if_splits)
    have "(w, n) \<in> (edges V D)\<^sup>*"
    proof (cases "w \<in> set xs")
      case True
      then show ?thesis using up by (simp add: upper_def)
    next
      case False
      then have "idx e w \<le> idx e n" using w(1) st stack_sorted(2) [OF inv st] by auto
      then show ?thesis by (rule stack_reach [OF inv w(1) nin])
    qed
    ultimately show ?thesis using w(2) by (meson rtrancl_trans)
  qed
  have inv_e: "tarjan_inv V D ?e" using inv' by simp
  have low_e: "low ?e v = (if v = n then ?k else low e' v)" for v
    by (rule low_with_low [OF t])
  have n_not: "n \<notin> set (ex_stack e0)"
    using stack_sorted(2) [OF inv st] by auto
  have ext_e: "extends V e0 ?e"
  proof -
    have "extends V e0 e'" using extends_trans [OF ext(2,1)] st by auto
    then show ?thesis using n_not low_e by (auto simp: extends_def)
  qed
  have wit_e: "?k = idx e' n \<or> older V D n e0 ?k"
  proof (cases "low e' d < low e n")
    case False
    then show ?thesis using wit ln idn by (auto simp: min_def)
  next
    case True
    then have "low e' d \<noteq> idx e' d" using nd_lt lown by linarith
    then obtain w where w: "w \<in> set (ex_stack e)" "idx e w = low e' d" "(d, w) \<in> (edges V D)\<^sup>*"
      using top by (auto simp: older_def split: if_splits)
    have "idx e w < idx e n" using True lown w(2) by simp
    then have w0: "w \<in> set (ex_stack e0)" using w(1) st stack_sorted(1) [OF inv st] by auto
    then have "idx e0 w = idx e w"
      using ext(2) stack_in [OF inv0 w0] by (simp add: extends_def)
    then have "older V D n e0 (low e' d)"
      using w w0 nd unfolding older_def by (intro bexI [of _ w]) (auto intro: converse_rtrancl_into_rtrancl)
    then show ?thesis using True ln by (simp add: min_def)
  qed
  have up_e: "upper V D n (new @ xs) ?e"
  proof -
    have "(v, n) \<in> (edges V D)\<^sup>* \<and>
        (\<forall>w. (v, w) \<in> edges V D \<longrightarrow> visited e' w \<and> (w \<in> set (ex_stack e') \<longrightarrow> ?k \<le> idx e' w))"
      if v: "v \<in> set (new @ xs)" for v
    proof (cases "v \<in> set new")
      case True
      then show ?thesis using reach [OF True] up' by (fastforce simp: upper_def)
    next
      case False
      then have vx: "v \<in> set xs" using v by simp
      have "visited e' w \<and> (w \<in> set (ex_stack e') \<longrightarrow> ?k \<le> idx e' w)" if vw: "(v, w) \<in> edges V D" for w
      proof -
        have w: "visited e w" "w \<in> set (ex_stack e) \<longrightarrow> low e n \<le> idx e w" "w \<in> V"
          using up vx vw edges_in [OF g vw] by (auto simp: upper_def)
        then show ?thesis using same [OF w(1,3)] k_le [of w] by simp
      qed
      then show ?thesis using up vx by (simp add: upper_def)
    qed
    then show ?thesis by (simp add: upper_def low_e)
  qed
  have P_e: "\<forall>p \<in> insert d P. visited e' p \<and> (p \<in> set (ex_stack e') \<longrightarrow> ?k \<le> idx e' p)"
  proof
    fix p
    assume "p \<in> insert d P"
    then consider "p = d" | "p \<in> P" by auto
    then show "visited e' p \<and> (p \<in> set (ex_stack e') \<longrightarrow> ?k \<le> idx e' p)"
    proof cases
      case 1
      have "0 \<le> ex_index e" using inv by (simp add: tarjan_inv_def stack_ok_def)
      moreover have "low e' d \<le> idx e' d" using top by (auto split: if_splits)
      ultimately show ?thesis using 1 id by auto
    next
      case 2
      then have p: "visited e p" "p \<in> set (ex_stack e) \<longrightarrow> low e n \<le> idx e p" using P by auto
      have "p \<in> V" using 2 PV by auto
      then show ?thesis using same p k_le [of p] by auto
    qed
  qed
  show ?thesis
    unfolding mid_visit_def
    using inv_e ext_e wit_e up_e P_e PV n(2) st st' idn idn0 lown ln low_e by auto
qed

lemma mid_after_stacked:
  assumes g: "graph V D" and mid: "mid_visit V D n e0 P e" and inv0: "tarjan_inv V D e0"
    and nd: "(n, d) \<in> edges V D" and d: "visited e d" "d \<in> set (ex_stack e)"
  shows "mid_visit V D n e0 (insert d P) (with_low n (min (low e n) (idx e d)) e)"
proof -
  have inv: "tarjan_inv V D e" and ext: "extends V e0 e" and lown: "low e n \<le> idx e n"
    and wit: "low e n = idx e n \<or> older V D n e0 (low e n)"
    using mid by (auto simp: mid_visit_def)
  from mid obtain xs where st: "ex_stack e = xs @ n # ex_stack e0" and up: "upper V D n xs e"
    by (auto simp: mid_visit_def)
  have n: "n \<in> V" "d \<in> V" using edges_in [OF g nd] by auto
  obtain t where t: "ex_nodes e n = Some t" by (rule inv_node [OF inv n(1)])
  let ?k = "min (low e n) (idx e d)"
  let ?e = "with_low n ?k e"
  have low_e: "low ?e v = (if v = n then ?k else low e v)" for v by (rule low_with_low [OF t])
  have n_not: "n \<notin> set (ex_stack e0)" using stack_sorted(2) [OF inv st] by auto
  have "extends V e0 ?e" using ext n_not low_e by (auto simp: extends_def)
  moreover have "?k = idx e n \<or> older V D n e0 ?k"
  proof (cases "idx e d < low e n")
    case False
    then show ?thesis using wit by (auto simp: min_def)
  next
    case True
    then have "d \<in> set (ex_stack e0)"
      using d(2) st stack_sorted(1) [OF inv st] lown by auto
    moreover from this have "idx e0 d = idx e d"
      using ext stack_in [OF inv0] by (simp add: extends_def)
    ultimately have "older V D n e0 (idx e d)"
      using nd unfolding older_def by (intro bexI [of _ d]) auto
    then show ?thesis using True by (simp add: min_def)
  qed
  moreover have "low ?e n \<le> low e n" by (simp add: low_e)
  then have "upper V D n xs ?e" using up unfolding upper_def with_low_simps by (meson order_trans)
  moreover have "\<forall>p \<in> insert d P. visited e p \<and> (p \<in> set (ex_stack e) \<longrightarrow> ?k \<le> idx e p)"
    using mid d(1) by (auto simp: mid_visit_def min_def)
  ultimately show ?thesis
    using mid n(2) st lown low_e unfolding mid_visit_def by auto
qed

lemma mid_after_finished:
  assumes "graph V D" and "mid_visit V D n e0 P e" and "(n, d) \<in> edges V D"
    and "visited e d" and "d \<notin> set (ex_stack e)"
  shows "mid_visit V D n e0 (insert d P) e"
  using assms edges_in [OF assms(1,3)] unfolding mid_visit_def by auto

lemma mid_enter:
  assumes inv: "tarjan_inv V D e" and n: "n \<in> V" "\<not> visited e n" and t: "ex_nodes e n = Some t"
    and reach: "\<forall>s \<in> set (ex_stack e). (s, n) \<in> (edges V D)\<^sup>*"
  shows "mid_visit V D n e {} (enter n t e)"
proof -
  let ?e = "enter n t e"
  have sel: "ex_stack ?e = n # ex_stack e" "ex_sccs ?e = ex_sccs e" "ex_scc_count ?e = ex_scc_count e"
    "ex_index ?e = ex_index e + 1" "idx ?e v = (if v = n then ex_index e else idx e v)"
    "low ?e v = (if v = n then ex_index e else low e v)" for v
    by (simp_all add: enter_def push_def set_node_def idx_def low_def)
  have n_not: "n \<notin> set (ex_stack e)" using n(2) stack_in(2) [OF inv] by auto
  have pos: "0 \<le> ex_index e" using inv by (simp add: tarjan_inv_def stack_ok_def)
  have "nodes_ok V D ?e"
    using inv t n_not unfolding tarjan_inv_def nodes_ok_def sel(1)
    by (auto simp: enter_def push_def)
  moreover have "stack_ok V D ?e"
    unfolding stack_ok_def
  proof (intro conjI ballI impI)
    show "0 \<le> ex_index ?e" using pos by (simp add: sel)
    show "set (ex_stack ?e) \<subseteq> V" using n stack_in(1) [OF inv] by (auto simp: sel)
    have "sorted_wrt (\<lambda>a b. idx e b < idx e a) (ex_stack e)"
      using inv by (simp add: tarjan_inv_def stack_ok_def)
    then have "sorted_wrt (\<lambda>a b. idx ?e b < idx ?e a) (ex_stack e)"
      by (rule sorted_wrt_mono_rel [rotated]) (use n_not in \<open>auto simp: sel(5)\<close>)
    then show "sorted_wrt (\<lambda>a b. idx ?e b < idx ?e a) (ex_stack ?e)"
      using n_not stack_in(3) [OF inv] by (auto simp: sel(1,5))
    show "idx ?e v < ex_index ?e" if "v \<in> V" for v
    proof -
      have "idx e v < ex_index e" using inv that by (simp add: tarjan_inv_def stack_ok_def)
      then show ?thesis by (simp add: sel(4,5))
    qed
    show "visited ?e v" if "v \<in> set (ex_stack ?e)" for v
      using that pos stack_in(2) [OF inv] by (auto simp: sel(1,5))
    fix a b
    assume a: "a \<in> set (ex_stack ?e)" and b: "b \<in> set (ex_stack ?e)" and le: "idx ?e a \<le> idx ?e b"
    show "(a, b) \<in> (edges V D)\<^sup>*"
    proof (cases "b = n")
      case True
      then show ?thesis using a reach by (auto simp: sel(1))
    next
      case False
      then have b': "b \<in> set (ex_stack e)" using b by (simp add: sel(1))
      then have "a \<noteq> n" using le False stack_in(3) [OF inv b'] by (auto simp: sel(5))
      then show ?thesis using a b' le False stack_reach [OF inv, of a b] by (simp add: sel(1,5))
    qed
  qed
  moreover have "arrays_ok ?e" using inv by (simp add: tarjan_inv_def arrays_ok_def sel)
  moreover have "finished V ?e = finished V e"
    using n by (auto simp: finished_def sel)
  then have "sccs_ok V D ?e" using inv by (simp add: tarjan_inv_def sccs_ok_def emitted_def sel)
  ultimately show ?thesis
    using n n_not by (auto simp: mid_visit_def tarjan_inv_def extends_def sel upper_def)
qed

section \<open>Emitting a component\<close>

text \<open>Popping the nodes above \<open>n\<close> and \<open>n\<close> itself writes them to the next slots of the array.\<close>

lemma pop_scc_spec:
  assumes "distinct (vs @ n # rest)" and "\<forall>v \<in> set (vs @ [n]). \<exists>t. ex_nodes e v = Some t"
    and "length (ex_sccs e) = MAX_DEPS"
    and "ex_scc_count e < MAX_DEPS \<Longrightarrow> length xs \<le> MAX_DEPS \<and>
      ex_sccs e ! ex_scc_count e = map Some xs @ replicate (MAX_DEPS - length xs) None"
    and "MAX_DEPS \<le> ex_scc_count e \<or> MAX_DEPS < length xs + length vs + 1 \<Longrightarrow> B"
  shows "outcome B (\<lambda>e'. ex_stack e' = rest \<and> ex_scc_count e' = ex_scc_count e \<and>
      ex_index e' = ex_index e \<and> ex_vertices e' = ex_vertices e \<and> ex_scc_count e < MAX_DEPS \<and> length (xs @ vs @ [n]) \<le> MAX_DEPS \<and>
      ex_sccs e' = (ex_sccs e)[ex_scc_count e :=
        map Some (xs @ vs @ [n]) @ replicate (MAX_DEPS - length (xs @ vs @ [n])) None] \<and>
      ex_nodes e' = (\<lambda>v. if v \<in> set (vs @ [n]) then map_option (\<lambda>t. t\<lparr>tn_on_stack := False\<rparr>) (ex_nodes e v)
                         else ex_nodes e v))
    (pop_scc n (length xs) (vs @ n # rest) e)"
  using assms
proof (induction vs arbitrary: xs e)
  case Nil
  from Nil.prems(2) obtain t where t: "ex_nodes e n = Some t" by auto
  show ?case
  proof (cases "ex_scc_count e < MAX_DEPS \<and> length xs < MAX_DEPS")
    case True
    then have "replicate (MAX_DEPS - length xs) (None :: nat option)
        = None # replicate (MAX_DEPS - Suc (length xs)) None"
      by (metis Suc_diff_Suc replicate_Suc)
    then show ?thesis using True Nil.prems(3,4) t
      by (auto simp: load_Some Let_def list_update_append fun_eq_iff)
  next
    case False
    then have "B" using Nil.prems(5) by auto
    then show ?thesis
      using False Nil.prems(3,4) t by (auto simp: load_Some Let_def aget_def aset_def)
  qed
next
  case (Cons v vs)
  from Cons.prems(2) obtain t where t: "ex_nodes e v = Some t" by auto
  have vn: "v \<noteq> n" using Cons.prems(1) by auto
  show ?case
  proof (cases "ex_scc_count e < MAX_DEPS \<and> length xs < MAX_DEPS")
    case True
    let ?c = "map Some (xs @ [v]) @ replicate (MAX_DEPS - length (xs @ [v])) None"
    let ?e = "set_node v (t\<lparr>tn_on_stack := False\<rparr>) (e\<lparr>ex_stack := vs @ n # rest\<rparr>)
        \<lparr>ex_sccs := (ex_sccs e)[ex_scc_count e := ?c]\<rparr>"
    have rep: "replicate (MAX_DEPS - length xs) (None :: nat option)
        = None # replicate (MAX_DEPS - Suc (length xs)) None"
      using True by (metis Suc_diff_Suc replicate_Suc)
    have "outcome B (\<lambda>e'. ex_stack e' = rest \<and> ex_scc_count e' = ex_scc_count ?e \<and>
      ex_index e' = ex_index ?e \<and> ex_vertices e' = ex_vertices ?e \<and> ex_scc_count ?e < MAX_DEPS \<and> length ((xs @ [v]) @ vs @ [n]) \<le> MAX_DEPS \<and>
      ex_sccs e' = (ex_sccs ?e)[ex_scc_count ?e :=
        map Some ((xs @ [v]) @ vs @ [n]) @ replicate (MAX_DEPS - length ((xs @ [v]) @ vs @ [n])) None] \<and>
      ex_nodes e' = (\<lambda>u. if u \<in> set (vs @ [n]) then map_option (\<lambda>t. t\<lparr>tn_on_stack := False\<rparr>) (ex_nodes ?e u)
                         else ex_nodes ?e u))
      (pop_scc n (length (xs @ [v])) (vs @ n # rest) ?e)"
      by (rule Cons.IH) (use Cons.prems True in \<open>auto simp: set_node_def\<close>)
    moreover have "pop_scc n (length xs) ((v # vs) @ n # rest) e
        = pop_scc n (length (xs @ [v])) (vs @ n # rest) ?e"
      using True t vn Cons.prems(3,4) rep by (simp add: load_Some Let_def list_update_append)
    ultimately show ?thesis
      using Cons.prems(1) t by (elim ssubst outcome_mono) (auto simp: t set_node_def fun_eq_iff)
  next
    case False
    then have "B" using Cons.prems(5) by auto
    then show ?thesis
      using False Cons.prems(3,4) t by (auto simp: load_Some Let_def aget_def aset_def)
  qed
qed

lemma disjoint_count:
  fixes A :: "nat \<Rightarrow> 'a set"
  assumes "finite (\<Union>j < k. A j)" and "\<forall>j < k. A j \<noteq> {}" and "\<forall>j < k. \<forall>i < j. A i \<inter> A j = {}"
  shows "k \<le> card (\<Union>j < k. A j)"
  using assms
proof (induction k)
  case 0
  then show ?case by simp
next
  case (Suc k)
  have fin: "finite (\<Union>j < k. A j)" "finite (A k)"
    using Suc.prems(1) by (simp_all add: lessThan_Suc)
  have "k \<le> card (\<Union>j < k. A j)" by (rule Suc.IH) (use Suc.prems fin in auto)
  moreover have "(\<Union>j < k. A j) \<inter> A k = {}" using Suc.prems(3) by auto
  then have "card (\<Union>j < Suc k. A j) = card (\<Union>j < k. A j) + card (A k)"
    using fin by (simp add: lessThan_Suc card_Un_disjoint Un_commute Int_commute)
  moreover have "0 < card (A k)" using Suc.prems(2) fin by (simp add: card_gt_0_iff)
  ultimately show ?case by simp
qed

lemma scc_count_less:
  assumes g: "graph V D" and inv: "tarjan_inv V D e" and n: "n \<in> set (ex_stack e)"
  shows "ex_scc_count e < card V"
proof -
  have V: "finite V" using g by (simp add: graph_def)
  have fin: "finished V e \<subset> V" using n stack_in(1) [OF inv n] by (auto simp: finished_def)
  have eq: "finished V e = (\<Union>j < ex_scc_count e. emitted e j)"
    and "\<forall>j < ex_scc_count e. emitted e j \<noteq> {}"
    and "\<forall>j < ex_scc_count e. \<forall>i < j. emitted e i \<inter> emitted e j = {}"
    using inv by (auto simp: tarjan_inv_def sccs_ok_def)
  moreover have "finite (\<Union>j < ex_scc_count e. emitted e j)"
    using finite_subset [OF psubset_imp_subset [OF fin] V] eq by simp
  ultimately have "ex_scc_count e \<le> card (finished V e)" using disjoint_count by metis
  also have "\<dots> < card V" by (rule psubset_card_mono [OF V fin])
  finally show ?thesis .
qed

lemma stack_distinct: "tarjan_inv V D e \<Longrightarrow> distinct (ex_stack e)"
  unfolding tarjan_inv_def stack_ok_def
  by (auto simp: sorted_wrt_iff_nth_less distinct_conv_nth) (metis less_irrefl nat_neq_iff)

lemma sccs_order:
  assumes "tarjan_inv V D e" and "j < ex_scc_count e" and "a \<in> emitted e j" and "(a, w) \<in> edges V D"
  obtains i where "i \<le> j" "w \<in> emitted e i"
  using assms unfolding tarjan_inv_def sccs_ok_def by meson

text \<open>The state after a component was popped and counted.\<close>

lemma inv_after_pop:
  assumes g: "graph V D" and inv: "tarjan_inv V D e" and st: "ex_stack e = xs @ n # rest"
    and up: "upper V D n (xs @ [n]) e" and root: "low e n = idx e n"
    and st': "ex_stack e' = rest" and cnt: "ex_scc_count e' = ex_scc_count e + 1"
    and ix: "ex_index e' = ex_index e" and small: "ex_scc_count e < MAX_DEPS"
    and len_c: "length (xs @ [n]) \<le> MAX_DEPS"
    and sccs: "ex_sccs e' = (ex_sccs e)[ex_scc_count e :=
        map Some (xs @ [n]) @ replicate (MAX_DEPS - length (xs @ [n])) None]"
    and nodes: "ex_nodes e' = (\<lambda>v. if v \<in> set (xs @ [n])
        then map_option (\<lambda>t. t\<lparr>tn_on_stack := False\<rparr>) (ex_nodes e v) else ex_nodes e v)"
  shows "tarjan_inv V D e' \<and> (\<forall>v. idx e' v = idx e v \<and> low e' v = low e v)"
proof -
  let ?C = "set (xs @ [n])" and ?k = "ex_scc_count e"
  have ids: "idx e' v = idx e v" "low e' v = low e v" for v
    by (simp_all add: idx_def low_def nodes split: option.split)
  have dist: "distinct (xs @ n # rest)" using stack_distinct [OF inv] st by simp
  have CV: "?C \<subseteq> V" using stack_in(1) [OF inv] st by auto
  have len: "length (ex_sccs e) = MAX_DEPS" using inv by (simp add: tarjan_inv_def arrays_ok_def)
  have em: "emitted e' j = emitted e j" if "j < ?k" for j
    using that by (simp add: emitted_def sccs)
  have emk: "emitted e' ?k = ?C"
    using small len by (auto simp: emitted_def sccs)
  have fin: "finished V e' = finished V e \<union> ?C"
    using CV st st' dist stack_in(2) [OF inv] by (auto simp: finished_def ids)
  have old: "finished V e = (\<Union>j < ?k. emitted e j)"
    using inv by (simp add: tarjan_inv_def sccs_ok_def)
  have disj: "finished V e \<inter> ?C = {}" using st by (auto simp: finished_def)
  have "nodes_ok V D e'"
    unfolding nodes_ok_def
  proof
    fix v
    assume "v \<in> V"
    then obtain t where t: "ex_nodes e v = Some t" "tn_deps t = D v" "tn_on_stack t \<longleftrightarrow> v \<in> set (ex_stack e)"
      by (rule inv_node [OF inv])
    then show "\<exists>t. ex_nodes e' v = Some t \<and> tn_deps t = D v \<and> (tn_on_stack t \<longleftrightarrow> v \<in> set (ex_stack e'))"
      using dist st st' by (auto simp: nodes)
  qed
  moreover have "stack_ok V D e'"
    using inv st dist unfolding tarjan_inv_def stack_ok_def by (simp add: ids st' ix sorted_wrt_append)
  moreover have "arrays_ok e'"
    unfolding arrays_ok_def
  proof (intro conjI allI impI)
    fix j
    assume "j < ex_scc_count e'"
    then consider "j < ?k" | "j = ?k" using cnt by linarith
    then show "packed (ex_sccs e' ! j)"
    proof cases
      case 1
      then show ?thesis using inv by (simp add: tarjan_inv_def arrays_ok_def sccs)
    next
      case 2
      have "distinct (xs @ [n])" using dist by simp
      then have "packed (map Some (xs @ [n]) @ replicate (MAX_DEPS - length (xs @ [n])) None)"
        using len_c by (rule packedI)
      then show ?thesis using 2 small len by (simp add: sccs)
    qed
  qed (use inv small in \<open>auto simp: tarjan_inv_def arrays_ok_def sccs cnt\<close>)
  moreover have "sccs_ok V D e'"
    unfolding sccs_ok_def
  proof (intro conjI allI impI)
    show "finished V e' = (\<Union>j < ex_scc_count e'. emitted e' j)"
      using em emk by (simp add: fin old cnt lessThan_Suc Un_commute)
    fix j
    assume j: "j < ex_scc_count e'"
    then consider "j < ?k" | "j = ?k" using cnt by linarith
    note cases = this
    show "emitted e' j \<noteq> {}"
      using cases inv em emk by cases (auto simp: tarjan_inv_def sccs_ok_def)
    show "\<forall>a \<in> emitted e' j. \<forall>b \<in> emitted e' j. (a, b) \<in> (edges V D)\<^sup>*"
      using cases
    proof cases
      case 1
      then show ?thesis using inv em by (simp add: tarjan_inv_def sccs_ok_def)
    next
      case 2
      have "(a, n) \<in> (edges V D)\<^sup>*" if "a \<in> ?C" for a using up that unfolding upper_def by blast
      moreover have "(n, b) \<in> (edges V D)\<^sup>*" if b: "b \<in> ?C" for b
      proof -
        have "b \<in> set (ex_stack e)" "n \<in> set (ex_stack e)" using b st by auto
        moreover have "idx e n \<le> idx e b" using b stack_sorted(1) [OF inv st] by auto
        ultimately show ?thesis using stack_reach [OF inv] by blast
      qed
      ultimately show ?thesis using 2 emk by (metis rtrancl_trans)
    qed
    have "\<exists>i \<le> j. w \<in> emitted e' i" if a: "a \<in> emitted e' j" and aw: "(a, w) \<in> edges V D" for a w
      using cases
    proof cases
      case 1
      then have "a \<in> emitted e j" using a em by simp
      then obtain i where "i \<le> j" "w \<in> emitted e i" by (rule sccs_order [OF inv 1 _ aw])
      then show ?thesis using em 1 by (intro exI [of _ i]) simp
    next
      case 2
      then have aC: "a \<in> ?C" using a emk by simp
      have w: "visited e w" "w \<in> set (ex_stack e) \<longrightarrow> idx e n \<le> idx e w" "w \<in> V"
        using up aC aw root edges_in [OF g aw] unfolding upper_def by auto
      show ?thesis
      proof (cases "w \<in> set (ex_stack e)")
        case True
        then have "w \<in> ?C" using w(2) st stack_sorted(2) [OF inv st] by auto
        then show ?thesis using 2 emk by auto
      next
        case False
        then have "w \<in> finished V e" using w by (simp add: finished_def)
        then obtain i where "i < ?k" "w \<in> emitted e i" using old by auto
        then show ?thesis using em 2 by (intro exI [of _ i]) simp
      qed
    qed
    then show "\<forall>a \<in> emitted e' j. \<forall>w. (a, w) \<in> edges V D \<longrightarrow> (\<exists>i \<le> j. w \<in> emitted e' i)" by blast
    show "emitted e' i \<inter> emitted e' j = {}" if "i < j" for i
      using cases
    proof cases
      case 1
      then show ?thesis using inv em that by (simp add: tarjan_inv_def sccs_ok_def)
    next
      case 2
      then have "emitted e' i \<subseteq> finished V e" using em that old by auto
      then show ?thesis using 2 emk disj by auto
    qed
  qed
  ultimately show ?thesis using ids by (simp add: tarjan_inv_def)
qed

lemma close_outcome:
  assumes g: "graph V D" and inv0: "tarjan_inv V D e0" and mid: "mid_visit V D n e0 P e"
    and all: "\<forall>d. (n, d) \<in> edges V D \<longrightarrow> d \<in> P"
  shows "outcome (MAX_DEPS < card V) (post_visit V D n e0) (close_scc n e)"
proof -
  have inv: "tarjan_inv V D e" and ext: "extends V e0 e" and ind: "idx e n = ex_index e0"
    and lown: "low e n \<le> idx e n" and wit: "low e n = idx e n \<or> older V D n e0 (low e n)"
    using mid by (auto simp: mid_visit_def)
  from mid obtain xs where st: "ex_stack e = xs @ n # ex_stack e0" and up: "upper V D n xs e"
    by (auto simp: mid_visit_def)
  have nst: "n \<in> set (ex_stack e)" by (simp add: st)
  have nV: "n \<in> V" by (rule stack_in(1) [OF inv nst])
  have up': "upper V D n (xs @ [n]) e"
    using up mid all by (auto simp: upper_def mid_visit_def)
  obtain t where t: "ex_nodes e n = Some t" "idx e n = tn_index t" "low e n = tn_low_link t"
    by (rule inv_node [OF inv nV])
  show ?thesis
  proof (cases "low e n = idx e n")
    case False
    then have "close_scc n e = Inr e" using t by (simp add: close_scc_def load_Some)
    moreover have "post_visit V D n e0 e"
      using inv ext ind st up' lown wit False unfolding post_visit_def
      by (auto intro!: exI [of _ "xs @ [n]"])
    ultimately show ?thesis by simp
  next
    case True
    have V: "finite V" using g by (simp add: graph_def)
    have "length (ex_stack e) \<le> card V"
      using stack_distinct [OF inv] card_mono [OF V, of "set (ex_stack e)"] stack_in(1) [OF inv]
      by (auto simp: distinct_card)
    then have bound: "MAX_DEPS \<le> ex_scc_count e \<or> MAX_DEPS < length ([] :: nat list) + length xs + 1 \<Longrightarrow> MAX_DEPS < card V"
      using scc_count_less [OF g inv nst] st by auto
    have pop: "outcome (MAX_DEPS < card V) (\<lambda>e'. ex_stack e' = ex_stack e0 \<and> ex_scc_count e' = ex_scc_count e \<and>
      ex_index e' = ex_index e \<and> ex_vertices e' = ex_vertices e \<and> ex_scc_count e < MAX_DEPS \<and> length ([] @ xs @ [n]) \<le> MAX_DEPS \<and>
      ex_sccs e' = (ex_sccs e)[ex_scc_count e :=
        map Some ([] @ xs @ [n]) @ replicate (MAX_DEPS - length ([] @ xs @ [n])) None] \<and>
      ex_nodes e' = (\<lambda>v. if v \<in> set (xs @ [n]) then map_option (\<lambda>t. t\<lparr>tn_on_stack := False\<rparr>) (ex_nodes e v)
                         else ex_nodes e v)) (pop_scc n (length ([] :: nat list)) (xs @ n # ex_stack e0) e)"
    proof (rule pop_scc_spec)
      show "distinct (xs @ n # ex_stack e0)" using stack_distinct [OF inv] st by simp
      show "\<forall>v \<in> set (xs @ [n]). \<exists>t. ex_nodes e v = Some t"
        using stack_in(1) [OF inv] st inv by (force simp: tarjan_inv_def nodes_ok_def)
    qed (use inv bound in \<open>auto simp: tarjan_inv_def arrays_ok_def\<close>)
    have "close_scc n e = and_then (pop_scc n 0 (xs @ n # ex_stack e0) e)
        (\<lambda>e'. Inr (e'\<lparr>ex_scc_count := ex_scc_count e' + 1\<rparr>))"
      using t True st by (simp add: close_scc_def load_Some)
    moreover have "outcome (MAX_DEPS < card V) (post_visit V D n e0)
        (and_then (pop_scc n 0 (xs @ n # ex_stack e0) e) (\<lambda>e'. Inr (e'\<lparr>ex_scc_count := ex_scc_count e' + 1\<rparr>)))"
    proof (rule outcome_and_then [OF pop [simplified length_0_conv list.size append_Nil]], clarify)
      fix x :: "'a executor"
      let ?x = "x\<lparr>ex_scc_count := ex_scc_count x + 1\<rparr>"
      assume p: "ex_stack x = ex_stack e0" "ex_scc_count x = ex_scc_count e" "ex_index x = ex_index e"
        "ex_scc_count e < MAX_DEPS" "length (xs @ [n]) \<le> MAX_DEPS"
        "ex_sccs x = (ex_sccs e)[ex_scc_count e := map Some (xs @ [n]) @ replicate (MAX_DEPS - length (xs @ [n])) None]"
        "ex_nodes x = (\<lambda>v. if v \<in> set (xs @ [n]) then map_option (\<lambda>t. t\<lparr>tn_on_stack := False\<rparr>) (ex_nodes e v)
                         else ex_nodes e v)"
      have x: "tarjan_inv V D ?x \<and> (\<forall>v. idx ?x v = idx e v \<and> low ?x v = low e v)"
        by (rule inv_after_pop [OF g inv st up' True]) (use p(5) in \<open>simp_all add: p(1-4,6,7)\<close>)
      moreover have "extends V e0 ?x" using ext x by (simp add: extends_def p(3))
      ultimately have "post_visit V D n e0 ?x"
        using p(1) ind True by (simp add: post_visit_def upper_def)
      then show "outcome (MAX_DEPS < card V) (post_visit V D n e0) (Inr ?x)" by simp
    qed
    ultimately show ?thesis by simp
  qed
qed

section \<open>The search\<close>

definition unvisited :: "nat set \<Rightarrow> 'v executor \<Rightarrow> nat set" where
  "unvisited V e = {v \<in> V. \<not> visited e v}"

lemma unvisited_extends:
  assumes "graph V D" and "extends V e e'"
  shows "card (unvisited V e') \<le> card (unvisited V e)"
proof (rule card_mono)
  show "finite (unvisited V e)" using assms(1) by (simp add: graph_def unvisited_def)
  show "unvisited V e' \<subseteq> unvisited V e" using assms(2) by (auto simp: unvisited_def extends_def)
qed

lemma unvisited_less:
  assumes "graph V D" and "extends V e e'" and "n \<in> V" and "\<not> visited e n" and "visited e' n"
  shows "card (unvisited V e') < card (unvisited V e)"
proof (rule psubset_card_mono)
  show "finite (unvisited V e)" using assms(1) by (simp add: graph_def unvisited_def)
  show "unvisited V e' \<subset> unvisited V e" using assms(2-5) by (auto simp: unvisited_def extends_def)
qed

lemma mid_reach:
  assumes mid: "mid_visit V D n e0 P e" and nd: "(n, d) \<in> edges V D" and s: "s \<in> set (ex_stack e)"
  shows "(s, d) \<in> (edges V D)\<^sup>*"
proof -
  have inv: "tarjan_inv V D e" using mid by (simp add: mid_visit_def)
  from mid obtain xs where st: "ex_stack e = xs @ n # ex_stack e0" and up: "upper V D n xs e"
    by (auto simp: mid_visit_def)
  have "(s, n) \<in> (edges V D)\<^sup>*"
  proof (cases "s \<in> set xs")
    case True
    then show ?thesis using up by (simp add: upper_def)
  next
    case False
    then have "idx e s \<le> idx e n" using s st stack_sorted(2) [OF inv st] by auto
    then show ?thesis using stack_reach [OF inv s] st by simp
  qed
  then show ?thesis using nd by (rule rtrancl_into_rtrancl)
qed

lemma visit_outcome:
  fixes e :: "'v executor"
  assumes g: "graph V D"
  shows "tarjan_inv V D e \<Longrightarrow> n \<in> V \<Longrightarrow> \<not> visited e n \<Longrightarrow>
      \<forall>s \<in> set (ex_stack e). (s, n) \<in> (edges V D)\<^sup>* \<Longrightarrow> card (unvisited V e) \<le> fuel \<Longrightarrow>
      outcome (MAX_DEPS < card V) (post_visit V D n e) (visit fuel n e)"
    and "tarjan_inv V D e0 \<Longrightarrow> mid_visit V D n e0 P e \<Longrightarrow> \<forall>d. Some d \<in> set ds \<longrightarrow> (n, d) \<in> edges V D \<Longrightarrow>
      card (unvisited V e) \<le> fuel \<Longrightarrow>
      outcome (MAX_DEPS < card V) (mid_visit V D n e0 (P \<union> {d. Some d \<in> set ds})) (visit_deps fuel n ds e)"
proof (induction fuel n e and fuel n ds e arbitrary: and e0 P rule: visit_visit_deps.induct)
  case (1 n e)
  have "n \<in> unvisited V e" using 1 by (simp add: unvisited_def)
  moreover have "finite (unvisited V e)" using g by (simp add: graph_def unvisited_def)
  ultimately show ?case using 1(5) by auto
next
  case (2 fuel n e)
  obtain t where t: "ex_nodes e n = Some t" "tn_deps t = D n" by (rule inv_node [OF 2(2,3)])
  have mid: "mid_visit V D n e {} (enter n t e)" by (rule mid_enter [OF 2(2-4) t(1) 2(5)])
  have "extends V e (enter n t e)" "visited (enter n t e) n"
    using mid 2(2) by (auto simp: mid_visit_def tarjan_inv_def stack_ok_def)
  then have "card (unvisited V (enter n t e)) < card (unvisited V e)"
    by (rule unvisited_less [OF g _ 2(3,4)])
  then have fuel: "card (unvisited V (enter n t e)) \<le> fuel" using 2(6) by simp
  have succ: "\<forall>d. Some d \<in> set (tn_deps t) \<longrightarrow> (n, d) \<in> edges V D"
    using t(2) 2(3) by (simp add: edges_def)
  have loop: "outcome (MAX_DEPS < card V) (mid_visit V D n e ({} \<union> {d. Some d \<in> set (tn_deps t)}))
      (visit_deps fuel n (tn_deps t) (enter n t e))"
    by (rule 2(1) [OF 2(2) mid succ fuel])
  have "\<forall>d. (n, d) \<in> edges V D \<longrightarrow> d \<in> {} \<union> {d. Some d \<in> set (tn_deps t)}"
    using t(2) by (simp add: edges_def)
  then have "outcome (MAX_DEPS < card V) (post_visit V D n e)
      (and_then (visit_deps fuel n (tn_deps t) (enter n t e)) (close_scc n))"
    using close_outcome [OF g 2(2)] by (intro outcome_and_then [OF loop]) blast
  then show ?case using t(1) by (simp add: load_Some)
next
  case (3 fuel n e)
  then show ?case by simp
next
  case (4 fuel n ds e)
  then show ?case by simp
next
  case (5 fuel n d ds e)
  have inv: "tarjan_inv V D e" using 5(4) by (simp add: mid_visit_def)
  have nd: "(n, d) \<in> edges V D" using 5(5) by simp
  have d: "d \<in> V" using edges_in [OF g nd] by simp
  obtain t where t: "ex_nodes e d = Some t" "tn_on_stack t \<longleftrightarrow> d \<in> set (ex_stack e)" "idx e d = tn_index t"
    by (rule inv_node [OF inv d])
  obtain tn where tn: "ex_nodes e n = Some tn" using inv_node [OF inv] edges_in [OF g nd] by metis
  let ?one = "if not_visited t then and_then (visit fuel d e) (\<lambda>e1.
          and_then (load (ex_nodes e1) d) (\<lambda>t1. lower n (tn_low_link t1) e1))
        else if tn_on_stack t then lower n (tn_index t) e else Inr e"
  have one: "outcome (MAX_DEPS < card V) (\<lambda>e'. mid_visit V D n e0 (insert d P) e' \<and>
      card (unvisited V e') \<le> card (unvisited V e)) ?one"
  proof (cases "visited e d")
    case False
    then have nv: "not_visited t" using t(3) by (simp add: not_visited_def)
    have vis: "outcome (MAX_DEPS < card V) (post_visit V D d e) (visit fuel d e)"
      by (rule 5(1) [OF nv inv d False _ 5(6)]) (use mid_reach [OF 5(4) nd] in auto)
    have "outcome (MAX_DEPS < card V) (\<lambda>e'. mid_visit V D n e0 (insert d P) e' \<and>
        card (unvisited V e') \<le> card (unvisited V e))
        (and_then (load (ex_nodes e1) d) (\<lambda>t1. lower n (tn_low_link t1) e1))"
      if post: "post_visit V D d e e1" for e1
    proof -
      have inv1: "tarjan_inv V D e1" using post by (simp add: post_visit_def)
      obtain t1 where t1: "ex_nodes e1 d = Some t1" "low e1 d = tn_low_link t1"
        by (rule inv_node [OF inv1 d])
      obtain tn1 where tn1: "ex_nodes e1 n = Some tn1" using inv_node [OF inv1] edges_in [OF g nd] by metis
      have "card (unvisited V e1) \<le> card (unvisited V e)"
        using post by (intro unvisited_extends [OF g]) (simp add: post_visit_def)
      then show ?thesis
        using mid_after_visit [OF g 5(4) 5(3) nd post] t1
        by (simp add: load_Some lower_eq [OF tn1] unvisited_def)
    qed
    then show ?thesis using nv vis by (auto intro: outcome_and_then)
  next
    case True
    then have nv: "\<not> not_visited t" using t(3) by (simp add: not_visited_def)
    show ?thesis
    proof (cases "d \<in> set (ex_stack e)")
      case on: True
      then show ?thesis
        using nv t mid_after_stacked [OF g 5(4) 5(3) nd True on]
        by (simp add: lower_eq [OF tn] unvisited_def)
    next
      case False
      then show ?thesis
        using nv t mid_after_finished [OF g 5(4) nd True False] by simp
    qed
  qed
  have "outcome (MAX_DEPS < card V) (mid_visit V D n e0 (insert d P \<union> {x. Some x \<in> set ds})) (visit_deps fuel n ds e')"
    if "mid_visit V D n e0 (insert d P) e' \<and> card (unvisited V e') \<le> card (unvisited V e)" for e'
    by (rule 5(2) [OF 5(3)]) (use that t 5(5,6) in auto)
  then have "outcome (MAX_DEPS < card V) (mid_visit V D n e0 (insert d P \<union> {x. Some x \<in> set ds}))
      (and_then ?one (visit_deps fuel n ds))"
    using one by (auto intro: outcome_and_then)
  moreover have "insert d P \<union> {x. Some x \<in> set ds} = P \<union> {x. Some x \<in> set (Some d # ds)}" by auto
  ultimately show ?case using t(1) by (simp add: load_Some)
qed

end
