(* ===== verification/Epx_Components.thy ===== *)
theory Epx_Components
  imports Epx_Tarjan
begin

text \<open>
  What the executor's search for components promises of the table of vertices: \<open>strong_connect\<close>
  emits the strongly connected components of the dependency graph of the pending instances,
  each once and after the components it depends on, or it overruns the fixed arrays.
\<close>

section \<open>The dependency graph\<close>

text \<open>The documented behaviour of the hash table.\<close>

definition vertex_laws :: "'v vertex_lib \<Rightarrow> bool" where
  "vertex_laws L \<longleftrightarrow>
     (\<forall>k. vx_get L (vx_empty L) k = None) \<and>
     (\<forall>v k n k'. vx_get L (vx_put L v k n) k' = (if k' = k then Some n else vx_get L v k')) \<and>
     (\<forall>v k k'. vx_get L (vx_del L v k) k' = (if k' = k then None else vx_get L v k')) \<and>
     (\<forall>v. set (vx_values L v) = ran (vx_get L v))"

abbreviation vertex_set :: "'v vertex_lib \<Rightarrow> 'v executor \<Rightarrow> nat set" where
  "vertex_set L e \<equiv> set (vx_values L (ex_vertices e))"

text \<open>An edge for every live dependency of a pending instance that is pending itself.\<close>

definition dep_graph :: "'v vertex_lib \<Rightarrow> insts \<Rightarrow> 'v executor \<Rightarrow> (nat \<times> nat) set" where
  "dep_graph L insts e = {(v, w). v \<in> vertex_set L e \<and>
     (\<exists>t i d. ex_nodes e v = Some t \<and> insts (tn_i t) = Some i \<and> d \<in> set (i_deps i) \<and>
        instance_id (dep_id d) \<noteq> 0 \<and> vx_get L (ex_vertices e) (dh_key (dep_id d)) = Some w)}"

definition mutual :: "'a set \<Rightarrow> ('a \<times> 'a) set \<Rightarrow> ('a \<times> 'a) set" where
  "mutual V G = {(v, w). v \<in> V \<and> w \<in> V \<and> (v, w) \<in> G\<^sup>* \<and> (w, v) \<in> G\<^sup>*}"

text \<open>The strongly connected components, as the classes of mutual reachability.\<close>

definition dep_components :: "'v vertex_lib \<Rightarrow> insts \<Rightarrow> 'v executor \<Rightarrow> nat set set" where
  "dep_components L insts e = vertex_set L e // mutual (vertex_set L e) (dep_graph L insts e)"

text \<open>Every vertex has a node, and the node an instance; the search starts from a reset executor.\<close>

definition vertices_ok :: "'v vertex_lib \<Rightarrow> insts \<Rightarrow> 'v executor \<Rightarrow> bool" where
  "vertices_ok L insts e \<longleftrightarrow>
     (\<forall>v \<in> vertex_set L e. \<exists>t i. ex_nodes e v = Some t \<and> insts (tn_i t) = Some i)"

definition fresh_search :: "'v executor \<Rightarrow> bool" where
  "fresh_search e \<longleftrightarrow> ex_scc_count e = 0 \<and> ex_stack e = [] \<and> ex_index e = 0 \<and>
     ex_sccs e = replicate MAX_DEPS (replicate MAX_DEPS None)"

lemma fresh_reset [simp]: "fresh_search (reset_exec e)"
  by (simp add: fresh_search_def reset_exec_def)

section \<open>Linking the nodes\<close>

definition links :: "'v vertex_lib \<Rightarrow> insts \<Rightarrow> 'v executor \<Rightarrow> nat \<Rightarrow> nat option list" where
  "links L insts e v =
     (case ex_nodes e v of None \<Rightarrow> []
      | Some t \<Rightarrow> (case insts (tn_i t) of None \<Rightarrow> []
         | Some i \<Rightarrow> map (dep_node L (ex_vertices e)) (i_deps i)))"

definition linked :: "'v vertex_lib \<Rightarrow> insts \<Rightarrow> 'v executor \<Rightarrow> nat set \<Rightarrow> 'v executor" where
  "linked L insts e V = e\<lparr>ex_nodes := (\<lambda>v. if v \<in> V
     then map_option (\<lambda>t. (reset_node t)\<lparr>tn_deps := links L insts e v\<rparr>) (ex_nodes e v) else ex_nodes e v)\<rparr>"

lemma linked_simps [simp]:
  "ex_vertices (linked L insts e V) = ex_vertices e" "ex_stack (linked L insts e V) = ex_stack e"
  "ex_sccs (linked L insts e V) = ex_sccs e" "ex_scc_count (linked L insts e V) = ex_scc_count e"
  "ex_index (linked L insts e V) = ex_index e" "ex_executed (linked L insts e V) = ex_executed e"
  by (simp_all add: linked_def)

lemma link_node_linked:
  assumes "ex_nodes e v = Some t" and "insts (tn_i t) = Some i"
  shows "link_node L insts v (linked L insts e V) = Inr (linked L insts e (insert v V))"
  using assms
  by (auto simp: link_node_def linked_def links_def load_def set_node_def reset_node_def fun_eq_iff
      split: option.split intro!: arg_cong [of _ _ "\<lambda>f. e\<lparr>ex_nodes := f\<rparr>"])

lemma link_loop:
  assumes "\<forall>v \<in> set vs. \<exists>t i. ex_nodes e v = Some t \<and> insts (tn_i t) = Some i"
  shows "for_each vs (link_node L insts) (linked L insts e V) = Inr (linked L insts e (V \<union> set vs))"
  using assms
proof (induction vs arbitrary: V)
  case Nil
  then show ?case by simp
next
  case (Cons v vs)
  then obtain t i where "ex_nodes e v = Some t" "insts (tn_i t) = Some i" by auto
  then have "link_node L insts v (linked L insts e V) = Inr (linked L insts e (insert v V))"
    by (rule link_node_linked)
  with Cons show ?case by simp
qed

lemma linked_empty [simp]: "linked L insts e {} = e"
  by (simp add: linked_def)

lemma link_all:
  "vertices_ok L insts e \<Longrightarrow> for_each (vx_values L (ex_vertices e)) (link_node L insts) e =
     Inr (linked L insts e (vertex_set L e))"
  using link_loop [of "vx_values L (ex_vertices e)" e insts L "{}"] by (simp add: vertices_ok_def)

lemma edges_links:
  assumes "vertex_laws L" and "vertices_ok L insts e"
  shows "edges (vertex_set L e) (links L insts e) = dep_graph L insts e"
    and "graph (vertex_set L e) (links L insts e)"
proof -
  have link: "Some w \<in> set (links L insts e v) \<longleftrightarrow>
      (\<exists>t i d. ex_nodes e v = Some t \<and> insts (tn_i t) = Some i \<and> d \<in> set (i_deps i) \<and>
        instance_id (dep_id d) \<noteq> 0 \<and> vx_get L (ex_vertices e) (dh_key (dep_id d)) = Some w)"
    if v: "v \<in> vertex_set L e" for v w
  proof -
    obtain t i where "ex_nodes e v = Some t" "insts (tn_i t) = Some i"
      using assms(2) v by (auto simp: vertices_ok_def)
    then show ?thesis by (force simp: links_def dep_node_def image_iff)
  qed
  then show "edges (vertex_set L e) (links L insts e) = dep_graph L insts e"
    by (auto simp: edges_def dep_graph_def)
  have "w \<in> vertex_set L e" if "vx_get L (ex_vertices e) k = Some w" for k w
    using assms(1) that by (auto simp: vertex_laws_def intro: ranI)
  then show "graph (vertex_set L e) (links L insts e)"
    unfolding graph_def using link by blast
qed

lemma linked_inv:
  assumes "vertices_ok L insts e" and "fresh_search e"
  shows "tarjan_inv (vertex_set L e) (links L insts e) (linked L insts e (vertex_set L e))"
proof -
  let ?V = "vertex_set L e" and ?e = "linked L insts e (vertex_set L e)"
  have ix: "idx ?e v = -1" if "v \<in> ?V" for v
    using that assms(1) by (force simp: vertices_ok_def idx_def linked_def reset_node_def)
  have "nodes_ok ?V (links L insts e) ?e"
    using assms by (force simp: nodes_ok_def vertices_ok_def linked_def reset_node_def fresh_search_def)
  then show ?thesis
    using assms(2) by (simp add: tarjan_inv_def stack_ok_def arrays_ok_def sccs_ok_def fresh_search_def
        finished_def ix)
qed

section \<open>The outer loop\<close>

lemma visit_new_outcome:
  assumes g: "graph V D" and inv: "tarjan_inv V D e" and empty: "ex_stack e = []" and n: "n \<in> V"
    and fuel: "card V \<le> fuel"
  shows "outcome (MAX_DEPS < card V) (\<lambda>e'. tarjan_inv V D e' \<and> ex_stack e' = [] \<and> visited e' n \<and>
    (\<forall>v \<in> V. visited e v \<longrightarrow> visited e' v)) (visit_new fuel n e)"
proof -
  obtain t where t: "ex_nodes e n = Some t" "idx e n = tn_index t" by (rule inv_node [OF inv n])
  show ?thesis
  proof (cases "visited e n")
    case True
    then show ?thesis using t inv empty by (simp add: visit_new_def load_Some not_visited_def)
  next
    case False
    have "card (unvisited V e) \<le> card V"
      using g by (intro card_mono) (auto simp: graph_def unvisited_def)
    then have "outcome (MAX_DEPS < card V) (post_visit V D n e) (visit fuel n e)"
      using visit_outcome(1) [OF g inv n False] empty fuel by simp
    moreover have "visit_new fuel n e = visit fuel n e"
      using t False by (simp add: visit_new_def load_Some not_visited_def)
    moreover have "0 \<le> ex_index e" using inv by (simp add: tarjan_inv_def stack_ok_def)
    ultimately show ?thesis
      by (elim ssubst outcome_mono)
        (auto simp: post_visit_def older_def extends_def empty split: if_splits)
  qed
qed

lemma visit_loop:
  fixes e :: "'v executor"
  assumes g: "graph V D" and fuel: "card V \<le> fuel"
  shows "tarjan_inv V D e \<Longrightarrow> ex_stack e = [] \<Longrightarrow> set vs \<subseteq> V \<Longrightarrow>
    outcome (MAX_DEPS < card V) (\<lambda>e'. tarjan_inv V D e' \<and> ex_stack e' = [] \<and>
      (\<forall>v \<in> set vs. visited e' v) \<and> (\<forall>v \<in> V. visited e v \<longrightarrow> visited e' v)) (for_each vs (visit_new fuel) e)"
proof (induction vs arbitrary: e)
  case Nil
  then show ?case by simp
next
  case (Cons n vs)
  have "n \<in> V" using Cons.prems(3) by simp
  note first = visit_new_outcome [OF g Cons.prems(1,2) this fuel]
  show ?case
    unfolding for_each.simps
  proof (rule outcome_and_then [OF first], elim conjE)
    fix x :: "'v executor"
    assume x: "tarjan_inv V D x" "ex_stack x = []" "visited x n" "\<forall>v \<in> V. visited e v \<longrightarrow> visited x v"
    from Cons.IH [OF x(1,2)] Cons.prems(3)
    have "outcome (MAX_DEPS < card V) (\<lambda>e'. tarjan_inv V D e' \<and> ex_stack e' = [] \<and>
      (\<forall>v \<in> set vs. visited e' v) \<and> (\<forall>v \<in> V. visited x v \<longrightarrow> visited e' v)) (for_each vs (visit_new fuel) x)"
      by simp
    then show "outcome (MAX_DEPS < card V) (\<lambda>e'. tarjan_inv V D e' \<and> ex_stack e' = [] \<and>
      (\<forall>v \<in> set (n # vs). visited e' v) \<and> (\<forall>v \<in> V. visited e v \<longrightarrow> visited e' v)) (for_each vs (visit_new fuel) x)"
      by (rule outcome_mono) (use x(3,4) Cons.prems(3) in auto)
  qed
qed

lemma strong_connect_inv:
  assumes "vertex_laws L" and "vertices_ok L insts e" and "fresh_search e"
  shows "outcome (MAX_DEPS < card (vertex_set L e))
    (\<lambda>e'. tarjan_inv (vertex_set L e) (links L insts e) e' \<and> ex_stack e' = [] \<and>
       (\<forall>v \<in> vertex_set L e. visited e' v)) (strong_connect L insts e)"
proof -
  have "ex_stack (linked L insts e (vertex_set L e)) = []" using assms(3) by (simp add: fresh_search_def)
  from visit_loop [OF edges_links(2) [OF assms(1,2)] card_length linked_inv [OF assms(2,3)] this subset_refl]
  show ?thesis
    unfolding strong_connect_def Let_def link_all [OF assms(2)] and_then_Inr
    by (rule outcome_mono) blast
qed

section \<open>Strongly connected components\<close>

lemma emitted_closed:
  assumes "sccs_ok V D e" and "j < ex_scc_count e" and "a \<in> emitted e j" and "(a, w) \<in> (edges V D)\<^sup>*"
  shows "\<exists>i \<le> j. w \<in> emitted e i"
  using assms(4)
proof (induction rule: rtrancl_induct)
  case base
  then show ?case using assms(3) by blast
next
  case (step y z)
  then obtain i where i: "i \<le> j" "y \<in> emitted e i" by blast
  then have "i < ex_scc_count e" using assms(2) by simp
  with i step(2) assms(1) obtain k where "k \<le> i" "z \<in> emitted e k" unfolding sccs_ok_def by meson
  with i(1) show ?case by (intro exI [of _ k]) simp
qed

lemma emitted_unique:
  assumes "sccs_ok V D e" and "i < ex_scc_count e" and "j < ex_scc_count e"
    and "a \<in> emitted e i" and "a \<in> emitted e j"
  shows "i = j"
  using assms unfolding sccs_ok_def by (metis disjoint_iff linorder_neqE_nat)

lemma emitted_class:
  assumes ok: "sccs_ok V D e" and all: "finished V e = V" and j: "j < ex_scc_count e" and a: "a \<in> emitted e j"
  shows "emitted e j = mutual V (edges V D) `` {a}"
proof
  have V: "V = (\<Union>j < ex_scc_count e. emitted e j)" using ok all by (simp add: sccs_ok_def)
  show "emitted e j \<subseteq> mutual V (edges V D) `` {a}"
    using ok j a by (subst V) (auto simp: mutual_def sccs_ok_def)
  show "mutual V (edges V D) `` {a} \<subseteq> emitted e j"
  proof
    fix w
    assume "w \<in> mutual V (edges V D) `` {a}"
    then have w: "(a, w) \<in> (edges V D)\<^sup>*" "(w, a) \<in> (edges V D)\<^sup>*" by (auto simp: mutual_def)
    from emitted_closed [OF ok j a w(1)] obtain i where i: "i \<le> j" "w \<in> emitted e i" by blast
    then have ic: "i < ex_scc_count e" using j by simp
    from emitted_closed [OF ok ic i(2) w(2)] obtain k where k: "k \<le> i" "a \<in> emitted e k" by blast
    then have "k = j" using emitted_unique [OF ok _ j k(2) a] ic by simp
    then show "w \<in> emitted e j" using i k(1) by simp
  qed
qed

lemma emitted_quotient:
  assumes "tarjan_inv V D e" and "ex_stack e = []" and "\<forall>v \<in> V. visited e v"
  shows "emitted e ` {..<ex_scc_count e} = V // mutual V (edges V D)"
proof -
  have ok: "sccs_ok V D e" using assms(1) by (simp add: tarjan_inv_def)
  have all: "finished V e = V" using assms(2,3) by (auto simp: finished_def)
  have V: "V = (\<Union>j < ex_scc_count e. emitted e j)" using ok all by (simp add: sccs_ok_def)
  note cls = emitted_class [OF ok all]
  show ?thesis
  proof (intro equalityI subsetI)
    fix C
    assume "C \<in> emitted e ` {..<ex_scc_count e}"
    then obtain j where j: "j < ex_scc_count e" "C = emitted e j" by auto
    then obtain a where a: "a \<in> emitted e j" using ok unfolding sccs_ok_def by blast
    then have "a \<in> V" using V j(1) by blast
    then show "C \<in> V // mutual V (edges V D)" using cls [OF j(1) a] j(2) by (auto simp: quotient_def)
  next
    fix C
    assume "C \<in> V // mutual V (edges V D)"
    then obtain a where a: "a \<in> V" "C = mutual V (edges V D) `` {a}" by (auto simp: quotient_def)
    then obtain j where j: "j < ex_scc_count e" "a \<in> emitted e j" using V by blast
    then show "C \<in> emitted e ` {..<ex_scc_count e}" using cls [OF j] a(2) by auto
  qed
qed

lemma packed_emitted:
  assumes "packed (ex_sccs e ! j)"
  obtains xs where "distinct xs" "length xs \<le> MAX_DEPS" "emitted e j = set xs"
    "ex_sccs e ! j = map Some xs @ replicate (MAX_DEPS - length xs) None"
proof -
  obtain xs where xs: "distinct xs" "length xs \<le> MAX_DEPS"
      "ex_sccs e ! j = map Some xs @ replicate (MAX_DEPS - length xs) None"
    using assms unfolding packed_def by blast
  then have "emitted e j = set xs" by (simp add: emitted_def image_iff)
  then show ?thesis using that xs by blast
qed

section \<open>What the search leaves alone\<close>

definition kept :: "'v executor \<Rightarrow> 'v executor \<Rightarrow> bool" where
  "kept e e' \<longleftrightarrow> ex_vertices e' = ex_vertices e \<and> ex_executed e' = ex_executed e \<and>
     (\<forall>v. map_option tn_i (ex_nodes e' v) = map_option tn_i (ex_nodes e v))"

lemma kept_refl [simp]: "kept e e"
  by (simp add: kept_def)

lemma kept_trans: "kept a b \<Longrightarrow> kept b c \<Longrightarrow> kept a c"
  by (simp add: kept_def)

lemma kept_basic [simp]:
  "kept a (e\<lparr>ex_sccs := x\<rparr>) \<longleftrightarrow> kept a e" "kept a (e\<lparr>ex_scc_count := k\<rparr>) \<longleftrightarrow> kept a e"
  "kept a (e\<lparr>ex_stack := st\<rparr>) \<longleftrightarrow> kept a e" "kept a (e\<lparr>ex_index := i\<rparr>) \<longleftrightarrow> kept a e"
  by (simp_all add: kept_def)

lemma kept_set_node: "kept a e \<Longrightarrow> ex_nodes e n = Some t \<Longrightarrow> tn_i t' = tn_i t \<Longrightarrow> kept a (set_node n t' e)"
  unfolding kept_def by (auto simp: set_node_def) (metis option.simps(9))+

lemma kept_steps:
  "yields (kept e) m \<Longrightarrow> (\<And>x. kept e x \<Longrightarrow> yields (kept x) (f x)) \<Longrightarrow> yields (kept e) (and_then m f)"
  by (auto simp: yields_def and_then_eq_Inr intro: kept_trans)

lemma kept_lower: "yields (kept e) (lower n k e)"
  unfolding lower_def by (intro yields_intros) (auto intro: kept_set_node)

lemma kept_pop: "yields (kept e) (pop_scc n cnt st e)"
proof (induction st arbitrary: cnt e)
  case Nil
  then show ?case by simp
next
  case (Cons v st)
  have step: "kept e x \<Longrightarrow> yields (kept e) (pop_scc n (Suc cnt) st x)" for x
    using Cons.IH [where e = x] by (auto simp: yields_def intro: kept_trans)
  show ?case
    unfolding pop_scc.simps Let_def by (intro yields_intros step) (auto intro!: kept_set_node)
qed

lemma kept_close: "yields (kept e) (close_scc n e)"
  unfolding close_scc_def
  by (intro yields_intros) (use kept_pop in \<open>fastforce simp: yields_def\<close>)+

lemma kept_enter: "ex_nodes e n = Some t \<Longrightarrow> kept e (enter n t e)"
  unfolding enter_def push_def by (auto intro!: kept_set_node)

lemma kept_visit:
  fixes e :: "'v executor"
  shows "yields (kept e) (visit fuel n e)" and "yields (kept e) (visit_deps fuel n ds e)"
proof (induction fuel n e and fuel n ds e rule: visit_visit_deps.induct)
  case (2 fuel n e)
  have loop: "yields (kept e) (and_then (visit_deps fuel n (tn_deps t) (enter n t e)) (close_scc n))"
    if t: "ex_nodes e n = Some t" for t
  proof (rule kept_steps [OF _ kept_close])
    show "yields (kept e) (visit_deps fuel n (tn_deps t) (enter n t e))"
      using 2 [where x = t] kept_enter [OF t] t by (auto simp: yields_def intro: kept_trans)
  qed
  show ?case unfolding visit.simps by (intro yields_and_then loop) simp
next
  case (5 fuel n d ds e)
  have one: "yields (kept e) (if not_visited t then and_then (visit fuel d e) (\<lambda>e1.
          and_then (load (ex_nodes e1) d) (\<lambda>t1. lower n (tn_low_link t1) e1))
        else if tn_on_stack t then lower n (tn_index t) e else Inr e)"
    if t: "ex_nodes e d = Some t" for t
    by (intro yields_if kept_steps 5(1) [where x = t] kept_lower yields_and_then) (simp_all add: t yields_def)
  show ?case
    unfolding visit_deps.simps
    by (intro yields_and_then kept_steps one 5(2)) auto
qed (auto intro: yields_intros)

lemma kept_strong_connect:
  fixes e :: "'v executor"
  shows "yields (kept e) (strong_connect L insts e)"
proof -
  have loop: "yields (kept e) (for_each vs f e)"
    if "\<And>v x. yields (kept x) (f v x)" for vs f and e :: "'v executor"
  proof (induction vs arbitrary: e)
    case (Cons v vs)
    show ?case unfolding for_each.simps by (rule kept_steps [OF that Cons])
  qed (simp add: yields_def)
  have link: "yields (kept x) (link_node L insts v x)" for v and x :: "'v executor"
    unfolding link_node_def
    by (intro yields_intros) (auto simp: reset_node_def intro!: kept_set_node)
  have visit: "yields (kept x) (visit_new k v x)" for k v and x :: "'v executor"
    unfolding visit_new_def by (intro yields_intros kept_visit) simp
  show ?thesis
    unfolding strong_connect_def Let_def by (intro kept_steps loop link visit)
qed

section \<open>Properties\<close>

text \<open>
  C5. \<open>strong_connect\<close> always ends, with a fuel of as many nested visits as there are vertices. It
  either overruns a fixed array, and only when more than \<open>MAX_DEPS\<close> instances are pending, or
  leaves an empty stack and the arrays of components hold exactly the strongly connected
  components of the dependency graph, each once, in an order in which a component comes after
  everything it depends on.
\<close>

theorem strong_connect_components:
  assumes "vertex_laws L" and "vertices_ok L insts e" and "fresh_search e"
  shows "outcome (MAX_DEPS < card (vertex_set L e))
    (\<lambda>e'. ex_stack e' = [] \<and>
       emitted e' ` {..<ex_scc_count e'} = dep_components L insts e \<and>
       (\<forall>j < ex_scc_count e'. packed (ex_sccs e' ! j) \<and> (\<forall>i < j. emitted e' i \<inter> emitted e' j = {})) \<and>
       (\<forall>j < ex_scc_count e'. \<forall>(v, w) \<in> dep_graph L insts e. v \<in> emitted e' j \<longrightarrow> (\<exists>i \<le> j. w \<in> emitted e' i)))
    (strong_connect L insts e)"
  using strong_connect_inv [OF assms]
proof (rule outcome_mono, elim conjE)
  fix x
  assume x: "tarjan_inv (vertex_set L e) (links L insts e) x" "ex_stack x = []"
    "\<forall>v \<in> vertex_set L e. visited x v"
  note eq = edges_links(1) [OF assms(1,2)]
  have "sccs_ok (vertex_set L e) (links L insts e) x" "arrays_ok x" using x(1) by (simp_all add: tarjan_inv_def)
  then have order: "(\<forall>j < ex_scc_count x. packed (ex_sccs x ! j) \<and> (\<forall>i < j. emitted x i \<inter> emitted x j = {})) \<and>
       (\<forall>j < ex_scc_count x. \<forall>(v, w) \<in> dep_graph L insts e. v \<in> emitted x j \<longrightarrow> (\<exists>i \<le> j. w \<in> emitted x i))"
    unfolding sccs_ok_def arrays_ok_def eq by blast
  show "ex_stack x = [] \<and>
       emitted x ` {..<ex_scc_count x} = dep_components L insts e \<and>
       (\<forall>j < ex_scc_count x. packed (ex_sccs x ! j) \<and> (\<forall>i < j. emitted x i \<inter> emitted x j = {})) \<and>
       (\<forall>j < ex_scc_count x. \<forall>(v, w) \<in> dep_graph L insts e. v \<in> emitted x j \<longrightarrow> (\<exists>i \<le> j. w \<in> emitted x i))"
    using emitted_quotient [OF x, unfolded eq, folded dep_components_def] x(2) order by blast
qed

text \<open>
  C32. The fixed arrays are overrun without a check: when the pending instances form more than
  \<open>MAX_DEPS\<close> components, or a component has more than \<open>MAX_DEPS\<close> members, the search writes
  past the end of \<^verbatim>\<open>sccs\<close> or of its \<^verbatim>\<open>nodes\<close>.
\<close>

theorem strong_connect_overflow:
  assumes "vertex_laws L" and "vertices_ok L insts e" and "fresh_search e"
    and "MAX_DEPS < card (dep_components L insts e) \<or> (\<exists>C \<in> dep_components L insts e. MAX_DEPS < card C)"
  shows "strong_connect L insts e = Inl Out_of_bounds"
proof (cases "strong_connect L insts e")
  case (Inl f)
  then show ?thesis using strong_connect_inv [OF assms(1-3)] by simp
next
  case (Inr x)
  then have x: "tarjan_inv (vertex_set L e) (links L insts e) x" "ex_stack x = []"
    "\<forall>v \<in> vertex_set L e. visited x v"
    using strong_connect_inv [OF assms(1-3)] by simp_all
  have Q: "emitted x ` {..<ex_scc_count x} = dep_components L insts e"
    using emitted_quotient [OF x] edges_links(1) [OF assms(1,2)] by (simp add: dep_components_def)
  have "card (dep_components L insts e) \<le> ex_scc_count x" unfolding Q [symmetric] by (rule order_trans [OF card_image_le]) simp_all
  also have "\<dots> \<le> MAX_DEPS" using x(1) by (simp add: tarjan_inv_def arrays_ok_def)
  finally have few: "card (dep_components L insts e) \<le> MAX_DEPS" .
  have "card C \<le> MAX_DEPS" if "C \<in> dep_components L insts e" for C
  proof -
    from that Q obtain j where j: "j < ex_scc_count x" "C = emitted x j" by auto
    then have "packed (ex_sccs x ! j)" using x(1) by (simp add: tarjan_inv_def arrays_ok_def)
    then obtain xs where "distinct xs" "length xs \<le> MAX_DEPS" "C = set xs"
      unfolding j(2) by (rule packed_emitted)
    then show ?thesis by (simp add: distinct_card)
  qed
  with few assms(4) show ?thesis by force
qed

end
