(* ===== verification/Epx_Executor.thy ===== *)
theory Epx_Executor
  imports Epx_Components Epx_Sort
begin

text \<open>
  Executing components (\<^verbatim>\<open>src/execute.c\<close>): the order inside a component, when a component
  runs, and what a whole pass of \<open>execute\<close> leaves behind.
\<close>

section \<open>The order inside a component\<close>

definition seq_at :: "insts \<Rightarrow> (nat \<Rightarrow> tarjan_node option) \<Rightarrow> nat \<Rightarrow> u64" where
  "seq_at insts nodes n = (case nodes n of None \<Rightarrow> 0 | Some t \<Rightarrow>
     (case insts (tn_i t) of None \<Rightarrow> 0 | Some i \<Rightarrow> i_seq i))"

definition has_inst :: "insts \<Rightarrow> (nat \<Rightarrow> tarjan_node option) \<Rightarrow> nat \<Rightarrow> bool" where
  "has_inst insts nodes n \<longleftrightarrow> (\<exists>t i. nodes n = Some t \<and> insts (tn_i t) = Some i)"

lemma seq_of_at: "has_inst insts nodes n \<Longrightarrow> seq_of insts nodes n = Inr (seq_at insts nodes n)"
  by (auto simp: has_inst_def seq_of_def seq_at_def load_def)

interpretation by_seq: shift_sort "\<lambda>a b. f b < f a" for f :: "nat \<Rightarrow> u64"
  by unfold_locales auto

abbreviation pack :: "nat list \<Rightarrow> scc" where
  "pack xs \<equiv> map Some xs @ replicate (MAX_DEPS - length xs) None"

lemma shift_scc_eq:
  assumes "\<forall>y \<in> set ys. has_inst insts nodes y" and "j < length ys"
  shows "shift_scc insts nodes s d j (map Some ys @ R) =
    Inr (map Some (shift_up (\<lambda>y. s < seq_at insts nodes y) d j ys) @ R)"
  using assms
proof (induction j arbitrary: ys)
  case 0
  then show ?case by (cases ys) simp_all
next
  case (Suc j)
  then have inst: "has_inst insts nodes (ys ! j)" by simp
  have "\<forall>y \<in> set (ys[Suc j := ys ! j]). has_inst insts nodes y"
    using Suc.prems set_update_subset_insert [of ys "Suc j" "ys ! j"] by fastforce
  then have rest: "shift_scc insts nodes s d j (map Some (ys[Suc j := ys ! j]) @ R) =
      Inr (map Some (shift_up (\<lambda>y. s < seq_at insts nodes y) d j (ys[Suc j := ys ! j])) @ R)"
    by (rule Suc.IH) (use Suc.prems in simp)
  have "aget (map Some ys @ R) j = Inr (Some (ys ! j))"
    and "aset (map Some ys @ R) (Suc j) (Some y) = Inr (map Some (ys[Suc j := y]) @ R)" for y
    using Suc.prems(2) by (simp_all add: nth_append list_update_append map_update)
  note slots = this
  show ?case
  proof (cases "s < seq_at insts nodes (ys ! j)")
    case True
    then show ?thesis using inst rest by (simp add: slots seq_of_at)
  next
    case False
    then show ?thesis using inst by (simp add: slots seq_of_at)
  qed
qed

lemma set_by_seq_rounds: "i \<le> length xs \<Longrightarrow> set (fold (by_seq.sort_round f) [1..<i] xs) = set xs"
proof -
  let ?ys = "fold (by_seq.sort_round f) [1..<i] xs"
  assume "i \<le> length xs"
  from by_seq.sort_rounds [OF this, of f]
  have "mset (take i ?ys) = mset (take i xs)" "drop i ?ys = drop i xs" by blast+
  then have "mset (take i ?ys @ drop i ?ys) = mset (take i xs @ drop i xs)" by (simp only: mset_append)
  then show "set ?ys = set xs" unfolding append_take_drop_id by (rule mset_eq_setD)
qed

lemma sort_scc_rounds:
  assumes "\<forall>y \<in> set xs. has_inst insts nodes y" and "length xs \<le> MAX_DEPS"
  shows "n \<le> MAX_DEPS \<Longrightarrow> for_each [1..<n] (\<lambda>i c. and_then (aget c i) (\<lambda>x.
         case x of None \<Rightarrow> Inr c
         | Some d \<Rightarrow> and_then (seq_of insts nodes d) (\<lambda>s. shift_scc insts nodes s d i c))) (pack xs) =
    Inr (pack (fold (by_seq.sort_round (seq_at insts nodes)) [1..<min n (length xs)] xs))"
proof (induction n)
  case 0
  then show ?case by simp
next
  case (Suc n)
  let ?f = "seq_at insts nodes"
  let ?ys = "fold (by_seq.sort_round ?f) [1..<min n (length xs)] xs"
  have len: "length ?ys = length xs" using by_seq.sort_rounds [of "min n (length xs)" xs ?f] by simp
  have ok: "\<forall>y \<in> set ?ys. has_inst insts nodes y"
    using assms(1) set_by_seq_rounds [of "min n (length xs)" xs ?f] by simp
  show ?case
  proof (cases "1 \<le> n")
    case False
    then have "n = 0" by simp
    then show ?thesis by simp
  next
    case True
    then have up: "[1..<Suc n] = [1..<n] @ [n]" by simp
    show ?thesis
    proof (cases "n < length xs")
      case False
      then show ?thesis
        using Suc True len unfolding up for_each_append by (simp add: nth_append min_absorb2)
    next
      case in_xs: True
      let ?d = "?ys ! n"
      have "has_inst insts nodes ?d" using ok in_xs len by simp
      moreover have "shift_scc insts nodes (?f ?d) ?d n (pack ?ys) =
          Inr (pack (by_seq.sort_round ?f n ?ys))"
        using shift_scc_eq [OF ok, of n] in_xs len by simp
      moreover have "[1..<min (Suc n) (length xs)] = [1..<min n (length xs)] @ [n]"
        using in_xs True by (simp add: min_absorb1)
      ultimately show ?thesis
        using Suc True in_xs len unfolding up for_each_append by (simp add: nth_append seq_of_at)
    qed
  qed
qed

text \<open>The sorted members of a component.\<close>

definition by_seq_order :: "insts \<Rightarrow> (nat \<Rightarrow> tarjan_node option) \<Rightarrow> nat list \<Rightarrow> nat list" where
  "by_seq_order insts nodes xs = fold (by_seq.sort_round (seq_at insts nodes)) [1..<length xs] xs"

lemma sort_scc_pack:
  assumes "\<forall>y \<in> set xs. has_inst insts nodes y" and "length xs \<le> MAX_DEPS"
  shows "sort_scc insts nodes (pack xs) = Inr (pack (by_seq_order insts nodes xs))"
  using sort_scc_rounds [OF assms order_refl] assms(2)
  by (simp add: sort_scc_def by_seq_order_def min_absorb2)

lemma by_seq_order_facts:
  shows "sorted (map (seq_at insts nodes) (by_seq_order insts nodes xs))"
    and "mset (by_seq_order insts nodes xs) = mset xs"
    and "filter (\<lambda>y. seq_at insts nodes y = s) (by_seq_order insts nodes xs) =
      filter (\<lambda>y. seq_at insts nodes y = s) xs"
proof -
  let ?f = "seq_at insts nodes"
  note facts = by_seq.sort_all [where f = ?f and xs = xs, folded by_seq_order_def]
  show "sorted (map ?f (by_seq_order insts nodes xs))"
    using facts(1) unfolding sorted_map not_less .
  show "mset (by_seq_order insts nodes xs) = mset xs" by (rule facts(2))
  show "filter (\<lambda>y. ?f y = s) (by_seq_order insts nodes xs) = filter (\<lambda>y. ?f y = s) xs"
  proof (cases "\<exists>y \<in> set xs. ?f y = s")
    case True
    then obtain k where "?f k = s" by blast
    have "(\<lambda>y. \<not> ?f k < ?f y \<and> \<not> ?f y < ?f k) = (\<lambda>y. ?f y = s)" using \<open>?f k = s\<close> by auto
    with facts(3) [where k = k] show ?thesis by simp
  next
    case False
    moreover have "set (by_seq_order insts nodes xs) = set xs" using facts(2) by (rule mset_eq_setD)
    ultimately show ?thesis by (auto simp: filter_empty_conv)
  qed
qed

text \<open>
  C30. \<open>sort_scc\<close> puts the members of a component in the order of their sequence numbers: the
  result is the stable sort of the members, the unused slots stay behind, and nothing faults.
\<close>

theorem sort_scc_correct:
  assumes "\<forall>y \<in> set xs. has_inst insts nodes y" and "length xs \<le> MAX_DEPS"
  shows "sort_scc insts nodes (map Some xs @ replicate (MAX_DEPS - length xs) None) =
    Inr (map Some (sort_key (seq_at insts nodes) xs) @ replicate (MAX_DEPS - length xs) None)"
proof -
  have "by_seq_order insts nodes xs = sort_key (seq_at insts nodes) xs"
  proof (rule properties_for_sort_key [symmetric])
    show "filter (\<lambda>x. seq_at insts nodes k = seq_at insts nodes x) (by_seq_order insts nodes xs) =
        filter (\<lambda>x. seq_at insts nodes k = seq_at insts nodes x) xs" for k
      using by_seq_order_facts(3) [of insts nodes "seq_at insts nodes k" xs] by (simp only: eq_commute)
  qed (rule by_seq_order_facts)+
  then show ?thesis using sort_scc_pack [OF assms] by simp
qed

end
