(* ===== verification/Epx_Execution.thy ===== *)
theory Epx_Execution
  imports Epx_Executor
begin

text \<open>
  A whole pass of the executor (\<open>execute\<close> in \<^verbatim>\<open>src/execute.c\<close>): which instances it marks as
  executed, that a dependency is never left behind, and that everything runs when nothing is
  missing.
\<close>

section \<open>Readiness\<close>

text \<open>
  The replica's index answers for a dependency, and what it names is allocated; \<open>dep_executed\<close>:
  the instance it names was executed.
\<close>

definition answered :: "(instance_id \<Rightarrow> instance_id option res) \<Rightarrow> insts \<Rightarrow> dependency \<Rightarrow> bool" where
  "answered lookup insts d \<longleftrightarrow> (instance_id (dep_id d) \<noteq> 0 \<longrightarrow>
     (\<exists>f. lookup (dep_id d) = Inr f \<and> (\<forall>k. f = Some k \<longrightarrow> insts k \<noteq> None)))"

definition dep_executed :: "(instance_id \<Rightarrow> instance_id option res) \<Rightarrow> insts \<Rightarrow> dependency \<Rightarrow> bool" where
  "dep_executed lookup insts d \<longleftrightarrow>
     (\<exists>k i. lookup (dep_id d) = Inr (Some k) \<and> insts k = Some i \<and> is_state (i_status i) EXECUTED)"

definition satisfied :: "'v vertex_lib \<Rightarrow> (instance_id \<Rightarrow> instance_id option res) \<Rightarrow> insts \<Rightarrow> 'v \<Rightarrow>
    nat set \<Rightarrow> dependency \<Rightarrow> bool" where
  "satisfied L lookup insts vs C d \<longleftrightarrow> instance_id (dep_id d) = 0 \<or>
     (\<exists>w \<in> C. vx_get L vs (dh_key (dep_id d)) = Some w) \<or> dep_executed lookup insts d"

definition ready :: "'v vertex_lib \<Rightarrow> (instance_id \<Rightarrow> instance_id option res) \<Rightarrow> insts \<Rightarrow>
    'v executor \<Rightarrow> nat set \<Rightarrow> nat set \<Rightarrow> bool" where
  "ready L lookup insts e C X \<longleftrightarrow>
     (\<forall>v \<in> X. \<forall>t i d. ex_nodes e v = Some t \<longrightarrow> insts (tn_i t) = Some i \<longrightarrow> d \<in> set (i_deps i) \<longrightarrow>
        satisfied L lookup insts (ex_vertices e) C d)"

lemma contains_iff: "contains cs v \<longleftrightarrow> Some v \<in> set cs"
  by (auto simp: contains_def)

lemma dep_ready_eq:
  assumes "answered lookup insts d"
  shows "dep_ready L lookup insts e cs d =
    Inr (satisfied L lookup insts (ex_vertices e) {w. Some w \<in> set cs} d)"
proof (cases "instance_id (dep_id d) = 0")
  case True
  then show ?thesis by (simp add: dep_ready_def satisfied_def)
next
  case False
  with assms obtain f where f: "lookup (dep_id d) = Inr f" "\<forall>k. f = Some k \<longrightarrow> insts k \<noteq> None"
    by (auto simp: answered_def)
  then have "and_then (lookup (dep_id d)) (\<lambda>f. case f of None \<Rightarrow> Inr False
      | Some k \<Rightarrow> and_then (load insts k) (\<lambda>i. Inr (is_state (i_status i) EXECUTED))) =
    Inr (dep_executed lookup insts d)"
    by (auto simp: dep_executed_def load_def split: option.split)
  then show ?thesis
    using False by (simp add: dep_ready_def satisfied_def contains_iff split: option.split)
qed

lemma deps_ready_eq:
  "\<forall>d \<in> set ds. answered lookup insts d \<Longrightarrow> deps_ready L lookup insts e cs ds =
    Inr (\<forall>d \<in> set ds. satisfied L lookup insts (ex_vertices e) {w. Some w \<in> set cs} d)"
  by (induction ds) (simp_all add: dep_ready_eq)

lemma scc_ready_eq:
  assumes "\<forall>v. Some v \<in> set vs \<longrightarrow> (\<exists>t i. ex_nodes e v = Some t \<and> insts (tn_i t) = Some i \<and>
    (\<forall>d \<in> set (i_deps i). answered lookup insts d))"
  shows "scc_ready L lookup insts e cs vs = Inr (ready L lookup insts e {w. Some w \<in> set cs} {v. Some v \<in> set vs})"
  using assms
proof (induction vs)
  case Nil
  then show ?case by (simp add: ready_def)
next
  case (Cons x vs)
  show ?case
  proof (cases x)
    case None
    with Cons show ?thesis by simp
  next
    case (Some v)
    with Cons.prems obtain t i where v: "ex_nodes e v = Some t" "insts (tn_i t) = Some i"
      "\<forall>d \<in> set (i_deps i). answered lookup insts d" by auto
    have "{u. u = v \<or> Some u \<in> set vs} = insert v {u. Some u \<in> set vs}" by auto
    with Cons v Some show ?thesis by (auto simp: load_Some deps_ready_eq ready_def)
  qed
qed

section \<open>Running members\<close>

definition mark :: "instance_id set \<Rightarrow> insts \<Rightarrow> insts" where
  "mark I insts = (\<lambda>k. if k \<in> I then map_option (\<lambda>i. i\<lparr>i_status := EXECUTED\<rparr>) (insts k) else insts k)"

definition ids :: "'v executor \<Rightarrow> nat set \<Rightarrow> instance_id set" where
  "ids e X = {tn_i t | t. \<exists>v \<in> X. ex_nodes e v = Some t}"

lemma ids_insert: "ex_nodes e v = Some t \<Longrightarrow> ids e (insert v X) = insert (tn_i t) (ids e X)"
  by (auto simp: ids_def)

lemma ids_mono: "X \<subseteq> Y \<Longrightarrow> ids e X \<subseteq> ids e Y"
  by (auto simp: ids_def)

lemma mark_empty [simp]: "mark {} insts = insts"
  by (simp add: mark_def)

lemma mark_insert: "insts k = Some i \<Longrightarrow> mark (insert k I) insts = (mark I insts)(k \<mapsto> i\<lparr>i_status := EXECUTED\<rparr>)"
  by (auto simp: mark_def)

lemma mark_Some: "mark I insts k = Some i' \<longleftrightarrow>
    (\<exists>i. insts k = Some i \<and> i' = (if k \<in> I then i\<lparr>i_status := EXECUTED\<rparr> else i))"
  by (auto simp: mark_def)

lemma mark_same:
  assumes "insts k = Some i"
  obtains i' where "mark I insts k = Some i'" "i_deps i' = i_deps i" "i_key i' = i_key i"
  using assms that by (cases "k \<in> I") (auto simp: mark_def)

lemma executed_state [simp]: "is_state EXECUTED EXECUTED"
  by (simp add: is_state_def EXECUTED_def)

lemma dep_executed_mark: "dep_executed lookup (mark I insts) d \<longleftrightarrow>
    (\<exists>k i. lookup (dep_id d) = Inr (Some k) \<and> insts k = Some i \<and> (k \<in> I \<or> is_state (i_status i) EXECUTED))"
proof -
  have "(\<exists>i. mark I insts k = Some i \<and> P i) \<longleftrightarrow> (\<exists>i. insts k = Some i \<and> P (if k \<in> I then i\<lparr>i_status := EXECUTED\<rparr> else i))"
    for k and P :: "inst \<Rightarrow> bool"
    by (cases "insts k") (auto simp: mark_def)
  then show ?thesis by (simp add: dep_executed_def) (rule iffI; elim exE conjE; force split: if_splits)
qed

lemma answered_mark [simp]: "answered lookup (mark I insts) d \<longleftrightarrow> answered lookup insts d"
  by (auto simp: answered_def mark_def)

text \<open>A pending vertex: its node, its instance, its key in the table, its dependencies.\<close>

definition vertex_good :: "'v vertex_lib \<Rightarrow> (instance_id \<Rightarrow> instance_id option res) \<Rightarrow> insts \<Rightarrow>
    'v executor \<Rightarrow> nat \<Rightarrow> bool" where
  "vertex_good L lookup insts e v \<longleftrightarrow> (\<exists>t i. ex_nodes e v = Some t \<and> insts (tn_i t) = Some i \<and>
     (\<forall>k. vx_get L (ex_vertices e) k = Some v \<longleftrightarrow> k = dh_key (i_key i)) \<and>
     (\<forall>d \<in> set (i_deps i). answered lookup insts d))"

text \<open>The state after the members \<open>X\<close> ran, seen from the state before.\<close>

definition after_members :: "'v vertex_lib \<Rightarrow> 'v executor \<Rightarrow> insts \<Rightarrow> nat set \<Rightarrow> 'v executor \<times> insts \<Rightarrow> bool" where
  "after_members L e0 insts0 X st \<longleftrightarrow>
     (\<forall>k n. vx_get L (ex_vertices (fst st)) k = Some n \<longleftrightarrow> vx_get L (ex_vertices e0) k = Some n \<and> n \<notin> X) \<and>
     ex_nodes (fst st) = (\<lambda>n. if n \<in> X then None else ex_nodes e0 n) \<and>
     snd st = mark (ids e0 X) insts0 \<and>
     length (ex_executed (fst st)) = MAX_DEPS \<and> ex_scc_count (fst st) = ex_scc_count e0"

lemma execute_at_step:
  assumes laws: "vertex_laws L" and ran: "after_members L e0 insts0 X (e, insts)" and v: "v \<notin> X" "vertex_good L lookup insts0 e0 v"
    and j: "j < length cs" "cs ! j = Some v" "length cs = MAX_DEPS"
  shows "\<exists>e' insts'. execute_at L cs j (e, insts) = Inr (e', insts') \<and> after_members L e0 insts0 (insert v X) (e', insts') \<and>
    ex_sccs e' = ex_sccs e \<and> ex_executed e' = (ex_executed e)[j := map_option tn_i (ex_nodes e0 v)]"
proof -
  from v(2) obtain t i where t: "ex_nodes e0 v = Some t" "insts0 (tn_i t) = Some i"
      "\<And>k. vx_get L (ex_vertices e0) k = Some v \<longleftrightarrow> k = dh_key (i_key i)"
    by (auto simp: vertex_good_def)
  let ?k = "dh_key (i_key i)"
  obtain i' where i': "insts (tn_i t) = Some i'" "i_key i' = i_key i"
      "i'\<lparr>i_status := EXECUTED\<rparr> = i\<lparr>i_status := EXECUTED\<rparr>"
    using ran t(2) by (cases "tn_i t \<in> ids e0 X") (auto simp: after_members_def mark_def)
  have node: "ex_nodes e v = Some t" using ran v(1) t(1) by (simp add: after_members_def)
  have key: "vx_get L (ex_vertices e) ?k = Some v" using ran v(1) t(3) [of ?k] by (simp add: after_members_def)
  have exj: "j < length (ex_executed e)" using ran j(1,3) by (simp add: after_members_def)
  let ?e = "e\<lparr>ex_executed := (ex_executed e)[j := Some (tn_i t)], ex_vertices := vx_del L (ex_vertices e) ?k,
      ex_nodes := (ex_nodes e)(v := None)\<rparr>"
  let ?insts = "insts(tn_i t \<mapsto> i\<lparr>i_status := EXECUTED\<rparr>)"
  have "execute_at L cs j (e, insts) = Inr (?e, ?insts)"
    using exj j node i' key by (simp add: execute_at_def load_Some Let_def)
  moreover have "after_members L e0 insts0 (insert v X) (?e, ?insts)"
    unfolding after_members_def
  proof (intro conjI allI)
    fix k n
    have "vx_get L (vx_del L (ex_vertices e) ?k) k = (if k = ?k then None else vx_get L (ex_vertices e) k)"
      using laws by (simp add: vertex_laws_def)
    then show "vx_get L (ex_vertices (fst (?e, ?insts))) k = Some n \<longleftrightarrow>
        vx_get L (ex_vertices e0) k = Some n \<and> n \<notin> insert v X"
      using ran t(3) [of k] t(3) [of ?k] by (auto simp: after_members_def)
    show "snd (?e, ?insts) = mark (ids e0 (insert v X)) insts0"
      using ran t(1,2) by (simp add: after_members_def ids_insert mark_insert)
  qed (use ran in \<open>auto simp: after_members_def\<close>)
  ultimately show ?thesis using t(1) by auto
qed

lemma execute_members:
  assumes laws: "vertex_laws L" and ran: "after_members L e0 insts0 X (e, insts)"
    and ys: "distinct ys" "length ys \<le> MAX_DEPS" "set ys \<inter> X = {}"
    and good: "\<forall>v \<in> set ys. vertex_good L lookup insts0 e0 v"
  shows "n \<le> MAX_DEPS \<Longrightarrow> \<exists>e' insts'. for_each [0..<n] (execute_at L (pack ys)) (e, insts) = Inr (e', insts') \<and>
    after_members L e0 insts0 (X \<union> set (take n ys)) (e', insts') \<and> ex_sccs e' = ex_sccs e \<and>
    take (min n (length ys)) (ex_executed e') = map (\<lambda>v. map_option tn_i (ex_nodes e0 v)) (take n ys)"
proof (induction n)
  case 0
  then show ?case using ran by simp
next
  case (Suc n)
  then obtain e1 insts1 where st: "for_each [0..<n] (execute_at L (pack ys)) (e, insts) = Inr (e1, insts1)"
      "after_members L e0 insts0 (X \<union> set (take n ys)) (e1, insts1)" "ex_sccs e1 = ex_sccs e"
      "take (min n (length ys)) (ex_executed e1) = map (\<lambda>v. map_option tn_i (ex_nodes e0 v)) (take n ys)"
    by auto
  have loop: "for_each [0..<Suc n] (execute_at L (pack ys)) (e, insts) = execute_at L (pack ys) n (e1, insts1)"
    using st(1) by (cases "execute_at L (pack ys) n (e1, insts1)") (simp_all add: for_each_append)
  show ?case
  proof (cases "n < length ys")
    case False
    then have "execute_at L (pack ys) n (e1, insts1) = Inr (e1, insts1)"
      using Suc.prems ys(2) by (simp add: execute_at_def nth_append)
    then show ?thesis using loop st False by (simp add: min_absorb2)
  next
    case True
    let ?v = "ys ! n"
    have v: "?v \<notin> X \<union> set (take n ys)" "vertex_good L lookup insts0 e0 ?v"
    proof -
      have mem: "?v \<in> set ys" using True by simp
      have "?v \<notin> set (take n ys)" using ys(1) True by (auto simp: in_set_conv_nth nth_eq_iff_index_eq)
      moreover have "?v \<notin> X" using mem ys(3) by blast
      ultimately show "?v \<notin> X \<union> set (take n ys)" by simp
      show "vertex_good L lookup insts0 e0 ?v" using good mem by simp
    qed
    have slot: "n < length (pack ys)" "pack ys ! n = Some ?v" "length (pack ys) = MAX_DEPS"
      using True ys(2) by (simp_all add: nth_append)
    from execute_at_step [OF laws st(2) v slot] obtain e2 insts2 where step:
        "execute_at L (pack ys) n (e1, insts1) = Inr (e2, insts2)"
        "after_members L e0 insts0 (insert ?v (X \<union> set (take n ys))) (e2, insts2)" "ex_sccs e2 = ex_sccs e1"
        "ex_executed e2 = (ex_executed e1)[n := map_option tn_i (ex_nodes e0 ?v)]"
      by blast
    have tk: "take (Suc n) ys = take n ys @ [?v]" using True by (rule take_Suc_conv_app_nth)
    have "n < length (ex_executed e1)" using st(2) Suc.prems by (simp add: after_members_def)
    then have "take (Suc n) (ex_executed e2) = take n (ex_executed e1) @ [map_option tn_i (ex_nodes e0 ?v)]"
      using step(4) by (simp add: take_Suc_conv_app_nth)
    then have "take (min (Suc n) (length ys)) (ex_executed e2) =
        map (\<lambda>v. map_option tn_i (ex_nodes e0 v)) (take (Suc n) ys)"
      using st(4) True tk by (simp add: min_absorb1)
    moreover have "after_members L e0 insts0 (X \<union> set (take (Suc n) ys)) (e2, insts2)"
      using step(2) unfolding tk by simp
    ultimately show ?thesis using loop step st(3) by simp
  qed
qed

section \<open>Running components\<close>

text \<open>One call of \<open>execute_scc\<close> on a component with the members \<open>xs\<close>.\<close>

lemma execute_scc_step:
  assumes laws: "vertex_laws L" and ran: "after_members L e0 insts0 X (e, insts)"
    and slot: "c < length (ex_sccs e)" "ex_sccs e ! c = pack xs"
    and xs: "distinct xs" "length xs \<le> MAX_DEPS" "set xs \<inter> X = {}"
    and good: "\<forall>v \<in> set xs. vertex_good L lookup insts0 e0 v"
  shows "if ready L lookup insts e (set xs) (set xs)
    then \<exists>e' insts'. execute_scc L lookup c (e, insts) = Inr (e', insts') \<and> after_members L e0 insts0 (X \<union> set xs) (e', insts') \<and>
      ex_sccs e' = (ex_sccs e)[c := pack (by_seq_order insts (ex_nodes e) xs)] \<and>
      take (length xs) (ex_executed e') =
        map (\<lambda>v. map_option tn_i (ex_nodes e0 v)) (by_seq_order insts (ex_nodes e) xs)
    else execute_scc L lookup c (e, insts) = Inr (e, insts)"
proof -
  have here: "\<exists>t i i'. ex_nodes e0 v = Some t \<and> ex_nodes e v = Some t \<and> insts (tn_i t) = Some i \<and>
      insts0 (tn_i t) = Some i' \<and> i_deps i = i_deps i' \<and> (\<forall>d \<in> set (i_deps i). answered lookup insts d)"
    if v: "v \<in> set xs" for v
  proof -
    obtain t i where t: "ex_nodes e0 v = Some t" "insts0 (tn_i t) = Some i"
        "\<forall>d \<in> set (i_deps i). answered lookup insts0 d"
      using good v by (auto simp: vertex_good_def)
    moreover have "ex_nodes e v = Some t" using ran v xs(3) t(1) by (auto simp: after_members_def)
    moreover have "insts = mark (ids e0 X) insts0" using ran by (simp add: after_members_def)
    moreover have "\<exists>i'. insts (tn_i t) = Some i' \<and> i_deps i' = i_deps i"
      using calculation(2,5) by (auto simp: mark_def)
    ultimately show ?thesis by auto
  qed
  let ?ys = "by_seq_order insts (ex_nodes e) xs"
  have ys: "mset ?ys = mset xs" by (rule by_seq_order_facts)
  have ready: "scc_ready L lookup insts e (pack xs) (pack xs) = Inr (ready L lookup insts e (set xs) (set xs))"
    using scc_ready_eq [of "pack xs" e insts lookup L "pack xs"] here by (fastforce simp: image_iff)
  have "\<forall>v \<in> set xs. has_inst insts (ex_nodes e) v" using here by (fastforce simp: has_inst_def)
  then have sort: "sort_scc insts (ex_nodes e) (pack xs) = Inr (pack ?ys)" using xs(2) by (rule sort_scc_pack)
  have eq: "execute_scc L lookup c (e, insts) =
      (if ready L lookup insts e (set xs) (set xs)
       then for_each [0..<MAX_DEPS] (execute_at L (pack ?ys)) (e\<lparr>ex_sccs := (ex_sccs e)[c := pack ?ys]\<rparr>, insts)
       else Inr (e, insts))"
    using slot ready sort by (simp add: execute_scc_def)
  let ?e = "e\<lparr>ex_sccs := (ex_sccs e)[c := pack ?ys]\<rparr>"
  have len: "length ?ys = length xs" and set: "set ?ys = set xs" and dist: "distinct ?ys"
    using mset_eq_length [OF ys] mset_eq_setD [OF ys] mset_eq_imp_distinct_iff [OF ys] xs(1) by simp_all
  have ran': "after_members L e0 insts0 X (?e, insts)" using ran by (simp add: after_members_def)
  have "\<exists>e' insts'. for_each [0..<MAX_DEPS] (execute_at L (pack ?ys)) (?e, insts) = Inr (e', insts') \<and>
    after_members L e0 insts0 (X \<union> set (take MAX_DEPS ?ys)) (e', insts') \<and> ex_sccs e' = ex_sccs ?e \<and>
    take (min MAX_DEPS (length ?ys)) (ex_executed e') = map (\<lambda>v. map_option tn_i (ex_nodes e0 v)) (take MAX_DEPS ?ys)"
    by (rule execute_members [OF laws ran' dist _ _ _ order_refl]) (use len set xs good in auto)
  then show ?thesis using eq len set xs(2) by (auto simp: min_absorb2)
qed

section \<open>A pass\<close>

text \<open>Between passes: the executor is reset and every vertex is in order.\<close>

definition exec_ok :: "'v vertex_lib \<Rightarrow> (instance_id \<Rightarrow> instance_id option res) \<Rightarrow> insts \<Rightarrow> 'v executor \<Rightarrow> bool" where
  "exec_ok L lookup insts e \<longleftrightarrow> fresh_search e \<and> length (ex_executed e) = MAX_DEPS \<and>
     (\<forall>v \<in> vertex_set L e. vertex_good L lookup insts e v)"

text \<open>
  Nothing is missing: a live dependency of a pending instance is executed, or pending itself
  under the identifier the replica's index answers with.
\<close>

definition nothing_missing :: "'v vertex_lib \<Rightarrow> (instance_id \<Rightarrow> instance_id option res) \<Rightarrow> insts \<Rightarrow> 'v executor \<Rightarrow> bool" where
  "nothing_missing L lookup insts e \<longleftrightarrow>
     (\<forall>v \<in> vertex_set L e. \<forall>t i d. ex_nodes e v = Some t \<longrightarrow> insts (tn_i t) = Some i \<longrightarrow> d \<in> set (i_deps i) \<longrightarrow>
        instance_id (dep_id d) = 0 \<or> dep_executed lookup insts d \<or>
        (\<exists>w t'. vx_get L (ex_vertices e) (dh_key (dep_id d)) = Some w \<and> ex_nodes e w = Some t' \<and>
           lookup (dep_id d) = Inr (Some (tn_i t'))))"

lemma dep_executed_mono:
  "I \<subseteq> J \<Longrightarrow> dep_executed lookup (mark I insts) d \<Longrightarrow> dep_executed lookup (mark J insts) d"
  by (auto simp: dep_executed_mark)

definition settled :: "'v vertex_lib \<Rightarrow> (instance_id \<Rightarrow> instance_id option res) \<Rightarrow> insts \<Rightarrow> 'v executor \<Rightarrow> nat set \<Rightarrow> bool" where
  "settled L lookup insts e X \<longleftrightarrow>
     (\<forall>v \<in> X. \<forall>t i d. ex_nodes e v = Some t \<longrightarrow> insts (tn_i t) = Some i \<longrightarrow> d \<in> set (i_deps i) \<longrightarrow>
        satisfied L lookup (mark (ids e X) insts) (ex_vertices e) X d)"

lemma satisfied_mono:
  assumes "satisfied L lookup (mark (ids e X) insts) vs C d" and "X \<subseteq> Y" and "C \<subseteq> Y"
  shows "satisfied L lookup (mark (ids e Y) insts) vs Y d"
  using assms dep_executed_mono [OF ids_mono [OF assms(2)]] unfolding satisfied_def by blast

lemma settled_step:
  assumes ran: "after_members L e0 insts0 X (e, insts)" and old: "settled L lookup insts0 e0 X"
    and rdy: "ready L lookup insts e C C" and disj: "C \<inter> X = {}"
  shows "settled L lookup insts0 e0 (X \<union> C)"
  unfolding settled_def
proof (intro ballI allI impI)
  fix v t i d
  assume v: "v \<in> X \<union> C" and t: "ex_nodes e0 v = Some t" "insts0 (tn_i t) = Some i" and d: "d \<in> set (i_deps i)"
  have ins: "insts = mark (ids e0 X) insts0" using ran by (simp add: after_members_def)
  show "satisfied L lookup (mark (ids e0 (X \<union> C)) insts0) (ex_vertices e0) (X \<union> C) d"
  proof (cases "v \<in> X")
    case True
    then have "satisfied L lookup (mark (ids e0 X) insts0) (ex_vertices e0) X d"
      using old t d unfolding settled_def by blast
    then show ?thesis by (rule satisfied_mono) auto
  next
    case False
    then have "ex_nodes e v = Some t" "v \<in> C" using ran t(1) v by (auto simp: after_members_def)
    moreover obtain i' where "insts (tn_i t) = Some i'" "i_deps i' = i_deps i"
      using t(2) unfolding ins by (rule mark_same)
    ultimately have "satisfied L lookup insts (ex_vertices e) C d" using rdy d unfolding ready_def by metis
    then have "satisfied L lookup insts (ex_vertices e0) C d"
      using ran by (auto simp: satisfied_def after_members_def)
    then show ?thesis unfolding ins by (rule satisfied_mono) auto
  qed
qed

text \<open>With nothing missing, a component whose predecessors ran is ready.\<close>

lemma ready_if_nothing_missing:
  assumes ran: "after_members L e0 insts0 X (e, insts)" and nm: "nothing_missing L lookup insts0 e0"
    and C: "C \<subseteq> vertex_set L e0" "C \<inter> X = {}"
    and closed: "\<forall>(v, w) \<in> dep_graph L insts0 e0. v \<in> C \<longrightarrow> w \<in> C \<union> X"
    and good: "\<forall>v \<in> X. vertex_good L lookup insts0 e0 v"
  shows "ready L lookup insts e C C"
  unfolding ready_def
proof (intro ballI allI impI)
  fix v t i d
  assume v: "v \<in> C" and t: "ex_nodes e v = Some t" "insts (tn_i t) = Some i" and d: "d \<in> set (i_deps i)"
  have ins: "insts = mark (ids e0 X) insts0" using ran by (simp add: after_members_def)
  have t0: "ex_nodes e0 v = Some t" using ran t(1) by (auto simp: after_members_def split: if_splits)
  obtain i0 where i0: "insts0 (tn_i t) = Some i0" "i_deps i0 = i_deps i"
    using t(2) unfolding ins mark_Some by (auto split: if_splits)
  have V: "v \<in> vertex_set L e0" using v C by blast
  consider (zero) "instance_id (dep_id d) = 0" | (old) "dep_executed lookup insts0 d"
    | (pending) w t' where "instance_id (dep_id d) \<noteq> 0" "vx_get L (ex_vertices e0) (dh_key (dep_id d)) = Some w"
        "ex_nodes e0 w = Some t'" "lookup (dep_id d) = Inr (Some (tn_i t'))"
    using nm V t0 i0 d unfolding nothing_missing_def by metis
  then show "satisfied L lookup insts (ex_vertices e) C d"
  proof cases
    case zero
    then show ?thesis by (simp add: satisfied_def)
  next
    case old
    then have "dep_executed lookup insts d"
      using dep_executed_mono [of "{}" "ids e0 X" lookup insts0 d] by (simp add: ins)
    then show ?thesis by (simp add: satisfied_def)
  next
    case pending
    then have "(v, w) \<in> dep_graph L insts0 e0" using V t0 i0 d by (auto simp: dep_graph_def)
    then consider "w \<in> C" | "w \<in> X" using closed v by blast
    then show ?thesis
    proof cases
      case 1
      then have "vx_get L (ex_vertices e) (dh_key (dep_id d)) = Some w"
        using ran pending(2) C(2) by (auto simp: after_members_def)
      then show ?thesis using 1 by (auto simp: satisfied_def)
    next
      case 2
      then have "tn_i t' \<in> ids e0 X" using pending(3) by (auto simp: ids_def)
      moreover have "\<exists>j. insts0 (tn_i t') = Some j"
        using good 2 pending(3) by (auto simp: vertex_good_def)
      ultimately have "dep_executed lookup insts d" using pending(4) unfolding ins dep_executed_mark by blast
      then show ?thesis by (simp add: satisfied_def)
    qed
  qed
qed

text \<open>The loop over the components that \<open>strong_connect\<close> left in \<open>e\<close>.\<close>

lemma pass_loop:
  fixes e :: "'v executor" and insts :: insts
  assumes laws: "vertex_laws L" and len: "length (ex_executed e) = MAX_DEPS"
    and good: "\<forall>v \<in> vertex_set L e. vertex_good L lookup insts e v"
    and inv: "tarjan_inv (vertex_set L e) D e" and fin: "finished (vertex_set L e) e = vertex_set L e"
    and edges: "edges (vertex_set L e) D = dep_graph L insts e"
  shows "c \<le> ex_scc_count e \<Longrightarrow>
    \<exists>X e' insts'. for_each [0..<c] (execute_scc L lookup) (e, insts) = Inr (e', insts') \<and>
      after_members L e insts X (e', insts') \<and> X \<subseteq> (\<Union>j < c. emitted e j) \<and> settled L lookup insts e X \<and>
      length (ex_sccs e') = MAX_DEPS \<and> (\<forall>j. c \<le> j \<longrightarrow> ex_sccs e' ! j = ex_sccs e ! j) \<and>
      (nothing_missing L lookup insts e \<longrightarrow> (\<Union>j < c. emitted e j) \<subseteq> X)"
proof (induction c)
  case 0
  have "after_members L e insts {} (e, insts)" by (simp add: after_members_def ids_def len)
  moreover have "length (ex_sccs e) = MAX_DEPS" using inv by (simp add: tarjan_inv_def arrays_ok_def)
  ultimately show ?case by (auto simp: settled_def)
next
  case (Suc c)
  have arr: "arrays_ok e" and sccs: "sccs_ok (vertex_set L e) D e" using inv by (simp_all add: tarjan_inv_def)
  have V: "vertex_set L e = (\<Union>j < ex_scc_count e. emitted e j)" using sccs fin by (simp add: sccs_ok_def)
  from Suc obtain X e1 insts1 where st: "for_each [0..<c] (execute_scc L lookup) (e, insts) = Inr (e1, insts1)"
      "after_members L e insts X (e1, insts1)" "X \<subseteq> (\<Union>j < c. emitted e j)" "settled L lookup insts e X"
      "length (ex_sccs e1) = MAX_DEPS" "\<forall>j. c \<le> j \<longrightarrow> ex_sccs e1 ! j = ex_sccs e ! j"
      "nothing_missing L lookup insts e \<longrightarrow> (\<Union>j < c. emitted e j) \<subseteq> X"
    by auto
  have c: "c < ex_scc_count e" using Suc.prems by simp
  then have "packed (ex_sccs e ! c)" using arr by (simp add: arrays_ok_def)
  then obtain xs where xs: "distinct xs" "length xs \<le> MAX_DEPS" "emitted e c = set xs" "ex_sccs e ! c = pack xs"
    by (rule packed_emitted)
  have slot: "c < length (ex_sccs e1)" "ex_sccs e1 ! c = pack xs"
    using c arr st(5,6) xs(4) by (simp_all add: arrays_ok_def)
  have "\<forall>j < c. emitted e j \<inter> emitted e c = {}" using sccs c by (simp add: sccs_ok_def)
  then have disj: "set xs \<inter> X = {}" using st(3) unfolding xs(3) by blast
  have emV: "emitted e j \<subseteq> vertex_set L e" if "j < ex_scc_count e" for j
    unfolding V using that by (intro UN_upper) simp
  have "(\<Union>j < c. emitted e j) \<subseteq> vertex_set L e" using emV c by (intro UN_least) simp
  with st(3) have XV: "X \<subseteq> vertex_set L e" by (rule subset_trans)
  have xsV: "set xs \<subseteq> vertex_set L e" using emV [OF c] unfolding xs(3) .
  then have goodx: "\<forall>v \<in> set xs. vertex_good L lookup insts e v" using good by blast
  note step = execute_scc_step [OF laws st(2) slot xs(1,2) disj goodx]
  have loop: "for_each [0..<Suc c] (execute_scc L lookup) (e, insts) = execute_scc L lookup c (e1, insts1)"
    using st(1) by (cases "execute_scc L lookup c (e1, insts1)") (simp_all add: for_each_append)
  have all: "ready L lookup insts1 e1 (set xs) (set xs)" if nm: "nothing_missing L lookup insts e"
  proof (rule ready_if_nothing_missing [OF st(2) nm xsV disj])
    show "\<forall>(v, w) \<in> dep_graph L insts e. v \<in> set xs \<longrightarrow> w \<in> set xs \<union> X"
    proof clarify
      fix v w
      assume vw: "(v, w) \<in> dep_graph L insts e" "v \<in> set xs" "w \<notin> X"
      then obtain i where i: "i \<le> c" "w \<in> emitted e i"
        using sccs_order [OF inv c] xs(3) edges by blast
      moreover have "\<not> i < c" using st(7) nm vw(3) i(2) by blast
      ultimately show "w \<in> set xs" using xs(3) by (simp add: le_less)
    qed
    show "\<forall>v \<in> X. vertex_good L lookup insts e v"
      using XV good by blast
  qed
  show ?case
  proof (cases "ready L lookup insts1 e1 (set xs) (set xs)")
    case True
    with step obtain e2 insts2 where s2: "execute_scc L lookup c (e1, insts1) = Inr (e2, insts2)"
        "after_members L e insts (X \<union> set xs) (e2, insts2)"
        "ex_sccs e2 = (ex_sccs e1)[c := pack (by_seq_order insts1 (ex_nodes e1) xs)]"
      by auto
    moreover have "settled L lookup insts e (X \<union> set xs)"
      by (rule settled_step [OF st(2,4) True disj])
    moreover have un: "(\<Union>j < Suc c. emitted e j) = (\<Union>j < c. emitted e j) \<union> set xs"
      using xs(3) by (auto simp: lessThan_Suc)
    have "X \<union> set xs \<subseteq> (\<Union>j < Suc c. emitted e j)" using st(3) unfolding un by blast
    moreover have "nothing_missing L lookup insts e \<longrightarrow> (\<Union>j < Suc c. emitted e j) \<subseteq> X \<union> set xs"
      using st(7) unfolding un by blast
    moreover have "length (ex_sccs e2) = MAX_DEPS \<and> (\<forall>j. Suc c \<le> j \<longrightarrow> ex_sccs e2 ! j = ex_sccs e ! j)"
      using st(5,6) s2(3) by simp
    ultimately show ?thesis unfolding loop by blast
  next
    case False
    then have "execute_scc L lookup c (e1, insts1) = Inr (e1, insts1)" using step by simp
    moreover have "X \<subseteq> (\<Union>j < Suc c. emitted e j)" using st(3) by (auto simp: lessThan_Suc)
    moreover have "\<forall>j. Suc c \<le> j \<longrightarrow> ex_sccs e1 ! j = ex_sccs e ! j" using st(6) by simp
    moreover have "\<not> nothing_missing L lookup insts e" using all False by blast
    ultimately show ?thesis using st(2,4,5) unfolding loop by blast
  qed
qed

section \<open>What a pass leaves\<close>

lemma kept_node:
  "kept e e' \<Longrightarrow> ex_nodes e' v = Some t' \<Longrightarrow> \<exists>t. ex_nodes e v = Some t \<and> tn_i t = tn_i t'"
  unfolding kept_def by (metis map_option_eq_Some option.simps(9))

lemma kept_sym: "kept e e' \<Longrightarrow> kept e' e"
  by (simp add: kept_def)

lemma kept_vertices: "kept e e' \<Longrightarrow> ex_vertices e' = ex_vertices e"
  by (simp add: kept_def)

lemma kept_all:
  assumes "kept e e'"
  shows "(\<forall>t. ex_nodes e' v = Some t \<longrightarrow> P (tn_i t)) \<longleftrightarrow> (\<forall>t. ex_nodes e v = Some t \<longrightarrow> P (tn_i t))"
    and "(\<exists>t. ex_nodes e' v = Some t \<and> P (tn_i t)) \<longleftrightarrow> (\<exists>t. ex_nodes e v = Some t \<and> P (tn_i t))"
  using kept_node [OF assms] kept_node [OF kept_sym [OF assms]] by metis+

lemma kept_ids:
  assumes "kept e e'"
  shows "ids e' X = ids e X"
proof -
  have "x \<in> ids f X \<longleftrightarrow> (\<exists>v \<in> X. \<exists>t. ex_nodes f v = Some t \<and> tn_i t = x)" for x and f :: "'a executor"
    by (auto simp: ids_def)
  then show ?thesis using kept_all(2) [OF assms, of _ "\<lambda>k. k = _"] by (simp add: set_eq_iff)
qed

lemma kept_vertex_good:
  assumes "kept e e'"
  shows "vertex_good L lookup insts e' v \<longleftrightarrow> vertex_good L lookup insts e v"
  using kept_all(2) [OF assms, of v "\<lambda>k. \<exists>i. insts k = Some i \<and>
     (\<forall>k. vx_get L (ex_vertices e) k = Some v \<longleftrightarrow> k = dh_key (i_key i)) \<and>
     (\<forall>d \<in> set (i_deps i). answered lookup insts d)"]
  by (simp add: vertex_good_def kept_vertices [OF assms])

lemma kept_settled:
  assumes "kept e e'"
  shows "settled L lookup insts e' X \<longleftrightarrow> settled L lookup insts e X"
  using kept_all(1) [OF assms, of _ "\<lambda>k. \<forall>i d. insts k = Some i \<longrightarrow> d \<in> set (i_deps i) \<longrightarrow>
        satisfied L lookup (mark (ids e X) insts) (ex_vertices e) X d"]
  unfolding settled_def kept_vertices [OF assms] kept_ids [OF assms] by (simp add: Ball_def imp_conjL)

lemma kept_dep_graph:
  assumes "kept e e'"
  shows "dep_graph L insts e' = dep_graph L insts e"
proof -
  have "(\<exists>t i d. ex_nodes e' v = Some t \<and> insts (tn_i t) = Some i \<and> d \<in> set (i_deps i) \<and> P d) \<longleftrightarrow>
      (\<exists>t i d. ex_nodes e v = Some t \<and> insts (tn_i t) = Some i \<and> d \<in> set (i_deps i) \<and> P d)" for v P
    using kept_all(2) [OF assms, of v "\<lambda>k. \<exists>i d. insts k = Some i \<and> d \<in> set (i_deps i) \<and> P d"] by simp
  then show ?thesis unfolding dep_graph_def kept_vertices [OF assms] by simp
qed

lemma kept_nothing_missing:
  assumes "kept e e'"
  shows "nothing_missing L lookup insts e \<Longrightarrow> nothing_missing L lookup insts e'"
proof -
  assume nm: "nothing_missing L lookup insts e"
  show ?thesis
    unfolding nothing_missing_def kept_vertices [OF assms]
  proof (intro ballI allI impI)
    fix v t' i d
    assume v: "v \<in> vertex_set L e" "ex_nodes e' v = Some t'" "insts (tn_i t') = Some i" "d \<in> set (i_deps i)"
    obtain t where t: "ex_nodes e v = Some t" "tn_i t = tn_i t'" using kept_node [OF assms v(2)] by blast
    then have "instance_id (dep_id d) = 0 \<or> dep_executed lookup insts d \<or>
        (\<exists>w u. vx_get L (ex_vertices e) (dh_key (dep_id d)) = Some w \<and> ex_nodes e w = Some u \<and>
           lookup (dep_id d) = Inr (Some (tn_i u)))"
      using nm v unfolding nothing_missing_def by metis
    then show "instance_id (dep_id d) = 0 \<or> dep_executed lookup insts d \<or>
        (\<exists>w u. vx_get L (ex_vertices e) (dh_key (dep_id d)) = Some w \<and> ex_nodes e' w = Some u \<and>
           lookup (dep_id d) = Inr (Some (tn_i u)))"
      using kept_node [OF kept_sym [OF assms]] by metis
  qed
qed

lemma vertex_set_iff: "vertex_laws L \<Longrightarrow> v \<in> vertex_set L e \<longleftrightarrow> (\<exists>k. vx_get L (ex_vertices e) k = Some v)"
  by (auto simp: vertex_laws_def Map.ran_def)

text \<open>After the members \<open>X\<close> ran, the other vertices are still in order.\<close>

lemma ran_exec_ok:
  assumes laws: "vertex_laws L" and good: "\<forall>v \<in> vertex_set L e. vertex_good L lookup insts e v"
    and ran: "after_members L e insts X (e2, insts2)"
  shows "exec_ok L lookup insts2 (reset_exec e2)" and "vertex_set L (reset_exec e2) = vertex_set L e - X"
proof -
  let ?r = "reset_exec e2"
  have sel: "ex_vertices ?r = ex_vertices e2" "ex_nodes ?r = ex_nodes e2" "length (ex_executed ?r) = MAX_DEPS"
    by (simp_all add: reset_exec_def)
  have get: "vx_get L (ex_vertices e2) k = Some n \<longleftrightarrow> vx_get L (ex_vertices e) k = Some n \<and> n \<notin> X" for k n
    using ran by (simp add: after_members_def)
  show V: "vertex_set L ?r = vertex_set L e - X"
  proof (rule set_eqI)
    fix v
    show "v \<in> vertex_set L ?r \<longleftrightarrow> v \<in> vertex_set L e - X"
      unfolding Diff_iff vertex_set_iff [OF laws] sel get by blast
  qed
  have "vertex_good L lookup insts2 ?r v" if v: "v \<in> vertex_set L ?r" for v
  proof -
    have v': "v \<in> vertex_set L e" "v \<notin> X" using v unfolding V by simp_all
    obtain t i where t: "ex_nodes e v = Some t" "insts (tn_i t) = Some i"
        "\<forall>k. vx_get L (ex_vertices e) k = Some v \<longleftrightarrow> k = dh_key (i_key i)"
        "\<forall>d \<in> set (i_deps i). answered lookup insts d"
      using good v'(1) unfolding vertex_good_def by blast
    have ins: "insts2 = mark (ids e X) insts" using ran by (simp add: after_members_def)
    obtain i' where i': "insts2 (tn_i t) = Some i'" "i_deps i' = i_deps i" "i_key i' = i_key i"
      using t(2) unfolding ins by (rule mark_same)
    have "ex_nodes ?r v = Some t" using ran t(1) v'(2) by (simp add: after_members_def sel)
    moreover have "\<forall>k. vx_get L (ex_vertices ?r) k = Some v \<longleftrightarrow> k = dh_key (i_key i')"
      using t(3) v'(2) by (simp add: sel get i')
    moreover have "\<forall>d \<in> set (i_deps i'). answered lookup insts2 d" using t(4) by (simp add: ins i')
    ultimately show ?thesis using i'(1) unfolding vertex_good_def by blast
  qed
  then show "exec_ok L lookup insts2 ?r" by (simp add: exec_ok_def sel)
qed

lemma execute_result:
  assumes laws: "vertex_laws L" and ok: "exec_ok L lookup insts e"
  shows "outcome (MAX_DEPS < card (vertex_set L e))
    (\<lambda>(e', insts'). \<exists>X \<subseteq> vertex_set L e. insts' = mark (ids e X) insts \<and> exec_ok L lookup insts' e' \<and>
       vertex_set L e' = vertex_set L e - X \<and> settled L lookup insts e X \<and>
       (nothing_missing L lookup insts e \<longrightarrow> X = vertex_set L e))
    (execute L lookup (e, insts))"
proof -
  let ?V = "vertex_set L e"
  have good: "\<forall>v \<in> ?V. vertex_good L lookup insts e v" and fresh: "fresh_search e"
    and len: "length (ex_executed e) = MAX_DEPS"
    using ok by (auto simp: exec_ok_def)
  then have vok: "vertices_ok L insts e" by (auto simp: vertices_ok_def vertex_good_def)
  note sc = strong_connect_inv [OF laws vok fresh]
  show ?thesis
  proof (cases "strong_connect L insts e")
    case (Inl f)
    then show ?thesis using sc by (simp add: execute_def)
  next
    case (Inr e1)
    then have inv: "tarjan_inv ?V (links L insts e) e1" "ex_stack e1 = []" "\<forall>v \<in> ?V. visited e1 v"
      using sc by simp_all
    have kept: "kept e e1" using kept_strong_connect Inr by (rule yieldsD)
    note same = kept_vertices [OF kept] kept_vertex_good [OF kept] kept_settled [OF kept] kept_ids [OF kept]
    have len1: "length (ex_executed e1) = MAX_DEPS" using kept len by (simp add: kept_def)
    have fin: "finished ?V e1 = ?V" using inv(2,3) by (auto simp: finished_def)
    have edges: "edges ?V (links L insts e) = dep_graph L insts e1"
      unfolding edges_links(1) [OF laws vok] by (rule kept_dep_graph [OF kept, symmetric])
    have V: "?V = (\<Union>j < ex_scc_count e1. emitted e1 j)"
      using inv(1) fin by (simp add: tarjan_inv_def sccs_ok_def)
    note loop = pass_loop [OF laws len1, unfolded same, OF good inv(1) fin edges order_refl]
    obtain X e2 insts2 where X: "for_each [0..<ex_scc_count e1] (execute_scc L lookup) (e1, insts) = Inr (e2, insts2)"
        "after_members L e1 insts X (e2, insts2)" "X \<subseteq> (\<Union>j < ex_scc_count e1. emitted e1 j)" "settled L lookup insts e X"
        "nothing_missing L lookup insts e1 \<longrightarrow> (\<Union>j < ex_scc_count e1. emitted e1 j) \<subseteq> X"
      using loop by blast
    have "exec_ok L lookup insts2 (reset_exec e2)" "vertex_set L (reset_exec e2) = ?V - X"
      using ran_exec_ok [OF laws _ X(2)] good by (simp_all add: same)
    moreover have "insts2 = mark (ids e X) insts" using X(2) by (simp add: after_members_def same)
    moreover have "X \<subseteq> ?V" using X(3) unfolding V .
    moreover have "X = ?V" if "nothing_missing L lookup insts e"
      using X(3,5) kept_nothing_missing [OF kept that] unfolding V by (intro equalityI) simp_all
    moreover have res: "execute L lookup (e, insts) = Inr (reset_exec e2, insts2)"
      using Inr X(1) by (simp add: execute_def)
    ultimately show ?thesis using X(4) unfolding res outcome_Inr prod.case by blast
  qed
qed

end
