(* ===== verification/Epx_Executor_Props.thy ===== *)
theory Epx_Executor_Props
  imports Epx_Execution
begin

text \<open>
  The properties of the executor: what \<open>add_node\<close> and \<open>run_execute\<close> keep, that a pass
  executes nothing before its dependencies, and that it executes everything when nothing is
  missing.
\<close>

section \<open>Adding a vertex\<close>

text \<open>An instance that arrives: allocated, with dependencies the replica's index answers for.\<close>

definition arriving :: "(instance_id \<Rightarrow> instance_id option res) \<Rightarrow> insts \<Rightarrow> inst \<Rightarrow> bool" where
  "arriving lookup insts i \<longleftrightarrow> insts (i_key i) = Some i \<and> (\<forall>d \<in> set (i_deps i). answered lookup insts d)"

lemma add_node_result:
  assumes laws: "vertex_laws L" and ok: "exec_ok L lookup insts e" and a: "ex_nodes e a = None"
    and arr: "arriving lookup insts i"
  shows "\<exists>e'. add_node L (Some a) i e = Inr (e', vx_get L (ex_vertices e) (dh_key (i_key i)) = None) \<and>
    exec_ok L lookup insts e' \<and> card (vertex_set L e') \<le> Suc (card (vertex_set L e))"
proof -
  let ?k = "dh_key (i_key i)" and ?old = "vx_get L (ex_vertices e) (dh_key (i_key i))"
  let ?e = "e\<lparr>ex_vertices := vx_put L (ex_vertices e) ?k a,
      ex_nodes := (case ?old of None \<Rightarrow> (ex_nodes e)(a \<mapsto> new_tn (i_key i))
        | Some n \<Rightarrow> (ex_nodes e)(a \<mapsto> new_tn (i_key i), n := None))\<rparr>"
  have nodes: "ex_nodes ?e v = (if v = a then Some (new_tn (i_key i)) else ex_nodes e v)" if "?old \<noteq> Some v" for v
    using that by (auto split: option.split)
  have good: "vertex_good L lookup insts e v" if "vx_get L (ex_vertices e) k = Some v" for v k
    using ok that vertex_set_iff [OF laws] unfolding exec_ok_def by blast
  have a_new: "vx_get L (ex_vertices e) k \<noteq> Some a" for k
    using good [of k a] a by (auto simp: vertex_good_def)
  have put: "vx_get L (vx_put L (ex_vertices e) ?k a) k = (if k = ?k then Some a else vx_get L (ex_vertices e) k)" for k
    using laws by (simp add: vertex_laws_def)
  have "add_node L (Some a) i e = Inr (?e, ?old = None)"
  proof (cases ?old)
    case None
    then show ?thesis by (simp add: add_node_def Let_def set_node_def)
  next
    case (Some n)
    then have "n \<noteq> a" "\<exists>t. ex_nodes e n = Some t"
      using a_new good [OF Some] by (auto simp: vertex_good_def)
    then show ?thesis using Some by (auto simp: add_node_def Let_def set_node_def load_def)
  qed
  moreover have "vertex_good L lookup insts ?e v" if v: "v \<in> vertex_set L ?e" for v
  proof (cases "v = a")
    case True
    have "(if k = ?k then Some a else vx_get L (ex_vertices e) k) = Some a \<longleftrightarrow> k = ?k" for k
      using a_new by simp
    moreover have "ex_nodes ?e a = Some (new_tn (i_key i))" using nodes [of a] a_new by simp
    ultimately show ?thesis
      using True arr by (auto simp: vertex_good_def arriving_def new_tn_def put)
  next
    case False
    then obtain k where k: "k \<noteq> ?k" "vx_get L (ex_vertices e) k = Some v"
      using v unfolding vertex_set_iff [OF laws] by (auto simp: put split: if_splits)
    then obtain t i' where t: "ex_nodes e v = Some t" "insts (tn_i t) = Some i'"
      "\<forall>k. vx_get L (ex_vertices e) k = Some v \<longleftrightarrow> k = dh_key (i_key i')"
      "\<forall>d \<in> set (i_deps i'). answered lookup insts d"
      using good [OF k(2)] by (auto simp: vertex_good_def)
    then have "?old \<noteq> Some v" using k by metis
    then have "ex_nodes ?e v = Some t" using nodes [of v] False t(1) by simp
    moreover have "(if k' = ?k then Some a else vx_get L (ex_vertices e) k') = Some v \<longleftrightarrow> k' = dh_key (i_key i')" for k'
      using t(3) k False by auto
    ultimately show ?thesis using t(2,4) by (auto simp: vertex_good_def put)
  qed
  then have "exec_ok L lookup insts ?e" using ok by (simp add: exec_ok_def fresh_search_def)
  moreover have "vertex_set L ?e \<subseteq> insert a (vertex_set L e)"
    unfolding subset_iff insert_iff vertex_set_iff [OF laws] by (auto simp: put split: if_splits)
  then have "card (vertex_set L ?e) \<le> card (insert a (vertex_set L e))" by (rule card_mono [rotated]) simp
  ultimately show ?thesis using card_insert_le_m1 [of "Suc (card (vertex_set L e))" "vertex_set L e" a]
    by (intro exI [of _ ?e]) (auto intro: order_trans simp: card_insert_if)
qed

section \<open>Properties\<close>


text \<open>
  C6. Nothing is executed before what it depends on: an instance that a pass changes was pending,
  only its status changes, its vertex is gone, and every live dependency of it is executed
  afterwards, either in the replica's index or as a vertex of the same pass.
\<close>

theorem execute_dependencies_first:
  assumes "vertex_laws L" and "exec_ok L lookup insts e"
  shows "outcome (MAX_DEPS < card (vertex_set L e))
    (\<lambda>(e', insts'). \<forall>k. insts' k \<noteq> insts k \<longrightarrow>
       (\<exists>v t i. v \<in> vertex_set L e - vertex_set L e' \<and> ex_nodes e v = Some t \<and> tn_i t = k \<and>
          insts k = Some i \<and> insts' k = Some (i\<lparr>i_status := EXECUTED\<rparr>) \<and>
          (\<forall>d \<in> set (i_deps i). instance_id (dep_id d) = 0 \<or> dep_executed lookup insts' d \<or>
             (\<exists>w t' i'. vx_get L (ex_vertices e) (dh_key (dep_id d)) = Some w \<and> ex_nodes e w = Some t' \<and>
                insts' (tn_i t') = Some i' \<and> i_status i' = EXECUTED))))
    (execute L lookup (e, insts))"
  using execute_result [OF assms]
proof (rule outcome_mono, clarify)
  fix e' :: "'a executor" and insts' k X
  assume X: "X \<subseteq> vertex_set L e" "vertex_set L e' = vertex_set L e - X" "settled L lookup insts e X"
    and k: "mark (ids e X) insts k \<noteq> insts k"
  have good: "\<forall>v \<in> vertex_set L e. vertex_good L lookup insts e v" using assms(2) by (simp add: exec_ok_def)
  from k have "k \<in> ids e X" unfolding mark_def by (rule contrapos_np) simp
  then obtain v t where v: "v \<in> X" "ex_nodes e v = Some t" "tn_i t = k" by (auto simp: ids_def)
  have V: "v \<in> vertex_set L e" using v(1) X(1) by blast
  obtain i where i: "insts k = Some i" using k by (cases "insts k") (auto simp: mark_def split: if_splits)
  have marked: "mark (ids e X) insts k = Some (i\<lparr>i_status := EXECUTED\<rparr>)"
    using i \<open>k \<in> ids e X\<close> by (simp add: mark_def)
  have "\<exists>w t' i'. vx_get L (ex_vertices e) (dh_key (dep_id d)) = Some w \<and> ex_nodes e w = Some t' \<and>
      mark (ids e X) insts (tn_i t') = Some i' \<and> i_status i' = EXECUTED"
    if d: "d \<in> set (i_deps i)" "instance_id (dep_id d) \<noteq> 0" "\<not> dep_executed lookup (mark (ids e X) insts) d" for d
  proof -
    have "satisfied L lookup (mark (ids e X) insts) (ex_vertices e) X d"
      using X(3) v i d(1) unfolding settled_def by blast
    then obtain w where w: "w \<in> X" "vx_get L (ex_vertices e) (dh_key (dep_id d)) = Some w"
      using d(2,3) by (auto simp: satisfied_def)
    then have "vertex_good L lookup insts e w" using X(1) good by blast
    then obtain t' i' where t': "ex_nodes e w = Some t'" "insts (tn_i t') = Some i'" by (auto simp: vertex_good_def)
    moreover from this w have "tn_i t' \<in> ids e X" by (auto simp: ids_def)
    ultimately show ?thesis using w by (simp add: mark_def)
  qed
  then show "\<exists>v t i. v \<in> vertex_set L e - vertex_set L e' \<and> ex_nodes e v = Some t \<and> tn_i t = k \<and>
      insts k = Some i \<and> mark (ids e X) insts k = Some (i\<lparr>i_status := EXECUTED\<rparr>) \<and>
      (\<forall>d \<in> set (i_deps i). instance_id (dep_id d) = 0 \<or> dep_executed lookup (mark (ids e X) insts) d \<or>
         (\<exists>w t' i'. vx_get L (ex_vertices e) (dh_key (dep_id d)) = Some w \<and> ex_nodes e w = Some t' \<and>
            mark (ids e X) insts (tn_i t') = Some i' \<and> i_status i' = EXECUTED))"
    using v V i marked unfolding X(2) by blast
qed

text \<open>
  C7. With at most \<open>MAX_DEPS\<close> instances pending and no dependency missing, a pass ends, executes
  every pending instance and empties the table: cycles of dependencies do not block it.
\<close>

theorem execute_everything:
  assumes "vertex_laws L" and "exec_ok L lookup insts e" and "card (vertex_set L e) \<le> MAX_DEPS"
    and "nothing_missing L lookup insts e"
  shows "\<exists>e' insts'. execute L lookup (e, insts) = Inr (e', insts') \<and> vertex_set L e' = {} \<and>
    (\<forall>v \<in> vertex_set L e. \<forall>t. ex_nodes e v = Some t \<longrightarrow>
       (\<exists>i. insts' (tn_i t) = Some i \<and> i_status i = EXECUTED))"
proof (cases "execute L lookup (e, insts)")
  case (Inl f)
  then show ?thesis using execute_result [OF assms(1,2)] assms(3) by simp
next
  case (Inr st)
  obtain e' insts' where st: "st = (e', insts')" by force
  have ex: "execute L lookup (e, insts) = Inr (e', insts')" "vertex_set L e' = {}"
      "insts' = mark (ids e (vertex_set L e)) insts"
    using execute_result [OF assms(1,2)] assms(4) Inr st by auto
  have "\<exists>i. insts' (tn_i t) = Some i \<and> i_status i = EXECUTED"
    if v: "v \<in> vertex_set L e" "ex_nodes e v = Some t" for v t
  proof -
    have "tn_i t \<in> ids e (vertex_set L e)" using v by (auto simp: ids_def)
    moreover obtain i where "insts (tn_i t) = Some i"
      using assms(2) v by (auto simp: exec_ok_def vertex_good_def)
    ultimately show ?thesis by (simp add: ex(3) mark_def)
  qed
  with ex(1,2) show ?thesis by blast
qed

end
