(* ===== verification/Epx_Executor_Witness.thy ===== *)
theory Epx_Executor_Witness
  imports Epx_Executor_Props Epx_Witness
begin

text \<open>
  The executor's properties at concrete inputs: an association list for the table of vertices,
  two committed instances that depend on each other with a third that depends on the first,
  and nine instances without dependencies.
\<close>

section \<open>A table of vertices\<close>

definition alist_lib :: "(u64 \<times> nat) list vertex_lib" where
  "alist_lib = \<lparr>vx_empty = [], vx_get = map_of, vx_put = (\<lambda>v k n. (k, n) # v),
     vx_del = (\<lambda>v k. filter (\<lambda>p. fst p \<noteq> k) v),
     vx_values = (\<lambda>v. map (\<lambda>k. the (map_of v k)) (remdups (map fst v)))\<rparr>"

lemma map_of_del: "map_of (filter (\<lambda>p. fst p \<noteq> k) v) k' = (if k' = k then None else map_of v k')"
  by (induction v) auto

lemma alist_lib_laws: "vertex_laws alist_lib"
proof -
  have "(\<lambda>k. the (map_of v k)) ` fst ` set v = ran (map_of v)" for v :: "(u64 \<times> nat) list"
  proof (intro equalityI subsetI)
    fix n
    assume "n \<in> (\<lambda>k. the (map_of v k)) ` fst ` set v"
    then obtain k where "k \<in> fst ` set v" "n = the (map_of v k)" by auto
    then show "n \<in> ran (map_of v)" by (metis map_of_eq_None_iff option.collapse ranI)
  next
    fix n
    assume "n \<in> ran (map_of v)"
    then obtain k where "map_of v k = Some n" by (auto simp: ran_def)
    then show "n \<in> (\<lambda>k. the (map_of v k)) ` fst ` set v"
      by (metis imageI map_of_eq_None_iff option.distinct(1) option.sel)
  qed
  then show ?thesis by (simp add: vertex_laws_def alist_lib_def map_of_del)
qed

section \<open>A cycle and a follower\<close>

definition on_one :: "u64 \<Rightarrow> u64 \<Rightarrow> u64 \<Rightarrow> inst" where
  "on_one n d s = new_instance\<lparr>i_key := iid 0 n, i_status := COMMITTED, i_seq := s,
     i_deps := ex_dep 0 d 1 # replicate 7 zero_dep\<rparr>"

definition cycle_insts :: insts where
  "cycle_insts = [iid 0 1 \<mapsto> on_one 1 2 5, iid 0 2 \<mapsto> on_one 2 1 4, iid 0 3 \<mapsto> on_one 3 1 6]"

definition cycle_nodes :: "nat \<Rightarrow> tarjan_node option" where
  "cycle_nodes = [1 \<mapsto> new_tn (iid 0 1), 2 \<mapsto> new_tn (iid 0 2), 3 \<mapsto> new_tn (iid 0 3)]"

definition cycle_exec :: "(u64 \<times> nat) list executor" where
  "cycle_exec = reset_exec \<lparr>ex_vertices = [(dh_key (iid 0 3), 3), (dh_key (iid 0 1), 1), (dh_key (iid 0 2), 2)],
     ex_nodes = cycle_nodes, ex_scc_count = 0, ex_stack = [], ex_sccs = [], ex_executed = [], ex_index = 0\<rparr>"

definition cycle_lookup :: "instance_id \<Rightarrow> instance_id option res" where
  "cycle_lookup k = Inr (if cycle_insts k = None then None else Some k)"

lemma iid_eq [simp]: "iid a b = iid c d \<longleftrightarrow> a = c \<and> b = d"
  by (simp add: iid_def)

lemma dh_key_iid: "dh_key (iid 0 n) = push_bit 16 n"
  by (simp add: dh_key_def iid_def)

lemma cycle_vertices: "vertex_set alist_lib cycle_exec = {1, 2, 3}"
  by (auto simp: alist_lib_def cycle_exec_def reset_exec_def dh_key_iid)

lemma cycle_insts_simps [simp]:
  "cycle_insts (iid 0 1) = Some (on_one 1 2 5)" "cycle_insts (iid 0 2) = Some (on_one 2 1 4)"
  "cycle_insts (iid 0 3) = Some (on_one 3 1 6)"
  by (simp_all add: cycle_insts_def)

lemma on_one_simps [simp]:
  "i_key (on_one n d s) = iid 0 n" "i_seq (on_one n d s) = s"
  "i_deps (on_one n d s) = ex_dep 0 d 1 # replicate 7 zero_dep"
  by (simp_all add: on_one_def)

lemma cycle_answered: "answered cycle_lookup cycle_insts d"
  by (simp add: answered_def cycle_lookup_def)

lemma cycle_exec_ok: "exec_ok alist_lib cycle_lookup cycle_insts cycle_exec"
proof -
  have "vertex_good alist_lib cycle_lookup cycle_insts cycle_exec v" if "v \<in> {1, 2, 3}" for v
    using that
    by (auto simp: vertex_good_def cycle_exec_def reset_exec_def cycle_nodes_def new_tn_def
        alist_lib_def dh_key_iid cycle_answered)
  moreover have "fresh_search cycle_exec" "length (ex_executed cycle_exec) = MAX_DEPS"
    by (simp_all add: cycle_exec_def reset_exec_def fresh_search_def)
  ultimately show ?thesis by (simp only: exec_ok_def cycle_vertices) blast
qed

lemma cycle_nothing_missing: "nothing_missing alist_lib cycle_lookup cycle_insts cycle_exec"
  unfolding nothing_missing_def cycle_vertices
  by (auto simp: cycle_exec_def reset_exec_def cycle_nodes_def new_tn_def
      alist_lib_def dh_key_iid ex_dep_def zero_dep_def zero_id_def cycle_lookup_def)

lemma cycle_vertices_ok: "vertices_ok alist_lib cycle_insts cycle_exec" "fresh_search cycle_exec"
  using cycle_exec_ok by (auto simp: vertices_ok_def exec_ok_def vertex_good_def)

theorem strong_connect_components_witness:
  "\<exists>e'. strong_connect alist_lib cycle_insts cycle_exec = Inr e' \<and>
    emitted e' ` {..<ex_scc_count e'} = dep_components alist_lib cycle_insts cycle_exec"
  using strong_connect_components [OF alist_lib_laws cycle_vertices_ok]
  by (cases "strong_connect alist_lib cycle_insts cycle_exec") (auto simp: cycle_vertices MAX_DEPS_def)

theorem sort_scc_correct_witness:
  "sort_scc cycle_insts cycle_nodes (map Some [1, 2] @ replicate (MAX_DEPS - 2) None) =
     Inr (map Some [2, 1] @ replicate (MAX_DEPS - 2) None)"
proof -
  have "\<forall>y \<in> set [1, 2]. has_inst cycle_insts cycle_nodes y"
    by (simp add: has_inst_def cycle_nodes_def new_tn_def)
  moreover have "sort_key (seq_at cycle_insts cycle_nodes) [1, 2] = [2, 1]"
    by (simp add: seq_at_def cycle_nodes_def new_tn_def)
  ultimately show ?thesis using sort_scc_correct [of "[1, 2]" cycle_insts cycle_nodes] by (simp add: MAX_DEPS_def)
qed


theorem execute_dependencies_first_witness:
  "\<exists>e' insts'. execute alist_lib cycle_lookup (cycle_exec, cycle_insts) = Inr (e', insts') \<and>
    (insts' (iid 0 3) \<noteq> cycle_insts (iid 0 3) \<longrightarrow> insts' (iid 0 3) = Some ((on_one 3 1 6)\<lparr>i_status := EXECUTED\<rparr>))"
proof (cases "execute alist_lib cycle_lookup (cycle_exec, cycle_insts)")
  case (Inl f)
  then show ?thesis using execute_dependencies_first [OF alist_lib_laws cycle_exec_ok]
    by (simp add: cycle_vertices MAX_DEPS_def)
next
  case (Inr st)
  obtain e' insts' where st: "st = (e', insts')" by force
  have "insts' (iid 0 3) \<noteq> cycle_insts (iid 0 3) \<longrightarrow> (\<exists>i. cycle_insts (iid 0 3) = Some i \<and>
      insts' (iid 0 3) = Some (i\<lparr>i_status := EXECUTED\<rparr>))"
    using execute_dependencies_first [OF alist_lib_laws cycle_exec_ok] unfolding Inr st outcome_Inr prod.case by blast
  then show ?thesis using Inr st by auto
qed

theorem execute_everything_witness:
  "\<exists>e' insts'. execute alist_lib cycle_lookup (cycle_exec, cycle_insts) = Inr (e', insts') \<and>
    vertex_set alist_lib e' = {} \<and> (\<exists>i. insts' (iid 0 3) = Some i \<and> i_status i = EXECUTED)"
proof -
  have "card (vertex_set alist_lib cycle_exec) \<le> MAX_DEPS" by (simp add: cycle_vertices MAX_DEPS_def)
  moreover have "ex_nodes cycle_exec 3 = Some (new_tn (iid 0 3))"
    by (simp add: cycle_exec_def reset_exec_def cycle_nodes_def)
  ultimately show ?thesis
    using execute_everything [OF alist_lib_laws cycle_exec_ok _ cycle_nothing_missing]
    by (fastforce simp: cycle_vertices new_tn_def)
qed

section \<open>Nine instances\<close>

definition nine_exec :: "(u64 \<times> nat) list executor" where
  "nine_exec = reset_exec \<lparr>ex_vertices = [(1, 1), (2, 2), (3, 3), (4, 4), (5, 5), (6, 6), (7, 7), (8, 8), (9, 9)],
     ex_nodes = (\<lambda>n. Some (new_tn (iid 0 (of_nat n)))), ex_scc_count = 0, ex_stack = [], ex_sccs = [],
     ex_executed = [], ex_index = 0\<rparr>"

definition nine_insts :: insts where
  "nine_insts = (\<lambda>k. Some (new_instance\<lparr>i_key := k\<rparr>))"

theorem strong_connect_overflow_witness:
  "strong_connect alist_lib nine_insts nine_exec = Inl Out_of_bounds"
proof -
  let ?V = "{1, 2, 3, 4, 5, 6, 7, 8, 9 :: nat}"
  have V: "vertex_set alist_lib nine_exec = ?V"
    by (simp add: alist_lib_def nine_exec_def reset_exec_def)
  have none: "dep_graph alist_lib nine_insts nine_exec = {}"
    by (auto simp: dep_graph_def nine_insts_def new_instance_def zero_deps_def zero_dep_def zero_id_def)
  have "mutual ?V {} = Id_on ?V" by (auto simp: mutual_def)
  then have "dep_components alist_lib nine_insts nine_exec = (\<lambda>n. {n}) ` ?V"
    by (auto simp: dep_components_def V none quotient_def)
  moreover have "card ((\<lambda>n. {n}) ` ?V) = 9" by (subst card_image) (simp_all add: inj_on_def)
  moreover have "vertices_ok alist_lib nine_insts nine_exec" "fresh_search nine_exec"
    by (simp_all add: vertices_ok_def nine_insts_def nine_exec_def reset_exec_def fresh_search_def)
  ultimately show ?thesis
    by (intro strong_connect_overflow [OF alist_lib_laws]) (simp_all add: MAX_DEPS_def)
qed

end
