(* ===== verification/Epx_Channel.thy ===== *)
theory Epx_Channel
  imports Epx_Prelude
begin

text \<open>
  The channels between the threads: \<^verbatim>\<open>src/simple_channel.c\<close>, a bounded ring buffer guarded by
  two semaphores and a lock, with the interleaving of its senders and receivers as a step
  relation in which every call on the semaphores and on the lock may fail. The wrappers of
  \<^verbatim>\<open>src/channel.c\<close> are in \<open>Epx_Chan\<close>.
\<close>

section \<open>The contract of a bounded queue\<close>

text \<open>
  What the threads rely on: an item put into a queue with room is the last of its contents, and
  taking from a queue that is not empty yields the first.
\<close>

locale bounded_queue =
  fixes put :: "'a \<Rightarrow> 'q \<Rightarrow> 'q" and take_item :: "'q \<Rightarrow> 'a \<times> 'q"
    and content :: "'q \<Rightarrow> 'a list" and ok :: "'q \<Rightarrow> bool" and room :: nat
  assumes put_ok: "ok q \<Longrightarrow> length (content q) < room \<Longrightarrow> ok (put x q) \<and> content (put x q) = content q @ [x]"
    and take_ok: "ok q \<Longrightarrow> content q = x # xs \<Longrightarrow> fst (take_item q) = x \<and> ok (snd (take_item q)) \<and> content (snd (take_item q)) = xs"
begin

text \<open>Filling and draining: what goes in comes out in order.\<close>

fun drain :: "nat \<Rightarrow> 'q \<Rightarrow> 'a list \<times> 'q" where
  "drain 0 q = ([], q)"
| "drain (Suc n) q = (case take_item q of (x, q1) \<Rightarrow> case drain n q1 of (xs, q2) \<Rightarrow> (x # xs, q2))"

lemma put_all:
  "ok q \<Longrightarrow> length (content q) + length xs \<le> room \<Longrightarrow>
   ok (fold put xs q) \<and> content (fold put xs q) = content q @ xs"
proof (induction xs arbitrary: q)
  case Nil
  then show ?case by simp
next
  case (Cons x xs)
  then have "ok (put x q) \<and> content (put x q) = content q @ [x]" by (intro put_ok) simp_all
  with Cons show ?case by simp
qed

lemma drain_all: "ok q \<Longrightarrow> content q = xs @ ys \<Longrightarrow> \<exists>q'. drain (length xs) q = (xs, q') \<and> ok q' \<and> content q' = ys"
proof (induction xs arbitrary: q)
  case Nil
  then show ?case by simp
next
  case (Cons x xs)
  obtain y q1 where t: "take_item q = (y, q1)" by force
  then have "y = x \<and> ok q1 \<and> content q1 = xs @ ys" using take_ok [of q x "xs @ ys"] Cons.prems by simp
  with Cons.IH [of q1] t show ?case by auto
qed

lemma fifo:
  assumes "ok q" and "content q = []" and "length xs \<le> room"
  shows "fst (drain (length xs) (fold put xs q)) = xs"
proof -
  have "ok (fold put xs q) \<and> content (fold put xs q) = xs" using put_all [of q xs] assms by simp
  then show ?thesis using drain_all [of "fold put xs q" xs "[]"] by auto
qed

end

section \<open>The ring buffer\<close>

definition CAPACITY :: nat where [const_defs]: "CAPACITY = 2048"

text \<open>
  \<^verbatim>\<open>simple_chan\<close>: the counters are never reset and wrap at 32 bits. The values of the two
  semaphores are part of the state; the lock is held for one access only, so a locked section
  is one step.
\<close>

record 'a simple_chan =
  ch_read :: u32
  ch_write :: u32
  ch_buffer :: "'a list"
  ch_c_sem :: nat
  ch_s_sem :: nat

text \<open>\<^verbatim>\<open>&(b->capacity -1)\<close>, on \<^verbatim>\<open>uint32_t\<close> operands.\<close>

definition slot :: "u32 \<Rightarrow> nat" where
  "slot n = unat (n AND (of_nat CAPACITY - 1))"

text \<open>The initialisers of the semaphores and of the lock report success or not.\<close>

definition simple_chan_init :: "bool \<Rightarrow> bool \<Rightarrow> bool \<Rightarrow> 'a simple_chan \<Rightarrow> 'a simple_chan \<times> int" where
  "simple_chan_init c_ok s_ok lock_ok b =
     (let b1 = b\<lparr>ch_read := 0, ch_write := 0\<rparr> in
      if \<not> c_ok then (b1, -1)
      else let b2 = b1\<lparr>ch_c_sem := 0\<rparr> in
      if \<not> s_ok then (b2, -1)
      else let b3 = b2\<lparr>ch_s_sem := CAPACITY\<rparr> in
      if \<not> lock_ok then (b3, -1) else (b3, 0))"

definition chan_put :: "'a \<Rightarrow> 'a simple_chan \<Rightarrow> 'a simple_chan" where
  "chan_put d b = b\<lparr>ch_buffer := (ch_buffer b)[slot (ch_write b) := d], ch_write := ch_write b + 1\<rparr>"

definition chan_take :: "'a simple_chan \<Rightarrow> 'a \<times> 'a simple_chan" where
  "chan_take b = (ch_buffer b ! slot (ch_read b), b\<lparr>ch_read := ch_read b + 1\<rparr>)"

text \<open>\<^verbatim>\<open>int\<close> of an unsigned difference.\<close>

definition simple_chan_size :: "'a simple_chan \<Rightarrow> int" where
  "simple_chan_size b = sint (ch_write b - ch_read b)"

text \<open>
  Waiting on a semaphore: interrupted waits are repeated, another error gives up, and a wait on
  a semaphore at zero blocks (\<open>None\<close>). The list is what the successive calls do.
\<close>

datatype wait = Interrupted | Failed | Acquired

fun sem_wait_loop :: "wait list \<Rightarrow> nat \<Rightarrow> (nat \<times> bool) option" where
  "sem_wait_loop [] s = None"
| "sem_wait_loop (Interrupted # ws) s = sem_wait_loop ws s"
| "sem_wait_loop (Failed # ws) s = Some (s, False)"
| "sem_wait_loop (Acquired # ws) s = (if 0 < s then Some (s - 1, True) else None)"

text \<open>
  A whole call that nothing interleaves with; \<open>lock\<close>, \<open>unlock\<close> and \<open>post\<close> say whether those
  calls succeed. An error after the wait leaves the semaphore decremented.
\<close>

definition simple_chan_send :: "wait list \<Rightarrow> bool \<Rightarrow> bool \<Rightarrow> bool \<Rightarrow> 'a \<Rightarrow> 'a simple_chan \<Rightarrow> 'a simple_chan option" where
  "simple_chan_send ws lock unlock post d b =
     (case sem_wait_loop ws (ch_s_sem b) of
        None \<Rightarrow> None
      | Some (s, got) \<Rightarrow>
          let b1 = b\<lparr>ch_s_sem := s\<rparr> in
          if \<not> got \<or> \<not> lock then Some b1
          else let b2 = chan_put d b1 in
          if \<not> unlock \<or> \<not> post then Some b2
          else Some (b2\<lparr>ch_c_sem := ch_c_sem b2 + 1\<rparr>))"

definition simple_chan_recv :: "wait list \<Rightarrow> bool \<Rightarrow> bool \<Rightarrow> bool \<Rightarrow> 'a simple_chan \<Rightarrow> ('a option \<times> 'a simple_chan) option" where
  "simple_chan_recv ws lock unlock post b =
     (case sem_wait_loop ws (ch_c_sem b) of
        None \<Rightarrow> None
      | Some (s, got) \<Rightarrow>
          let b1 = b\<lparr>ch_c_sem := s\<rparr> in
          if \<not> got \<or> \<not> lock then Some (None, b1)
          else case chan_take b1 of (d, b2) \<Rightarrow>
          if \<not> unlock \<or> \<not> post then Some (None, b2)
          else Some (Some d, b2\<lparr>ch_s_sem := ch_s_sem b2 + 1\<rparr>))"

section \<open>The ring is a bounded queue\<close>

definition used :: "'a simple_chan \<Rightarrow> nat" where
  "used b = unat (ch_write b - ch_read b)"

definition content :: "'a simple_chan \<Rightarrow> 'a list" where
  "content b = map (\<lambda>i. ch_buffer b ! slot (ch_read b + of_nat i)) [0..<used b]"

definition chan_ok :: "'a simple_chan \<Rightarrow> bool" where
  "chan_ok b \<longleftrightarrow> length (ch_buffer b) = CAPACITY \<and> used b \<le> CAPACITY"

lemma length_content [simp]: "length (content b) = used b"
  by (simp add: content_def)

lemma slot_mod: "slot n = unat n mod CAPACITY"
proof -
  have "(of_nat CAPACITY - 1 :: u32) = mask 11" by (simp add: CAPACITY_def mask_eq_exp_minus_1)
  then have "slot n = unat (take_bit 11 n)" by (simp add: slot_def take_bit_eq_mask)
  also have "\<dots> = take_bit 11 (unat n)" by (rule unsigned_take_bit_eq)
  also have "\<dots> = unat n mod 2 ^ 11" by (rule take_bit_eq_mod)
  finally show ?thesis by (simp add: CAPACITY_def)
qed

lemma slot_less: "slot n < CAPACITY"
  by (simp add: slot_mod CAPACITY_def)

text \<open>The capacity divides the range of the counters, so the wrap of a counter does not show.\<close>

lemma slot_add: "slot (n + of_nat i) = (slot n + i) mod CAPACITY"
proof -
  have dvd: "CAPACITY dvd 4294967296" by (simp add: CAPACITY_def)
  have "unat (n + of_nat i) = (unat n + i) mod 4294967296"
    by (simp add: unat_word_ariths unsigned_of_nat take_bit_eq_mod mod_simps)
  then show ?thesis by (simp only: slot_mod mod_mod_cancel [OF dvd] mod_add_left_eq)
qed

lemma used_put:
  assumes "used b < CAPACITY"
  shows "used (chan_put d b) = Suc (used b)"
proof -
  have "unat (ch_write b - ch_read b + 1) = unat (ch_write b - ch_read b) + unat (1 :: u32)"
    using assms by (intro unat_add_lem [THEN iffD1]) (simp add: used_def CAPACITY_def)
  moreover have "ch_write b - ch_read b + 1 = ch_write b + 1 - ch_read b" by simp
  ultimately show ?thesis by (simp add: used_def chan_put_def)
qed

lemma used_take:
  assumes "0 < used b"
  shows "Suc (used (snd (chan_take b))) = used b"
proof -
  let ?n = "ch_write b - ch_read b - 1"
  have "1 + ?n \<noteq> 0" using assms by (auto simp: used_def)
  then have "unat (1 + ?n) = Suc (unat ?n)" by (rule unatSuc)
  moreover have "1 + ?n = ch_write b - ch_read b" by simp
  ultimately have "used b = Suc (unat ?n)" by (simp only: used_def)
  moreover have "used (snd (chan_take b)) = unat ?n" by (simp add: used_def chan_take_def diff_diff_eq)
  ultimately show ?thesis by simp
qed

lemma content_put:
  assumes ok: "chan_ok b" and room: "used b < CAPACITY"
  shows "content (chan_put d b) = content b @ [d]"
proof -
  let ?r = "ch_read b"
  have w: "ch_write b = ?r + of_nat (used b)" by (simp add: used_def)
  have old: "(ch_buffer b)[slot (ch_write b) := d] ! slot (?r + of_nat i) = ch_buffer b ! slot (?r + of_nat i)"
    if i: "i < used b" for i
  proof -
    have "slot (?r + of_nat i) \<noteq> slot (?r + of_nat (used b))"
    proof
      assume "slot (?r + of_nat i) = slot (?r + of_nat (used b))"
      then have "(slot ?r + used b) mod CAPACITY = (slot ?r + i) mod CAPACITY" by (simp only: slot_add)
      then have "CAPACITY dvd (slot ?r + used b) - (slot ?r + i)"
        by (rule mod_eq_dvd_iff_nat [THEN iffD1, rotated]) (use i in simp)
      then have "CAPACITY dvd used b - i" by simp
      then show False using i room by (auto dest: dvd_imp_le)
    qed
    then show ?thesis using w by simp
  qed
  have new: "(ch_buffer b)[slot (ch_write b) := d] ! slot (?r + of_nat (used b)) = d"
    using ok slot_less unfolding w [symmetric] by (simp add: chan_ok_def)
  have "content (chan_put d b) = map (\<lambda>i. (ch_buffer b)[slot (ch_write b) := d] ! slot (?r + of_nat i)) [0..<Suc (used b)]"
    by (simp add: content_def used_put [OF room]) (simp add: chan_put_def)
  also have "\<dots> = content b @ [d]" using old new by (simp add: content_def)
  finally show ?thesis .
qed

lemma content_take:
  assumes "content b = x # xs"
  shows "fst (chan_take b) = x" and "content (snd (chan_take b)) = xs"
proof -
  let ?b = "snd (chan_take b)"
  have pos: "0 < used b" using arg_cong [OF assms, of length] by simp
  have upt: "[0..<used b] = 0 # map Suc [0..<used ?b]"
    using used_take [OF pos] by (metis map_Suc_upt upt_conv_Cons zero_less_Suc)
  have "content b = ch_buffer b ! slot (ch_read b) #
      map (\<lambda>i. ch_buffer b ! slot (ch_read b + of_nat (Suc i))) [0..<used ?b]"
    unfolding content_def upt by simp
  moreover have "content ?b = map (\<lambda>i. ch_buffer b ! slot (ch_read b + of_nat (Suc i))) [0..<used ?b]"
    unfolding content_def by (simp add: chan_take_def add.commute add.left_commute)
  ultimately show "fst (chan_take b) = x" "content ?b = xs" using assms by (simp_all add: chan_take_def)
qed

interpretation ring: bounded_queue chan_put chan_take content chan_ok CAPACITY
proof
  fix b :: "'a simple_chan" and x
  assume "chan_ok b" "length (content b) < CAPACITY"
  then show "chan_ok (chan_put x b) \<and> content (chan_put x b) = content b @ [x]"
    using content_put [of b x] used_put [of b x] by (simp add: chan_ok_def) (simp add: chan_put_def)
next
  fix b :: "'a simple_chan" and x xs
  assume b: "chan_ok b" "content b = x # xs"
  from b(2) have "length (content b) = length (x # xs)" by (rule arg_cong)
  then have "0 < used b" unfolding length_content by simp
  with b show "fst (chan_take b) = x \<and> chan_ok (snd (chan_take b)) \<and> content (snd (chan_take b)) = xs"
    using content_take [OF b(2)] used_take [of b] by (auto simp: chan_ok_def chan_take_def)
qed

section \<open>Threads\<close>

text \<open>
  Where a thread stands inside \<open>simple_chan_send\<close> or \<open>simple_chan_recv\<close>: before the wait, after
  it with a slot or an item reserved, and after the locked access, before the post. An
  interrupted wait stays where it is. Every call may also fail, and the function then returns at once: a
  wait that fails changes nothing; when the lock fails after the wait, the reserved slot or item is
  never given back; when the unlock or the post fails after the access, the item or the slot is
  never announced. \<open>Sent\<close> and \<open>Received\<close> are the accesses to the buffer; a receiver that fails after its
  access returns null. (After a failed unlock the lock may stay taken; the steps here let the other
  threads go on, which allows more runs.)
\<close>

datatype 'a pc = Idle | Send_wait 'a | Send_slot 'a | Send_post | Recv_wait | Recv_item | Recv_post 'a

datatype 'a event = Silent | Sent 'a | Received 'a | Lost_slot | Lost_item

type_synonym 'a system = "'a simple_chan \<times> 'a pc list"

inductive chan_step :: "'a system \<Rightarrow> 'a event \<Rightarrow> 'a system \<Rightarrow> bool" where
  call_send: "t < length ps \<Longrightarrow> ps ! t = Idle \<Longrightarrow> chan_step (b, ps) Silent (b, ps[t := Send_wait d])"
| get_slot: "t < length ps \<Longrightarrow> ps ! t = Send_wait d \<Longrightarrow> sem_wait_loop [Acquired] (ch_s_sem b) = Some (s, True) \<Longrightarrow>
    chan_step (b, ps) Silent (b\<lparr>ch_s_sem := s\<rparr>, ps[t := Send_slot d])"
| store: "t < length ps \<Longrightarrow> ps ! t = Send_slot d \<Longrightarrow> chan_step (b, ps) (Sent d) (chan_put d b, ps[t := Send_post])"
| post_item: "t < length ps \<Longrightarrow> ps ! t = Send_post \<Longrightarrow>
    chan_step (b, ps) Silent (b\<lparr>ch_c_sem := ch_c_sem b + 1\<rparr>, ps[t := Idle])"
| call_recv: "t < length ps \<Longrightarrow> ps ! t = Idle \<Longrightarrow> chan_step (b, ps) Silent (b, ps[t := Recv_wait])"
| get_item: "t < length ps \<Longrightarrow> ps ! t = Recv_wait \<Longrightarrow> sem_wait_loop [Acquired] (ch_c_sem b) = Some (s, True) \<Longrightarrow>
    chan_step (b, ps) Silent (b\<lparr>ch_c_sem := s\<rparr>, ps[t := Recv_item])"
| take_item: "t < length ps \<Longrightarrow> ps ! t = Recv_item \<Longrightarrow> chan_take b = (d, b') \<Longrightarrow>
    chan_step (b, ps) (Received d) (b', ps[t := Recv_post d])"
| post_slot: "t < length ps \<Longrightarrow> ps ! t = Recv_post d \<Longrightarrow>
    chan_step (b, ps) Silent (b\<lparr>ch_s_sem := ch_s_sem b + 1\<rparr>, ps[t := Idle])"
| send_wait_fails: "t < length ps \<Longrightarrow> ps ! t = Send_wait d \<Longrightarrow>
    sem_wait_loop [Failed] (ch_s_sem b) = Some (s, False) \<Longrightarrow>
    chan_step (b, ps) Silent (b\<lparr>ch_s_sem := s\<rparr>, ps[t := Idle])"
| send_lock_fails: "t < length ps \<Longrightarrow> ps ! t = Send_slot d \<Longrightarrow> chan_step (b, ps) Lost_slot (b, ps[t := Idle])"
| send_post_fails: "t < length ps \<Longrightarrow> ps ! t = Send_post \<Longrightarrow> chan_step (b, ps) Lost_item (b, ps[t := Idle])"
| recv_wait_fails: "t < length ps \<Longrightarrow> ps ! t = Recv_wait \<Longrightarrow>
    sem_wait_loop [Failed] (ch_c_sem b) = Some (s, False) \<Longrightarrow>
    chan_step (b, ps) Silent (b\<lparr>ch_c_sem := s\<rparr>, ps[t := Idle])"
| recv_lock_fails: "t < length ps \<Longrightarrow> ps ! t = Recv_item \<Longrightarrow> chan_step (b, ps) Lost_item (b, ps[t := Idle])"
| recv_post_fails: "t < length ps \<Longrightarrow> ps ! t = Recv_post d \<Longrightarrow> chan_step (b, ps) Lost_slot (b, ps[t := Idle])"

text \<open>The runs of any number of threads on a fresh channel, with their events.\<close>

inductive chan_run :: "nat \<Rightarrow> 'a event list \<Rightarrow> 'a system \<Rightarrow> bool" where
  fresh: "length (ch_buffer b) = CAPACITY \<Longrightarrow> chan_run n [] (fst (simple_chan_init True True True b), replicate n Idle)"
| more: "chan_run n es s \<Longrightarrow> chan_step s e s' \<Longrightarrow> chan_run n (es @ [e]) s'"

fun sent :: "'a event list \<Rightarrow> 'a list" where
  "sent [] = []"
| "sent (Sent d # es) = d # sent es"
| "sent (e # es) = sent es"

fun received :: "'a event list \<Rightarrow> 'a list" where
  "received [] = []"
| "received (Received d # es) = d # received es"
| "received (e # es) = received es"

lemma sent_append [simp]: "sent (xs @ ys) = sent xs @ sent ys"
  by (induction xs rule: sent.induct) simp_all

lemma received_append [simp]: "received (xs @ ys) = received xs @ received ys"
  by (induction xs rule: received.induct) simp_all

definition holds_slot :: "'a pc \<Rightarrow> bool" where
  "holds_slot p = (case p of Send_slot d \<Rightarrow> True | Recv_post d \<Rightarrow> True | _ \<Rightarrow> False)"

definition holds_item :: "'a pc \<Rightarrow> bool" where
  "holds_item p = (case p of Send_post \<Rightarrow> True | Recv_item \<Rightarrow> True | _ \<Rightarrow> False)"

definition count_pc :: "('a pc \<Rightarrow> bool) \<Rightarrow> 'a pc list \<Rightarrow> nat" where
  "count_pc P ps = length (filter P ps)"

lemma count_update:
  "t < length ps \<Longrightarrow> count_pc P (ps[t := p]) + (if P (ps ! t) then 1 else 0) = count_pc P ps + (if P p then 1 else 0)"
proof (induction ps arbitrary: t)
  case Nil
  then show ?case by simp
next
  case (Cons q ps)
  then show ?case by (cases t) (auto simp: count_pc_def split: if_splits)
qed

lemma count_pos: "t < length ps \<Longrightarrow> P (ps ! t) \<Longrightarrow> 0 < count_pc P ps"
  unfolding count_pc_def length_greater_0_conv filter_empty_conv by (auto intro: nth_mem)

text \<open>Every slot and every item is in exactly one place; those that an error lost are counted.\<close>

definition lost_slots :: "'a event list \<Rightarrow> nat" where
  "lost_slots es = count_list es Lost_slot"

definition lost_items :: "'a event list \<Rightarrow> nat" where
  "lost_items es = count_list es Lost_item"

lemma lost_append [simp]:
  "lost_slots (es @ [e]) = lost_slots es + (if e = Lost_slot then 1 else 0)"
  "lost_items (es @ [e]) = lost_items es + (if e = Lost_item then 1 else 0)"
  "lost_slots [] = 0" "lost_items [] = 0"
  by (simp_all add: lost_slots_def lost_items_def)

definition chan_inv :: "'a event list \<Rightarrow> 'a system \<Rightarrow> bool" where
  "chan_inv es s = (case s of (b, ps) \<Rightarrow> chan_ok b \<and> sent es = received es @ content b \<and>
     ch_s_sem b + count_pc holds_slot ps + used b + lost_slots es = CAPACITY \<and>
     ch_c_sem b + count_pc holds_item ps + lost_items es = used b)"

lemma content_sems [simp]:
  "content (b\<lparr>ch_s_sem := s\<rparr>) = content b" "content (b\<lparr>ch_c_sem := s\<rparr>) = content b"
  "used (b\<lparr>ch_s_sem := s\<rparr>) = used b" "used (b\<lparr>ch_c_sem := s\<rparr>) = used b"
  "chan_ok (b\<lparr>ch_s_sem := s\<rparr>) = chan_ok b" "chan_ok (b\<lparr>ch_c_sem := s\<rparr>) = chan_ok b"
  by (simp_all add: content_def used_def chan_ok_def)

lemma chan_put_sems [simp]:
  "ch_s_sem (chan_put d b) = ch_s_sem b" "ch_c_sem (chan_put d b) = ch_c_sem b"
  "ch_s_sem (snd (chan_take b)) = ch_s_sem b" "ch_c_sem (snd (chan_take b)) = ch_c_sem b"
  by (simp_all add: chan_put_def chan_take_def)

lemma acquired: "sem_wait_loop [Acquired] s = Some (s', True) \<longleftrightarrow> s = Suc s'"
  by auto

lemma content_Cons:
  assumes "0 < used b"
  obtains x xs where "content b = x # xs"
  using assms that by (simp add: content_def upt_conv_Cons)

lemma chan_inv_step:
  assumes "chan_step s e s'" and "chan_inv es s"
  shows "chan_inv (es @ [e]) s'"
  using assms
proof cases
  case (store t ps d b)
  have "0 < count_pc holds_slot ps" using count_pos [of t ps holds_slot] store by (simp add: holds_slot_def)
  then have "used b < CAPACITY" using assms(2) store by (simp add: chan_inv_def)
  moreover from this have "chan_ok (chan_put d b) \<and> content (chan_put d b) = content b @ [d]"
    using ring.put_ok [of b d] assms(2) store by (simp add: chan_inv_def)
  ultimately show ?thesis
    using assms(2) store count_update [of t ps holds_slot Send_post] count_update [of t ps holds_item Send_post]
    by (simp add: chan_inv_def used_put holds_slot_def holds_item_def)
next
  case (take_item t ps b d b')
  have "0 < count_pc holds_item ps" using count_pos [of t ps holds_item] take_item by (simp add: holds_item_def)
  then have pos: "0 < used b" using assms(2) take_item by (simp add: chan_inv_def)
  then obtain x xs where "content b = x # xs" by (rule content_Cons)
  moreover from this have "d = x \<and> chan_ok b' \<and> content b' = xs"
    using ring.take_ok [of b x xs] assms(2) take_item by (simp add: chan_inv_def)
  moreover have b': "b' = snd (chan_take b)" using take_item(6) by simp
  moreover have "Suc (used b') = used b" using used_take [OF pos] b' by simp
  moreover have "ch_s_sem b' = ch_s_sem b" "ch_c_sem b' = ch_c_sem b" unfolding b' by simp_all
  moreover have "count_pc holds_slot (ps[t := Recv_post d]) = Suc (count_pc holds_slot ps)"
      "Suc (count_pc holds_item (ps[t := Recv_post d])) = count_pc holds_item ps"
    using take_item(5) count_update [OF take_item(4), of holds_slot "Recv_post d"]
      count_update [OF take_item(4), of holds_item "Recv_post d"]
    by (simp_all add: holds_slot_def holds_item_def)
  ultimately show ?thesis
    using assms(2) unfolding take_item(1-3) chan_inv_def prod.case by simp
next
  case (call_send t ps b d)
  then show ?thesis
    using assms(2) count_update [of t ps holds_slot "Send_wait d"] count_update [of t ps holds_item "Send_wait d"]
    by (simp add: chan_inv_def holds_slot_def holds_item_def)
next
  case (get_slot t ps d b s)
  then show ?thesis
    using assms(2) count_update [of t ps holds_slot "Send_slot d"] count_update [of t ps holds_item "Send_slot d"]
    by (simp add: chan_inv_def holds_slot_def holds_item_def split: if_splits)
next
  case (post_item t ps b)
  then show ?thesis
    using assms(2) count_update [of t ps holds_slot Idle] count_update [of t ps holds_item Idle]
    by (simp add: chan_inv_def holds_slot_def holds_item_def)
next
  case (call_recv t ps b)
  then show ?thesis
    using assms(2) count_update [of t ps holds_slot Recv_wait] count_update [of t ps holds_item Recv_wait]
    by (simp add: chan_inv_def holds_slot_def holds_item_def)
next
  case (get_item t ps b s)
  then show ?thesis
    using assms(2) count_update [of t ps holds_slot Recv_item] count_update [of t ps holds_item Recv_item]
    by (simp add: chan_inv_def holds_slot_def holds_item_def split: if_splits)
next
  case (post_slot t ps d b)
  then show ?thesis
    using assms(2) count_update [of t ps holds_slot Idle] count_update [of t ps holds_item Idle]
    by (simp add: chan_inv_def holds_slot_def holds_item_def)
next
  case (send_wait_fails t ps d b s)
  then show ?thesis
    using assms(2) count_update [of t ps holds_slot Idle] count_update [of t ps holds_item Idle]
    by (simp add: chan_inv_def holds_slot_def holds_item_def)
next
  case (send_lock_fails t ps d b)
  then show ?thesis
    using assms(2) count_update [of t ps holds_slot Idle] count_update [of t ps holds_item Idle]
    by (simp add: chan_inv_def holds_slot_def holds_item_def)
next
  case (send_post_fails t ps b)
  then show ?thesis
    using assms(2) count_update [of t ps holds_slot Idle] count_update [of t ps holds_item Idle]
    by (simp add: chan_inv_def holds_slot_def holds_item_def)
next
  case (recv_wait_fails t ps b s)
  then show ?thesis
    using assms(2) count_update [of t ps holds_slot Idle] count_update [of t ps holds_item Idle]
    by (simp add: chan_inv_def holds_slot_def holds_item_def)
next
  case (recv_lock_fails t ps b)
  then show ?thesis
    using assms(2) count_update [of t ps holds_slot Idle] count_update [of t ps holds_item Idle]
    by (simp add: chan_inv_def holds_slot_def holds_item_def)
next
  case (recv_post_fails t ps d b)
  then show ?thesis
    using assms(2) count_update [of t ps holds_slot Idle] count_update [of t ps holds_item Idle]
    by (simp add: chan_inv_def holds_slot_def holds_item_def)
qed

end
