(* ===== verification/Epx_Chan.thy ===== *)
theory Epx_Chan
  imports Epx_Channel
begin

text \<open>
  \<^verbatim>\<open>src/channel.c\<close> over the rings of Concurrency Kit, the properties of both kinds of channel,
  and the concrete channels they are applied to.
\<close>

section \<open>Rings of Concurrency Kit\<close>

text \<open>
  The library's operations for each number of producers and consumers. An enqueue reports
  whether there was room, a dequeue the entry if there was one.
\<close>

datatype ring_mode = SPMC | MPSC | SPSC | MPMC

record ('a, 'r) ring_lib =
  rg_init :: "nat \<Rightarrow> 'r"
  rg_enqueue :: "ring_mode \<Rightarrow> 'r \<Rightarrow> 'a \<Rightarrow> bool \<times> 'r"
  rg_dequeue :: "ring_mode \<Rightarrow> 'r \<Rightarrow> 'a option \<times> 'r"

record 'r chan =
  cn_ring :: 'r
  cn_c_sem :: nat
  cn_s_sem :: nat

definition chan_init :: "('a, 'r) ring_lib \<Rightarrow> 'r chan \<Rightarrow> 'r chan \<times> int" where
  "chan_init R c = (c\<lparr>cn_ring := rg_init R CAPACITY\<rparr>, 0)"

definition chan_init_sem :: "('a, 'r) ring_lib \<Rightarrow> bool \<Rightarrow> bool \<Rightarrow> 'r chan \<Rightarrow> 'r chan \<times> int" where
  "chan_init_sem R c_ok s_ok c =
     (let c1 = c\<lparr>cn_ring := rg_init R CAPACITY\<rparr> in
      if \<not> c_ok then (c1, -1)
      else let c2 = c1\<lparr>cn_c_sem := 0\<rparr> in
      if \<not> s_ok then (c2, -1) else (c2\<lparr>cn_s_sem := CAPACITY\<rparr>, 0))"

text \<open>The common shape of the wrappers; \<open>data\<close> is where a receiver's pointer is written.\<close>

definition ring_send :: "('a, 'r) ring_lib \<Rightarrow> ring_mode \<Rightarrow> 'r chan \<Rightarrow> 'a \<Rightarrow> bool \<times> 'r chan" where
  "ring_send R m c d = (case rg_enqueue R m (cn_ring c) d of (ok, r) \<Rightarrow> (ok, c\<lparr>cn_ring := r\<rparr>))"

definition ring_recv :: "('a, 'r) ring_lib \<Rightarrow> ring_mode \<Rightarrow> 'r chan \<Rightarrow> 'a option \<Rightarrow> bool \<times> 'a option \<times> 'r chan" where
  "ring_recv R m c data =
     (case rg_dequeue R m (cn_ring c) of
        (None, r) \<Rightarrow> (False, data, c\<lparr>cn_ring := r\<rparr>)
      | (Some d, r) \<Rightarrow> (True, Some d, c\<lparr>cn_ring := r\<rparr>))"

definition chan_send_spmc :: "('a, 'r) ring_lib \<Rightarrow> 'r chan \<Rightarrow> 'a \<Rightarrow> bool \<times> 'r chan" where
  "chan_send_spmc R = ring_send R SPMC"

definition chan_recv_spmc :: "('a, 'r) ring_lib \<Rightarrow> 'r chan \<Rightarrow> 'a option \<Rightarrow> bool \<times> 'a option \<times> 'r chan" where
  "chan_recv_spmc R = ring_recv R SPMC"

definition chan_send_mpsc :: "('a, 'r) ring_lib \<Rightarrow> 'r chan \<Rightarrow> 'a \<Rightarrow> bool \<times> 'r chan" where
  "chan_send_mpsc R = ring_send R MPSC"

definition chan_recv_mpsc :: "('a, 'r) ring_lib \<Rightarrow> 'r chan \<Rightarrow> 'a option \<Rightarrow> bool \<times> 'a option \<times> 'r chan" where
  "chan_recv_mpsc R = ring_recv R MPSC"

definition chan_send_spsc :: "('a, 'r) ring_lib \<Rightarrow> 'r chan \<Rightarrow> 'a \<Rightarrow> bool \<times> 'r chan" where
  "chan_send_spsc R = ring_send R SPSC"

definition chan_recv_spsc :: "('a, 'r) ring_lib \<Rightarrow> 'r chan \<Rightarrow> 'a option \<Rightarrow> bool \<times> 'a option \<times> 'r chan" where
  "chan_recv_spsc R = ring_recv R SPSC"

definition chan_send_mpmc :: "('a, 'r) ring_lib \<Rightarrow> 'r chan \<Rightarrow> 'a \<Rightarrow> bool \<times> 'r chan" where
  "chan_send_mpmc R = ring_send R MPMC"

definition chan_recv_mpmc :: "('a, 'r) ring_lib \<Rightarrow> 'r chan \<Rightarrow> 'a option \<Rightarrow> bool \<times> 'a option \<times> 'r chan" where
  "chan_recv_mpmc R = ring_recv R MPMC"


text \<open>With semaphores; \<open>None\<close>: the call blocks.\<close>

definition sem_chan_send_mpsc :: "('a, 'r) ring_lib \<Rightarrow> wait list \<Rightarrow> bool \<Rightarrow> 'r chan \<Rightarrow> 'a \<Rightarrow> (int \<times> 'r chan) option" where
  "sem_chan_send_mpsc R ws post c d =
     (case sem_wait_loop ws (cn_s_sem c) of
        None \<Rightarrow> None
      | Some (s, got) \<Rightarrow>
          let c1 = c\<lparr>cn_s_sem := s\<rparr> in
          if \<not> got then Some (-1, c1)
          else case chan_send_mpsc R c1 d of (ok, c2) \<Rightarrow>
            if \<not> post then Some (-1, c2)
            else Some (of_bool ok, c2\<lparr>cn_c_sem := cn_c_sem c2 + 1\<rparr>))"

definition sem_chan_recv_mpsc :: "('a, 'r) ring_lib \<Rightarrow> wait list \<Rightarrow> bool \<Rightarrow> 'r chan \<Rightarrow> 'a option \<Rightarrow>
    (int \<times> 'a option \<times> 'r chan) option" where
  "sem_chan_recv_mpsc R ws post c data =
     (case sem_wait_loop ws (cn_c_sem c) of
        None \<Rightarrow> None
      | Some (s, got) \<Rightarrow>
          let c1 = c\<lparr>cn_c_sem := s\<rparr> in
          if \<not> got then Some (-1, data, c1)
          else case chan_recv_mpsc R c1 data of (ok, data', c2) \<Rightarrow>
            if \<not> post then Some (-1, data', c2)
            else Some (of_bool ok, data', c2\<lparr>cn_s_sem := cn_s_sem c2 + 1\<rparr>))"

text \<open>
  The documented behaviour of a ring of a given size: it holds one entry less than its size, in
  the order of their arrival.
\<close>

definition ring_laws :: "('a, 'r) ring_lib \<Rightarrow> ('r \<Rightarrow> 'a list) \<Rightarrow> bool" where
  "ring_laws R items \<longleftrightarrow> items (rg_init R CAPACITY) = [] \<and>
     (\<forall>m r x. rg_enqueue R m r x = (if Suc (length (items r)) < CAPACITY then (True, snd (rg_enqueue R m r x)) else (False, r)) \<and>
        (Suc (length (items r)) < CAPACITY \<longrightarrow> items (snd (rg_enqueue R m r x)) = items r @ [x])) \<and>
     (\<forall>m r. (items r = [] \<longrightarrow> rg_dequeue R m r = (None, r)) \<and>
        (\<forall>x xs. items r = x # xs \<longrightarrow> fst (rg_dequeue R m r) = Some x \<and> items (snd (rg_dequeue R m r)) = xs))"

section \<open>Properties\<close>

lemma chan_run_inv: "chan_run n es s \<Longrightarrow> chan_inv es s"
proof (induction rule: chan_run.induct)
  case (fresh b n)
  then show ?case
    by (simp add: simple_chan_init_def chan_inv_def chan_ok_def content_def used_def count_pc_def
        holds_slot_def holds_item_def CAPACITY_def)
next
  case (more n es s e s')
  then show ?case by (blast intro: chan_inv_step)
qed

text \<open>
  C8. Whatever the interleaving of the threads on a \<open>simple_chan\<close>, however often its counters
  wrapped, and whichever calls on its semaphores and its lock fail, the items taken out of the buffer so far followed by
  the contents of the buffer are exactly the items put into it, in order: the buffer loses, duplicates
  and overwrites nothing, and never holds more than its capacity.
\<close>

theorem simple_channel_fifo:
  assumes "chan_run n es (b, ps)"
  shows "sent es = received es @ content b \<and> length (content b) \<le> CAPACITY"
  using chan_run_inv [OF assms] by (simp add: chan_inv_def chan_ok_def)

text \<open>
  C23. When every thread is outside or waiting, the semaphores are off by exactly what errors lost: a
  receiver blocks when the items still in the buffer are those that were never announced, or whose
  receiver failed before it could take one; a sender blocks when the items and the slots that failed calls
  never gave back fill the capacity. So without such an error a receiver blocks only on an empty
  channel, a sender only on a full one. \<open>simple_chan_size\<close> is the number of items either way.
\<close>

theorem simple_channel_blocking:
  assumes "chan_run n es (b, ps)" and "\<forall>p \<in> set ps. p = Idle \<or> p = Recv_wait \<or> (\<exists>d. p = Send_wait d)"
  shows "(sem_wait_loop [Acquired] (ch_c_sem b) = None \<longleftrightarrow> length (content b) = lost_items es) \<and>
    (sem_wait_loop [Acquired] (ch_s_sem b) = None \<longleftrightarrow> length (content b) + lost_slots es = CAPACITY) \<and>
    simple_chan_size b = int (length (content b))"
proof -
  have none: "count_pc holds_slot ps = 0" "count_pc holds_item ps = 0"
    using assms(2) by (auto simp: count_pc_def filter_empty_conv holds_slot_def holds_item_def)
  then have sems: "ch_s_sem b + used b + lost_slots es = CAPACITY" "ch_c_sem b + lost_items es = used b"
    using chan_run_inv [OF assms(1)] by (simp_all add: chan_inv_def)
  then have "- (2 ^ 31) \<le> int (used b) \<and> int (used b) < 2 ^ 31" by (simp add: CAPACITY_def)
  then have "signed_take_bit 31 (int (used b)) = int (used b)" by (simp only: signed_take_bit_int_eq_self_iff)
  then have "sint (ch_write b - ch_read b) = int (used b)" by (simp add: sint_uint used_def)
  then show ?thesis using sems by (auto simp: simple_chan_size_def)
qed

text \<open>
  The semaphores of a \<open>chan\<close> admit one item more than its ring holds: when the ring is full,
  a sender that the semaphore lets through has its item rejected, and still announces it, so a
  later receiver is let through to an empty ring.
\<close>

theorem sem_channel_drops:
  assumes "ring_laws R items" and "length (items (cn_ring c)) = CAPACITY - 1" and "cn_s_sem c = Suc s"
  shows "sem_chan_send_mpsc R [Acquired] True c d =
    Some (0, c\<lparr>cn_s_sem := s, cn_c_sem := cn_c_sem c + 1\<rparr>)"
proof -
  have "rg_enqueue R MPSC (cn_ring c) d =
      (if Suc (length (items (cn_ring c))) < CAPACITY then (True, snd (rg_enqueue R MPSC (cn_ring c) d))
       else (False, cn_ring c))"
    using assms(1) unfolding ring_laws_def by blast
  then have "rg_enqueue R MPSC (cn_ring c) d = (False, cn_ring c)"
    using assms(2) by (simp add: CAPACITY_def)
  then show ?thesis
    using assms(3) by (simp add: sem_chan_send_mpsc_def chan_send_mpsc_def ring_send_def)
qed

section \<open>Concrete channels\<close>

definition list_ring :: "('a, 'a list) ring_lib" where
  "list_ring = \<lparr>rg_init = (\<lambda>n. []),
     rg_enqueue = (\<lambda>m r x. if Suc (length r) < CAPACITY then (True, r @ [x]) else (False, r)),
     rg_dequeue = (\<lambda>m r. case r of [] \<Rightarrow> (None, []) | x # xs \<Rightarrow> (Some x, xs))\<rparr>"

lemma list_ring_laws: "ring_laws list_ring (\<lambda>r. r)"
  by (simp add: ring_laws_def list_ring_def)

theorem sem_channel_drops_witness:
  "sem_chan_send_mpsc list_ring [Acquired] True
     \<lparr>cn_ring = replicate 2047 False, cn_c_sem = 2047, cn_s_sem = 1\<rparr> True =
   Some (0, \<lparr>cn_ring = replicate 2047 False, cn_c_sem = 2048, cn_s_sem = 0\<rparr>)"
  using sem_channel_drops [OF list_ring_laws, of "\<lparr>cn_ring = replicate 2047 False, cn_c_sem = 2047, cn_s_sem = 1\<rparr>" 0 True]
  by (simp add: CAPACITY_def)

definition ex_ring :: "nat simple_chan" where
  "ex_ring = \<lparr>ch_read = 0, ch_write = 0, ch_buffer = replicate 2048 0, ch_c_sem = 0, ch_s_sem = 2048\<rparr>"

text \<open>Two threads: the first puts 7 into the buffer while the second waits for an item.\<close>

lemma ex_chan_store:
  "chan_run 2 [Silent, Silent, Silent, Sent (7 :: nat)] (chan_put 7 (ex_ring\<lparr>ch_s_sem := 2047\<rparr>), [Send_post, Recv_wait])"
proof -
  let ?b = "ex_ring\<lparr>ch_s_sem := 2047\<rparr>"
  have "chan_run 2 [] (ex_ring, [Idle, Idle])"
    using chan_run.fresh [of ex_ring 2]
    by (simp add: ex_ring_def simple_chan_init_def CAPACITY_def numeral_2_eq_2)
  moreover have "chan_step (ex_ring, [Idle, Idle]) Silent (ex_ring, [Send_wait 7, Idle])"
    using chan_step.call_send [of 0 "[Idle, Idle]" ex_ring 7] by simp
  moreover have "chan_step (ex_ring, [Send_wait 7, Idle]) Silent (ex_ring, [Send_wait 7, Recv_wait])"
    using chan_step.call_recv [of 1 "[Send_wait 7, Idle]" ex_ring] by simp
  moreover have "chan_step (ex_ring, [Send_wait 7, Recv_wait]) Silent (?b, [Send_slot 7, Recv_wait])"
    using chan_step.get_slot [of 0 "[Send_wait 7, Recv_wait]" 7 ex_ring 2047] by (simp add: ex_ring_def)
  moreover have "chan_step (?b, [Send_slot 7, Recv_wait]) (Sent 7) (chan_put 7 ?b, [Send_post, Recv_wait])"
    using chan_step.store [of 0 "[Send_slot 7, Recv_wait]" 7 ?b] by simp
  ultimately have "chan_run 2 (((([] @ [Silent]) @ [Silent]) @ [Silent]) @ [Sent 7]) (chan_put 7 ?b, [Send_post, Recv_wait])"
    by (blast intro: chan_run.more)
  then show ?thesis by simp
qed

text \<open>Its post succeeds, or fails: then the item is there and the receiver waits for it.\<close>

lemma ex_chan_run:
  "chan_run 2 [Silent, Silent, Silent, Sent (7 :: nat), Silent]
     ((chan_put 7 (ex_ring\<lparr>ch_s_sem := 2047\<rparr>))\<lparr>ch_c_sem := 1\<rparr>, [Idle, Recv_wait])"
  using chan_run.more [OF ex_chan_store chan_step.post_item [of 0]] by (simp add: ex_ring_def)

lemma ex_chan_run_error:
  "chan_run 2 [Silent, Silent, Silent, Sent (7 :: nat), Lost_item] (chan_put 7 (ex_ring\<lparr>ch_s_sem := 2047\<rparr>), [Idle, Recv_wait])"
  using chan_run.more [OF ex_chan_store chan_step.send_post_fails [of 0]] by simp

theorem simple_channel_fifo_witness:
  "content ((chan_put (7 :: nat) (ex_ring\<lparr>ch_s_sem := 2047\<rparr>))\<lparr>ch_c_sem := 1\<rparr>) = [7]"
  using simple_channel_fifo [OF ex_chan_run] by simp

theorem simple_channel_blocking_witness:
  "simple_chan_size (chan_put (7 :: nat) (ex_ring\<lparr>ch_s_sem := 2047\<rparr>)) = 1 \<and>
   sem_wait_loop [Acquired] (ch_c_sem (chan_put 7 (ex_ring\<lparr>ch_s_sem := 2047\<rparr>))) = None"
proof -
  let ?b = "chan_put (7 :: nat) (ex_ring\<lparr>ch_s_sem := 2047\<rparr>)" and ?es = "[Silent, Silent, Silent, Sent (7 :: nat), Lost_item]"
  have "used ?b = 1" by (simp add: used_def chan_put_def ex_ring_def)
  moreover have "lost_items ?es = 1" by (simp add: lost_items_def)
  ultimately show ?thesis
    using simple_channel_blocking [OF ex_chan_run_error] by simp
qed

end
