(* ===== verification/Epx_Wire.thy ===== *)
theory Epx_Wire
  imports Epx_Index
begin

text \<open>
  Messages on the wire: \<^verbatim>\<open>src/message.c\<close> and the conversions of \<^verbatim>\<open>src/command.c\<close>, over the
  tables of the schema \<^verbatim>\<open>src/fbs/epx.fbs\<close>. The generated builder and reader code that lays a
  table out in bytes is a parameter of the sockets; here a table is the record of its fields.
\<close>

section \<open>Tables of the schema\<close>

text \<open>
  A scalar field that has its default value is not stored, and an absent field reads as the
  default. An absent vector has no elements; an absent string is a null pointer.
\<close>

definition stored :: "'a \<Rightarrow> 'a \<Rightarrow> 'a option" where
  "stored d v = (if v = d then None else Some v)"

definition field :: "'a \<Rightarrow> 'a option \<Rightarrow> 'a" where
  "field d f = (case f of None \<Rightarrow> d | Some v \<Rightarrow> v)"

lemma field_stored [simp]: "field d (stored d v) = v"
  by (simp add: field_def stored_def)

record wire_span =
  ws_start_key :: "u8 list option"
  ws_end_key :: "u8 list option"

record wire_command =
  wc_id :: "u8 option"
  wc_spans :: "wire_span list"
  wc_writing :: "u8 option"

record wire_dependency =
  wd_replica_id :: u16
  wd_instance_id :: u64
  wd_committed :: u8

record wire_data =
  wi_command :: "wire_command option"
  wi_seq :: "u64 option"
  wi_deps :: "wire_dependency list"

record wire_message =
  wm_from :: "u16 option"
  wm_to :: "u16 option"
  wm_nack :: "u8 option"
  wm_ballot :: "u8 option"
  wm_instance_id :: "(u16 \<times> u64) option"
  wm_type :: "u8 option"
  wm_data :: "wire_data option"
  wm_instance_status :: "u8 option"
  wm_srt :: "u64 option"
  wm_stp :: "u64 option"

section \<open>Enumerations as numbers\<close>

fun type_code :: "message_type \<Rightarrow> u8" where
  "type_code PHASE1 = 1"
| "type_code PRE_ACCEPT = 2"
| "type_code PRE_ACCEPT_OK = 3"
| "type_code PRE_ACCEPT_REPLY = 4"
| "type_code ACCEPT = 5"
| "type_code ACCEPT_REPLY = 6"
| "type_code COMMIT = 7"
| "type_code PREPARE = 8"
| "type_code PREPARE_REPLY = 9"
| "type_code TRY_PRE_ACCEPT = 10"
| "type_code TRY_PRE_ACCEPT_REPLY = 11"
| "type_code EXECUTE = 12"
| "type_code (Unnamed_type n) = n"

definition type_of_code :: "u8 \<Rightarrow> message_type" where
  "type_of_code n =
     (if 1 \<le> n \<and> n \<le> 12
      then [PHASE1, PRE_ACCEPT, PRE_ACCEPT_OK, PRE_ACCEPT_REPLY, ACCEPT, ACCEPT_REPLY, COMMIT, PREPARE,
        PREPARE_REPLY, TRY_PRE_ACCEPT, TRY_PRE_ACCEPT_REPLY, EXECUTE] ! (unat n - 1)
      else Unnamed_type n)"

definition io_code :: "io_t \<Rightarrow> u8" where
  "io_code w = (case w of READ \<Rightarrow> 0 | WRITE \<Rightarrow> 1)"

text \<open>The code only asks whether \<^verbatim>\<open>writing\<close> is zero.\<close>

definition io_of_code :: "u8 \<Rightarrow> io_t" where
  "io_of_code n = (if n = 0 then READ else WRITE)"

section \<open>Commands\<close>

text \<open>The spans of all \<open>TX_SIZE\<close> slots, not of the first \<open>tx_size\<close>; the identifier is cut to a byte.\<close>

definition span_to_buffer :: "span \<Rightarrow> wire_span" where
  "span_to_buffer s = \<lparr>ws_start_key = Some (key_bytes (start_key s)), ws_end_key = Some (key_bytes (end_key s))\<rparr>"

definition command_to_buffer :: "command \<Rightarrow> wire_command res" where
  "command_to_buffer c =
     and_then (for_each [0..<TX_SIZE] (\<lambda>i ws.
         and_then (aget (spans c) i) (\<lambda>s.
           if empty_range s then Inr ws else Inr (ws @ [span_to_buffer s]))) [])
       (\<lambda>ws. Inr \<lparr>wc_id = stored 0 (ucast (cmd_id c)), wc_spans = ws, wc_writing = stored 0 (io_code (writing c))\<rparr>)"

text \<open>
  \<^verbatim>\<open>strcpy\<close> into a \<^verbatim>\<open>char[KEY_SIZE]\<close>: up to the first zero byte, and past the end of the array
  when the string with its terminator is longer.
\<close>

definition strcpy_key :: "u8 list option \<Rightarrow> key res" where
  "strcpy_key s = and_then (deref s) (\<lambda>bs.
     let cs = takeWhile (\<lambda>b. b \<noteq> 0) bs in
     if length cs < KEY_SIZE then Inr (Key cs) else Inl Out_of_bounds)"

definition command_from_buffer :: "command \<Rightarrow> wire_data \<Rightarrow> (command \<times> int) res" where
  "command_from_buffer c w =
     (case wi_command w of
        None \<Rightarrow> Inr (c, 1)
      | Some cmd \<Rightarrow>
          and_then (for_each [0..<length (wc_spans cmd)] (\<lambda>i c.
              and_then (strcpy_key (ws_start_key (wc_spans cmd ! i))) (\<lambda>a.
              and_then (strcpy_key (ws_end_key (wc_spans cmd ! i))) (\<lambda>b.
              and_then (aset (spans c) i \<lparr>start_key = a, end_key = b\<rparr>) (\<lambda>ss. Inr (c\<lparr>spans := ss\<rparr>)))))
            (c\<lparr>cmd_id := ucast (field 0 (wc_id cmd)), tx_size := of_nat (length (wc_spans cmd))\<rparr>))
          (\<lambda>c'. Inr (c'\<lparr>writing := io_of_code (field 0 (wc_writing cmd))\<rparr>, 0)))"

section \<open>Messages\<close>

definition dependency_to_buffer :: "dependency \<Rightarrow> wire_dependency" where
  "dependency_to_buffer d = \<lparr>wd_replica_id = ucast (replica_id (dep_id d)),
     wd_instance_id = instance_id (dep_id d), wd_committed = committed d\<rparr>"

definition dependency_from_buffer :: "wire_dependency \<Rightarrow> dependency" where
  "dependency_from_buffer w = \<lparr>dep_id = iid (ucast (wd_replica_id w)) (wd_instance_id w), committed = wd_committed w\<rparr>"

definition instance_data_to_buffer :: "cmds \<Rightarrow> message \<Rightarrow> wire_data res" where
  "instance_data_to_buffer cmds m =
     and_then (case m_command m of
         None \<Rightarrow> Inr None
       | Some a \<Rightarrow> and_then (load cmds a) (\<lambda>c. and_then (command_to_buffer c) (\<lambda>w. Inr (Some w)))) (\<lambda>cmd.
     and_then (for_each [0..<MAX_DEPS] (\<lambda>i ws.
         and_then (aget (m_deps m) i) (\<lambda>d.
           if replica_id (dep_id d) > 0 then Inr (ws @ [dependency_to_buffer d]) else Inr ws)) []) (\<lambda>ds.
     Inr \<lparr>wi_command = cmd, wi_seq = stored 0 (m_seq m), wi_deps = ds\<rparr>))"

definition message_to_buffer :: "cmds \<Rightarrow> message \<Rightarrow> wire_message res" where
  "message_to_buffer cmds m =
     and_then (if m_type m = PRE_ACCEPT_OK then Inr None
               else and_then (instance_data_to_buffer cmds m) (\<lambda>w. Inr (Some w))) (\<lambda>data.
     Inr \<lparr>wm_from = stored 0 (ucast (m_from m)), wm_to = stored 0 (ucast (m_to m)), wm_nack = stored 0 (m_nack m),
       wm_ballot = stored 0 (m_ballot m),
       wm_instance_id = Some (ucast (replica_id (m_id m)), instance_id (m_id m)),
       wm_type = stored 0 (type_code (m_type m)), wm_data = data,
       wm_instance_status = stored (ucast NONE) (ucast (m_instance_status m)),
       wm_srt = stored 0 (m_start m), wm_stp = stored 0 (m_stop m)\<rparr>)"

definition instance_data_from_buffer :: "cmds \<Rightarrow> message \<Rightarrow> wire_data option \<Rightarrow> (cmds \<times> message) res" where
  "instance_data_from_buffer cmds m buffer =
     (case buffer of
        None \<Rightarrow> Inr (cmds, m)
      | Some w \<Rightarrow>
          and_then (case wi_command w of
              None \<Rightarrow> Inr (cmds, m\<lparr>m_command := None\<rparr>)
            | Some _ \<Rightarrow>
                and_then (deref (m_command m)) (\<lambda>a.
                and_then (load cmds a) (\<lambda>c.
                and_then (command_from_buffer c w) (\<lambda>(c', cp).
                Inr (cmds(a \<mapsto> c'), if cp > 0 then m\<lparr>m_command := None\<rparr> else m))))) (\<lambda>(cmds1, m1).
          and_then (for_each [0..<min (length (wi_deps w)) N] (\<lambda>i ds.
              aset ds i (dependency_from_buffer (wi_deps w ! i))) (m_deps m1)) (\<lambda>ds.
          Inr (cmds1, m1\<lparr>m_seq := field 0 (wi_seq w), m_deps := ds\<rparr>))))"

definition message_from_buffer :: "cmds \<Rightarrow> message \<Rightarrow> wire_message option \<Rightarrow> (cmds \<times> message \<times> int) res" where
  "message_from_buffer cmds m buffer =
     (case buffer of
        None \<Rightarrow> Inr (cmds, m, 1)
      | Some w \<Rightarrow>
          let m1 = m\<lparr>m_to := ucast (field 0 (wm_to w)), m_from := ucast (field 0 (wm_from w)),
             m_nack := field 0 (wm_nack w), m_ballot := field 0 (wm_ballot w),
             m_instance_status := ucast (field (ucast NONE) (wm_instance_status w))\<rparr> in
          case wm_instance_id w of
            None \<Rightarrow> Inr (cmds, m1, 1)
          | Some (rid, n) \<Rightarrow>
              let m2 = m1\<lparr>m_id := iid (ucast rid) n\<rparr> in
              if wm_type w = None then Inr (cmds, m2, 1)
              else let m3 = m2\<lparr>m_type := type_of_code (field 0 (wm_type w)),
                 m_stop := (case wm_stp w of None \<Rightarrow> m_stop m2 | Some v \<Rightarrow> v),
                 m_start := (case wm_srt w of None \<Rightarrow> m_start m2 | Some v \<Rightarrow> v)\<rparr> in
              if m_type m3 = PRE_ACCEPT_OK then Inr (cmds, m3, 0)
              else and_then (instance_data_from_buffer cmds m3 (wm_data w)) (\<lambda>(cmds', m4). Inr (cmds', m4, 0)))"

section \<open>The loops\<close>

lemma collect_loop:
  "n \<le> length xs \<Longrightarrow> for_each [0..<n] (\<lambda>i acc. and_then (aget xs i) (\<lambda>x.
      if P x then Inr (acc @ [f x]) else Inr acc)) acc = Inr (acc @ map f (filter P (take n xs)))"
proof (induction n)
  case 0
  then show ?case by simp
next
  case (Suc n)
  then show ?case by (simp add: for_each_append take_Suc_conv_app_nth)
qed

lemma overwrite_loop:
  "n \<le> length xs \<Longrightarrow> for_each [0..<n] (\<lambda>i ys. aset ys i (f i)) xs = Inr (map f [0..<n] @ drop n xs)"
proof (induction n)
  case 0
  then show ?case by simp
next
  case (Suc n)
  then have "(map f [0..<n] @ drop n xs)[n := f n] = map f [0..<Suc n] @ drop (Suc n) xs"
    by (simp add: list_update_append Cons_nth_drop_Suc [symmetric])
  with Suc show ?case by (simp add: for_each_append)
qed

text \<open>The conditions in the code are written the other way round for spans.\<close>

lemma command_to_buffer_eq:
  assumes "length (spans c) = TX_SIZE"
  shows "command_to_buffer c = Inr \<lparr>wc_id = stored 0 (ucast (cmd_id c)),
    wc_spans = map span_to_buffer (filter (\<lambda>s. \<not> empty_range s) (spans c)),
    wc_writing = stored 0 (io_code (writing c))\<rparr>"
proof -
  have "(\<lambda>i ws. and_then (aget (spans c) i) (\<lambda>s. if empty_range s then Inr ws else Inr (ws @ [span_to_buffer s]))) =
      (\<lambda>i ws. and_then (aget (spans c) i) (\<lambda>s. if \<not> empty_range s then Inr (ws @ [span_to_buffer s]) else Inr ws))"
    by (intro ext arg_cong [of _ _ "and_then _"]) simp
  then show ?thesis
    using assms collect_loop [of TX_SIZE "spans c" "\<lambda>s. \<not> empty_range s" span_to_buffer "[]"]
    by (simp add: command_to_buffer_def)
qed

lemma wire_deps_eq:
  assumes "length (m_deps m) = MAX_DEPS"
  shows "for_each [0..<MAX_DEPS] (\<lambda>i ws. and_then (aget (m_deps m) i) (\<lambda>d.
      if replica_id (dep_id d) > 0 then Inr (ws @ [dependency_to_buffer d]) else Inr ws)) [] =
    Inr (map dependency_to_buffer (filter (\<lambda>d. replica_id (dep_id d) > 0) (m_deps m)))"
  using assms collect_loop [of MAX_DEPS "m_deps m" "\<lambda>d. replica_id (dep_id d) > 0" dependency_to_buffer "[]"]
  by simp

section \<open>Round trips\<close>

text \<open>A key that fits its array and is a C string; a span of such keys.\<close>

definition key_fits :: "key \<Rightarrow> bool" where
  "key_fits k \<longleftrightarrow> length (key_bytes k) < KEY_SIZE \<and> 0 \<notin> set (key_bytes k)"

definition span_fits :: "span \<Rightarrow> bool" where
  "span_fits s \<longleftrightarrow> key_fits (start_key s) \<and> key_fits (end_key s)"

lemma strcpy_fits [simp]: "key_fits k \<Longrightarrow> strcpy_key (Some (key_bytes k)) = Inr k"
proof (cases k)
  case (Key bs)
  assume "key_fits k"
  then have "length bs < KEY_SIZE" and all: "\<forall>b \<in> set bs. b \<noteq> 0" by (auto simp: Key key_fits_def)
  then have "length (takeWhile (\<lambda>b. b \<noteq> 0) bs) < KEY_SIZE" using length_takeWhile_le le_less_trans by blast
  with all show ?thesis by (simp add: Key strcpy_key_def Let_def)
qed

lemma span_eta: "\<lparr>start_key = start_key s, end_key = end_key s\<rparr> = s"
  by (cases s) simp

lemma io_roundtrip [simp]: "io_of_code (io_code w) = w"
  by (cases w) (simp_all add: io_of_code_def io_code_def)

lemma read_spans:
  assumes "\<forall>s \<in> set ss. span_fits s" and "length ss \<le> length (spans c)"
  shows "n \<le> length ss \<Longrightarrow> for_each [0..<n] (\<lambda>i c.
      and_then (strcpy_key (ws_start_key (map span_to_buffer ss ! i))) (\<lambda>a.
      and_then (strcpy_key (ws_end_key (map span_to_buffer ss ! i))) (\<lambda>b.
      and_then (aset (spans c) i \<lparr>start_key = a, end_key = b\<rparr>) (\<lambda>ss. Inr (c\<lparr>spans := ss\<rparr>))))) c =
    Inr (c\<lparr>spans := take n ss @ drop n (spans c)\<rparr>)"
proof (induction n)
  case 0
  then show ?case by simp
next
  case (Suc n)
  then have n: "n < length ss" by simp
  have fits: "span_fits (ss ! n)" using assms(1) n by simp
  have "(take n ss @ drop n (spans c))[n := ss ! n] = take (Suc n) ss @ drop (Suc n) (spans c)"
    using n assms(2) by (simp add: list_update_append Cons_nth_drop_Suc [symmetric] take_Suc_conv_app_nth)
  with Suc n fits assms(2) show ?case
    by (simp add: for_each_append span_to_buffer_def span_fits_def span_eta)
qed

text \<open>What a command becomes in the memory \<open>c0\<close> of its receiver.\<close>

definition used_spans :: "command \<Rightarrow> span list" where
  "used_spans c = filter (\<lambda>s. \<not> empty_range s) (spans c)"

definition received_command :: "command \<Rightarrow> command \<Rightarrow> command" where
  "received_command c c0 = \<lparr>spans = used_spans c @ drop (length (used_spans c)) (spans c0),
     tx_size = of_nat (length (used_spans c)), cmd_id = ucast (ucast (cmd_id c) :: u8), writing = writing c\<rparr>"

definition command_fits :: "command \<Rightarrow> bool" where
  "command_fits c \<longleftrightarrow> length (spans c) = TX_SIZE \<and> (\<forall>s \<in> set (used_spans c). span_fits s)"

lemma command_read:
  assumes "command_fits c" and "length (spans c0) = TX_SIZE"
  shows "\<exists>w. command_to_buffer c = Inr w \<and> (\<forall>sq ds.
    command_from_buffer c0 \<lparr>wi_command = Some w, wi_seq = sq, wi_deps = ds\<rparr> = Inr (received_command c c0, 0))"
proof -
  let ?ss = "used_spans c"
  let ?c = "c0\<lparr>cmd_id := ucast (ucast (cmd_id c) :: u8), tx_size := of_nat (length ?ss)\<rparr>"
  have len: "length (spans c) = TX_SIZE" using assms(1) by (simp add: command_fits_def)
  have "length ?ss \<le> length (spans ?c)"
    using len assms(2) length_filter_le [of _ "spans c"] by (simp add: used_spans_def)
  moreover have "\<forall>s \<in> set ?ss. span_fits s" using assms(1) by (simp add: command_fits_def)
  ultimately have "for_each [0..<length ?ss] (\<lambda>i c.
      and_then (strcpy_key (ws_start_key (map span_to_buffer ?ss ! i))) (\<lambda>a.
      and_then (strcpy_key (ws_end_key (map span_to_buffer ?ss ! i))) (\<lambda>b.
      and_then (aset (spans c) i \<lparr>start_key = a, end_key = b\<rparr>) (\<lambda>ss. Inr (c\<lparr>spans := ss\<rparr>))))) ?c =
    Inr (?c\<lparr>spans := ?ss @ drop (length ?ss) (spans c0)\<rparr>)"
    using read_spans [of ?ss ?c "length ?ss"] by simp
  then show ?thesis
    unfolding command_to_buffer_eq [OF len] used_spans_def [symmetric]
    by (cases c0) (simp add: command_from_buffer_def received_command_def)
qed

text \<open>
  A command survives the wire: what the receiver reads into its own command is the sender's
  identifier cut to a byte, its kind, and its spans in order, packed to the front, with their
  number; the slots behind them keep what the receiver's memory held.
\<close>

theorem command_roundtrip:
  assumes "command_fits c" and "length (spans c0) = TX_SIZE"
  shows "\<exists>w c'. command_to_buffer c = Inr w \<and>
    command_from_buffer c0 \<lparr>wi_command = Some w, wi_seq = sq, wi_deps = ds\<rparr> = Inr (c', 0) \<and>
    take (unat (tx_size c')) (spans c') = filter (\<lambda>s. \<not> empty_range s) (spans c) \<and>
    writing c' = writing c \<and> unat (cmd_id c') = unat (cmd_id c) mod 256"
proof -
  have "length (used_spans c) \<le> TX_SIZE"
    using assms(1) length_filter_le [of _ "spans c"] by (simp add: used_spans_def command_fits_def)
  then have "unat (of_nat (length (used_spans c)) :: u64) = length (used_spans c)"
    by (simp add: unsigned_of_nat take_bit_nat_eq_self TX_SIZE_def)
  moreover have "unat (ucast (ucast (cmd_id c) :: u8) :: u32) = unat (cmd_id c) mod 256"
    by (simp only: unsigned_ucast_eq unsigned_take_bit_eq) (simp add: take_bit_eq_mod mod_mod_cancel)
  ultimately have "take (unat (tx_size (received_command c c0))) (spans (received_command c c0)) =
      filter (\<lambda>s. \<not> empty_range s) (spans c) \<and> writing (received_command c c0) = writing c \<and>
      unat (cmd_id (received_command c c0)) = unat (cmd_id c) mod 256"
    by (simp add: received_command_def used_spans_def)
  with command_read [OF assms] show ?thesis by blast
qed

text \<open>What the receiver of a message has of the dependencies.\<close>

definition sent_deps :: "dependency list \<Rightarrow> dependency list" where
  "sent_deps ds = filter (\<lambda>d. replica_id (dep_id d) > 0) ds"

definition received_deps :: "dependency list \<Rightarrow> dependency list \<Rightarrow> dependency list" where
  "received_deps ds old = take N (sent_deps ds) @ drop (min (length (sent_deps ds)) N) old"

text \<open>The fields that have fewer bits on the wire are within them.\<close>

definition message_fits :: "message \<Rightarrow> bool" where
  "message_fits m \<longleftrightarrow> type_of_code (type_code (m_type m)) = m_type m \<and> type_code (m_type m) \<noteq> 0 \<and>
     unat (m_to m) < 2 ^ 16 \<and> unat (m_from m) < 2 ^ 16 \<and> unat (replica_id (m_id m)) < 2 ^ 16 \<and>
     unat (m_instance_status m) < 2 ^ 8 \<and>
     length (m_deps m) = MAX_DEPS \<and> (\<forall>d \<in> set (m_deps m). unat (replica_id (dep_id d)) < 2 ^ 16)"

lemma ucast_u16 [simp]: "unat (x :: u64) < 2 ^ 16 \<Longrightarrow> ucast (ucast x :: u16) = x"
  by (simp only: word_unat_eq_iff unsigned_ucast_eq unsigned_take_bit_eq) (simp add: take_bit_eq_mod)

lemma ucast_u8 [simp]: "unat (x :: u32) < 2 ^ 8 \<Longrightarrow> ucast (ucast x :: u8) = x"
  by (simp only: word_unat_eq_iff unsigned_ucast_eq unsigned_take_bit_eq) (simp add: take_bit_eq_mod)

lemma dependency_roundtrip:
  "unat (replica_id (dep_id d)) < 2 ^ 16 \<Longrightarrow> dependency_from_buffer (dependency_to_buffer d) = d"
  by (cases d; cases "dep_id d") (simp add: dependency_from_buffer_def dependency_to_buffer_def iid_def)

text \<open>What a message becomes in the memory \<open>m0\<close> of its receiver.\<close>

definition received_message :: "message \<Rightarrow> message \<Rightarrow> message" where
  "received_message m m0 = m\<lparr>
     m_command := (if m_type m = PRE_ACCEPT_OK \<or> m_command m \<noteq> None then m_command m0 else None),
     m_seq := (if m_type m = PRE_ACCEPT_OK then m_seq m0 else m_seq m),
     m_deps := (if m_type m = PRE_ACCEPT_OK then m_deps m0 else received_deps (m_deps m) (m_deps m0)),
     m_conflict_id := m_conflict_id m0, m_conflict_status := m_conflict_status m0,
     m_start := (if m_start m = 0 then m_start m0 else m_start m),
     m_stop := (if m_stop m = 0 then m_stop m0 else m_stop m), m_ref := m_ref m0\<rparr>"

lemma message_read:
  assumes "message_fits m" and "\<forall>b. m_command m = Some b \<longrightarrow> cmds b = Some c \<and> command_fits c"
    and "m_command m0 = Some a" and "cmds0 a = Some c0" and "length (spans c0) = TX_SIZE"
    and "length (m_deps m0) = MAX_DEPS"
  shows "\<exists>w cmds1. message_to_buffer cmds m = Inr w \<and>
    message_from_buffer cmds0 m0 (Some w) = Inr (cmds1, received_message m m0, 0) \<and>
    cmds1 = (if m_type m = PRE_ACCEPT_OK \<or> m_command m = None then cmds0
             else cmds0(a \<mapsto> received_command c c0))"
proof -
  have fits: "type_of_code (type_code (m_type m)) = m_type m" "type_code (m_type m) \<noteq> 0"
    "unat (m_to m) < 2 ^ 16" "unat (m_from m) < 2 ^ 16" "unat (replica_id (m_id m)) < 2 ^ 16"
    "unat (m_instance_status m) < 2 ^ 8" "length (m_deps m) = MAX_DEPS"
    "\<forall>d \<in> set (m_deps m). unat (replica_id (dep_id d)) < 2 ^ 16"
    using assms(1) unfolding message_fits_def by blast+
  have id: "iid (replica_id (m_id m)) (instance_id (m_id m)) = m_id m" by (cases "m_id m") (simp add: iid_def)
  let ?ds = "sent_deps (m_deps m)" and ?n = "min (length (sent_deps (m_deps m))) N"
  have "dependency_from_buffer (map dependency_to_buffer ?ds ! i) = ?ds ! i" if "i < ?n" for i
    using that fits(8) nth_mem [of i ?ds] by (simp add: sent_deps_def dependency_roundtrip)
  then have "map (\<lambda>i. dependency_from_buffer (map dependency_to_buffer ?ds ! i)) [0..<?n] = take N ?ds"
    by (intro nth_equalityI) simp_all
  then have deps: "for_each [0..<?n] (\<lambda>i ds. aset ds i (dependency_from_buffer (map dependency_to_buffer ?ds ! i))) (m_deps m0) =
      Inr (received_deps (m_deps m) (m_deps m0))"
    using overwrite_loop [of ?n "m_deps m0"] assms(6) by (simp add: received_deps_def N_def MAX_DEPS_def)
  note wire = wire_deps_eq [OF fits(7), folded sent_deps_def]
  show ?thesis
  proof (cases "m_type m = PRE_ACCEPT_OK")
    case True
    then show ?thesis
      using fits id by (simp add: message_to_buffer_def message_from_buffer_def received_message_def stored_def [of 0 "type_code _"]
          Let_def) (cases m; cases m0; simp add: stored_def)
  next
    case False
    note defs = message_to_buffer_def instance_data_to_buffer_def message_from_buffer_def
      instance_data_from_buffer_def Let_def wire
    have zero: "(case stored 0 v of None \<Rightarrow> x | Some k \<Rightarrow> k) = (if v = 0 then x else v)" for v x :: u64
      by (simp add: stored_def)
    have there: "stored 0 (type_code (m_type m)) \<noteq> None" using fits(2) by (simp add: stored_def)
    show ?thesis
    proof (cases "m_command m")
      case None
      then show ?thesis
        using False fits id deps there
        by (simp add: defs zero received_message_def)
    next
      case (Some b)
      obtain w where w: "command_to_buffer c = Inr w"
        "\<forall>sq ds. command_from_buffer c0 \<lparr>wi_command = Some w, wi_seq = sq, wi_deps = ds\<rparr> = Inr (received_command c c0, 0)"
        using command_read [OF _ assms(5), of c] assms(2) Some by blast
      then show ?thesis
        using False fits id deps there Some assms(2-4)
        by (simp add: defs zero load_Some received_message_def)
    qed
  qed
qed


text \<open>
  What the wire does not carry: two messages that agree on their dependencies outside replica
  0 are the same table, whatever their dependencies on replica 0 and their \<^verbatim>\<open>conflict\<close>.
\<close>

theorem message_wire_blind:
  assumes "length ds = MAX_DEPS" and "length (m_deps m) = MAX_DEPS" and "sent_deps ds = sent_deps (m_deps m)"
  shows "message_to_buffer cmds (m\<lparr>m_deps := ds, m_conflict_id := k, m_conflict_status := st\<rparr>) =
    message_to_buffer cmds m"
proof -
  let ?m = "m\<lparr>m_deps := ds, m_conflict_id := k, m_conflict_status := st\<rparr>"
  have "length (m_deps ?m) = MAX_DEPS" using assms(1) by simp
  note wire = wire_deps_eq [OF this, folded sent_deps_def] wire_deps_eq [OF assms(2), folded sent_deps_def]
  show ?thesis
    unfolding message_to_buffer_def instance_data_to_buffer_def wire using assms(3) by simp
qed

section \<open>What decoding makes of any table\<close>

text \<open>What \<^verbatim>\<open>strcpy\<close> copies of a string, and when the array has room for it.\<close>

definition c_chars :: "u8 list \<Rightarrow> u8 list" where
  "c_chars bs = takeWhile (\<lambda>b. b \<noteq> 0) bs"

definition key_ok :: "u8 list option \<Rightarrow> bool" where
  "key_ok s \<longleftrightarrow> (\<exists>bs. s = Some bs \<and> length (c_chars bs) < KEY_SIZE)"

definition span_ok :: "wire_span \<Rightarrow> bool" where
  "span_ok w \<longleftrightarrow> key_ok (ws_start_key w) \<and> key_ok (ws_end_key w)"

definition decoded_span :: "wire_span \<Rightarrow> span" where
  "decoded_span w = \<lparr>start_key = Key (c_chars (the (ws_start_key w))), end_key = Key (c_chars (the (ws_end_key w)))\<rparr>"

lemma strcpy_key_ok:
  "(key_ok s \<longrightarrow> strcpy_key s = Inr (Key (c_chars (the s)))) \<and> (\<not> key_ok s \<longrightarrow> (\<exists>f. strcpy_key s = Inl f))"
  by (cases s) (auto simp: strcpy_key_def key_ok_def c_chars_def Let_def)

definition read_span :: "wire_span list \<Rightarrow> nat \<Rightarrow> command \<Rightarrow> command res" where
  "read_span ws i c =
     and_then (strcpy_key (ws_start_key (ws ! i))) (\<lambda>a.
     and_then (strcpy_key (ws_end_key (ws ! i))) (\<lambda>b.
     and_then (aset (spans c) i \<lparr>start_key = a, end_key = b\<rparr>) (\<lambda>ss. Inr (c\<lparr>spans := ss\<rparr>))))"

lemma read_span_outcome:
  "(span_ok (ws ! i) \<and> i < length (spans c) \<longrightarrow> read_span ws i c = Inr (c\<lparr>spans := (spans c)[i := decoded_span (ws ! i)]\<rparr>)) \<and>
   (\<not> (span_ok (ws ! i) \<and> i < length (spans c)) \<longrightarrow> (\<exists>f. read_span ws i c = Inl f))"
  using strcpy_key_ok [of "ws_start_key (ws ! i)"] strcpy_key_ok [of "ws_end_key (ws ! i)"]
  by (auto simp: read_span_def span_ok_def decoded_span_def aset_def)

lemma read_spans_outcome:
  "n \<le> length ws \<Longrightarrow>
   (n \<le> length (spans c) \<and> (\<forall>w \<in> set (take n ws). span_ok w) \<longrightarrow>
     for_each [0..<n] (read_span ws) c = Inr (c\<lparr>spans := map decoded_span (take n ws) @ drop n (spans c)\<rparr>)) \<and>
   (\<not> (n \<le> length (spans c) \<and> (\<forall>w \<in> set (take n ws). span_ok w)) \<longrightarrow> (\<exists>f. for_each [0..<n] (read_span ws) c = Inl f))"
proof (induction n)
  case 0
  then show ?case by simp
next
  case (Suc n)
  then have n: "n < length ws" by simp
  show ?case
  proof (cases "n \<le> length (spans c) \<and> (\<forall>w \<in> set (take n ws). span_ok w)")
    case True
    let ?c = "c\<lparr>spans := map decoded_span (take n ws) @ drop n (spans c)\<rparr>"
    have IH: "for_each [0..<n] (read_span ws) c = Inr ?c" using Suc True by simp
    have len: "length (spans ?c) = length (spans c)" using n True by simp
    have "(map decoded_span (take n ws) @ drop n (spans c))[n := decoded_span (ws ! n)] =
        map decoded_span (take (Suc n) ws) @ drop (Suc n) (spans c)" if "n < length (spans c)"
      using n that by (simp add: list_update_append Cons_nth_drop_Suc [symmetric] take_Suc_conv_app_nth)
    then show ?thesis
      using True read_span_outcome [of ws n ?c] len n IH
      by (auto simp: for_each_append take_Suc_conv_app_nth)
  next
    case False
    then obtain f where "for_each [0..<n] (read_span ws) c = Inl f" using Suc by auto
    moreover have "\<not> (Suc n \<le> length (spans c) \<and> (\<forall>w \<in> set (take (Suc n) ws). span_ok w))"
      using False n by (auto simp: take_Suc_conv_app_nth)
    ultimately show ?thesis by (simp add: for_each_append)
  qed
qed

text \<open>What a command of the table becomes in the memory of \<open>c\<close>, and when there is room for it.\<close>

definition decoded_command :: "wire_command \<Rightarrow> command \<Rightarrow> command" where
  "decoded_command cmd c = \<lparr>spans = map decoded_span (wc_spans cmd) @ drop (length (wc_spans cmd)) (spans c),
     tx_size = of_nat (length (wc_spans cmd)), cmd_id = ucast (field 0 (wc_id cmd)),
     writing = io_of_code (field 0 (wc_writing cmd))\<rparr>"

definition decodable :: "cmds \<Rightarrow> cmd_ptr \<Rightarrow> wire_data \<Rightarrow> bool" where
  "decodable cmds p d \<longleftrightarrow> (\<forall>cmd. wi_command d = Some cmd \<longrightarrow>
     (\<exists>a. p = Some a \<and> cmds a \<noteq> None) \<and> length (wc_spans cmd) \<le> TX_SIZE \<and> (\<forall>w \<in> set (wc_spans cmd). span_ok w))"

lemma command_decoded:
  assumes "wi_command d = Some cmd" and "length (spans c) = TX_SIZE"
  shows "(length (wc_spans cmd) \<le> TX_SIZE \<and> (\<forall>w \<in> set (wc_spans cmd). span_ok w) \<longrightarrow>
      command_from_buffer c d = Inr (decoded_command cmd c, 0)) \<and>
    (\<not> (length (wc_spans cmd) \<le> TX_SIZE \<and> (\<forall>w \<in> set (wc_spans cmd). span_ok w)) \<longrightarrow>
      (\<exists>f. command_from_buffer c d = Inl f))"
proof -
  let ?c0 = "c\<lparr>cmd_id := ucast (field 0 (wc_id cmd)), tx_size := of_nat (length (wc_spans cmd))\<rparr>"
  have loop: "(\<lambda>i c. and_then (strcpy_key (ws_start_key (wc_spans cmd ! i))) (\<lambda>a.
      and_then (strcpy_key (ws_end_key (wc_spans cmd ! i))) (\<lambda>b.
      and_then (aset (spans c) i \<lparr>start_key = a, end_key = b\<rparr>) (\<lambda>ss. Inr (c\<lparr>spans := ss\<rparr>))))) = read_span (wc_spans cmd)"
    by (simp add: read_span_def fun_eq_iff)
  show ?thesis
    using read_spans_outcome [of "length (wc_spans cmd)" "wc_spans cmd" ?c0] assms
    by (auto simp: command_from_buffer_def loop decoded_command_def)
qed

text \<open>
  The part of a table that is decoded into command, sequence number and dependencies: none when the
  identifier or the type is missing, or for a \<open>PRE_ACCEPT_OK\<close>.
\<close>

definition complete :: "wire_message \<Rightarrow> bool" where
  "complete w \<longleftrightarrow> wm_instance_id w \<noteq> None \<and> wm_type w \<noteq> None"

definition payload :: "wire_message \<Rightarrow> wire_data option" where
  "payload w = (if \<not> complete w \<or> type_of_code (field 0 (wm_type w)) = PRE_ACCEPT_OK then None else wm_data w)"

definition header_decoded :: "wire_message \<Rightarrow> message \<Rightarrow> message \<Rightarrow> bool" where
  "header_decoded w m m' \<longleftrightarrow> m_to m' = ucast (field 0 (wm_to w)) \<and> m_from m' = ucast (field 0 (wm_from w)) \<and>
     m_nack m' = field 0 (wm_nack w) \<and> m_ballot m' = field 0 (wm_ballot w) \<and>
     m_instance_status m' = ucast (field (ucast NONE) (wm_instance_status w)) \<and>
     m_id m' = (case wm_instance_id w of None \<Rightarrow> m_id m | Some (rid, n) \<Rightarrow> iid (ucast rid) n) \<and>
     m_type m' = (if complete w then type_of_code (field 0 (wm_type w)) else m_type m) \<and>
     m_start m' = (if complete w \<and> wm_srt w \<noteq> None then the (wm_srt w) else m_start m) \<and>
     m_stop m' = (if complete w \<and> wm_stp w \<noteq> None then the (wm_stp w) else m_stop m) \<and>
     m_conflict_id m' = m_conflict_id m \<and> m_conflict_status m' = m_conflict_status m \<and> m_ref m' = m_ref m"

lemma header_simps [simp]:
  "header_decoded w m0 (m\<lparr>m_command := p\<rparr>) = header_decoded w m0 m" "header_decoded w m0 (m\<lparr>m_seq := s\<rparr>) = header_decoded w m0 m"
  "header_decoded w m0 (m\<lparr>m_deps := ds\<rparr>) = header_decoded w m0 m"
  by (simp_all add: header_decoded_def)

definition data_decoded :: "cmds \<Rightarrow> message \<Rightarrow> wire_data \<Rightarrow> cmds \<Rightarrow> message \<Rightarrow> bool" where
  "data_decoded cmds m d cmds' m' \<longleftrightarrow>
     m_seq m' = field 0 (wi_seq d) \<and> length (m_deps m') = MAX_DEPS \<and>
     (\<forall>i < MAX_DEPS. m_deps m' ! i = (if i < min (length (wi_deps d)) N then dependency_from_buffer (wi_deps d ! i) else m_deps m ! i)) \<and>
     (case wi_command d of
        None \<Rightarrow> m_command m' = None \<and> cmds' = cmds
      | Some cmd \<Rightarrow> m_command m' = m_command m \<and>
          (\<exists>a c. m_command m = Some a \<and> cmds a = Some c \<and> cmds' = cmds(a \<mapsto> decoded_command cmd c)))"

lemma data_outcome:
  assumes "length (m_deps m) = MAX_DEPS" and "\<forall>a c. cmds a = Some c \<longrightarrow> length (spans c) = TX_SIZE"
  shows "(decodable cmds (m_command m) d \<longrightarrow> (\<exists>cmds' m'. instance_data_from_buffer cmds m (Some d) = Inr (cmds', m') \<and>
      (\<forall>w m0. header_decoded w m0 m' = header_decoded w m0 m) \<and> data_decoded cmds m d cmds' m')) \<and>
    (\<not> decodable cmds (m_command m) d \<longrightarrow> (\<exists>f. instance_data_from_buffer cmds m (Some d) = Inl f))"
proof -
  let ?n = "min (length (wi_deps d)) N"
  let ?ds = "map (\<lambda>i. dependency_from_buffer (wi_deps d ! i)) [0..<?n] @ drop ?n (m_deps m)"
  have "?n \<le> length (m_deps m)" using assms(1) by (simp add: N_def MAX_DEPS_def)
  from overwrite_loop [OF this] have deps: "for_each [0..<?n]
      (\<lambda>i ds. aset ds i (dependency_from_buffer (wi_deps d ! i))) (m_deps m) = Inr ?ds" .
  have ds: "length ?ds = MAX_DEPS" "\<forall>i < MAX_DEPS. ?ds ! i =
      (if i < ?n then dependency_from_buffer (wi_deps d ! i) else m_deps m ! i)"
    using assms(1) \<open>?n \<le> length (m_deps m)\<close> by (auto simp: nth_append)
  show ?thesis
  proof (cases "wi_command d")
    case None
    then show ?thesis using deps ds by (simp add: instance_data_from_buffer_def decodable_def data_decoded_def)
  next
    case (Some cmd)
    show ?thesis
    proof (cases "\<exists>a c. m_command m = Some a \<and> cmds a = Some c")
      case True
      then obtain a c where ac: "m_command m = Some a" "cmds a = Some c" by blast
      from command_decoded [OF Some, of c] assms(2) ac(2)
      show ?thesis
        using Some ac deps ds
        by (auto simp: instance_data_from_buffer_def load_Some decodable_def data_decoded_def)
    next
      case False
      then have "\<not> decodable cmds (m_command m) d" using Some by (auto simp: decodable_def)
      moreover have "\<exists>f. instance_data_from_buffer cmds m (Some d) = Inl f"
        using False Some by (cases "m_command m") (auto simp: instance_data_from_buffer_def load_def)
      ultimately show ?thesis by blast
    qed
  qed
qed

text \<open>
  C18. What \<^verbatim>\<open>message_from_buffer\<close> makes of any table, exactly. It returns 1 when the instance or the type is
  missing, and 0 otherwise, with the fields of the header those of the table. Without data, or for a
  \<open>PRE_ACCEPT_OK\<close>, commands, dependencies, sequence number and command stay. With data it faults exactly
  when a command came and the message has no allocated command, more ranges than \<^verbatim>\<open>TX_SIZE\<close>, or a key that
  is absent or longer than its array. Otherwise the first \<^verbatim>\<open>N\<close> dependencies of the table are written
  over the first entries, in order, and the others stay; the message's command, and no other, gets the
  ranges of the table with each start and end in its place, their number, the identifier and the mode;
  and without a command in the table the message has none.
\<close>

theorem decoding_exact:
  assumes "length (m_deps m) = MAX_DEPS" and "\<forall>a c. cmds a = Some c \<longrightarrow> length (spans c) = TX_SIZE"
  shows "case payload w of
      None \<Rightarrow> \<exists>m'. message_from_buffer cmds m (Some w) = Inr (cmds, m', if complete w then 0 else 1) \<and> header_decoded w m m' \<and>
        m_command m' = m_command m \<and> m_seq m' = m_seq m \<and> m_deps m' = m_deps m
    | Some d \<Rightarrow>
        if decodable cmds (m_command m) d
        then \<exists>cmds' m'. message_from_buffer cmds m (Some w) = Inr (cmds', m', 0) \<and> header_decoded w m m' \<and>
          data_decoded cmds m d cmds' m'
        else \<exists>f. message_from_buffer cmds m (Some w) = Inl f"
proof (cases "payload w")
  case None
  then show ?thesis
    by (auto simp: payload_def complete_def message_from_buffer_def Let_def header_decoded_def
        instance_data_from_buffer_def split: option.split prod.split)
next
  case (Some d)
  then obtain rid n t where w: "wm_instance_id w = Some (rid, n)" "wm_type w = Some t" "wm_data w = Some d"
    "type_of_code t \<noteq> PRE_ACCEPT_OK"
    by (auto simp: payload_def complete_def field_def split: if_splits)
  obtain m3 where m3: "message_from_buffer cmds m (Some w) =
      and_then (instance_data_from_buffer cmds m3 (Some d)) (\<lambda>(cmds', m4). Inr (cmds', m4, 0))"
    "header_decoded w m m3" "m_command m3 = m_command m" "m_deps m3 = m_deps m"
    using w by (simp add: message_from_buffer_def Let_def header_decoded_def complete_def field_def split: option.split)
  have "length (m_deps m3) = MAX_DEPS" using m3(4) assms(1) by simp
  moreover have "data_decoded cmds m3 d c m' = data_decoded cmds m d c m'" for c m'
    unfolding data_decoded_def m3(3,4) ..
  ultimately show ?thesis using data_outcome [of m3 cmds d] assms(2) m3 Some by auto
qed

end
