(* ===== verification/Epx_Wire_Witness.thy ===== *)
theory Epx_Wire_Witness
  imports Epx_Wire Epx_Witness
begin

text \<open>The wire's properties at a \<open>PRE_ACCEPT\<close> with one span and two dependencies.\<close>

definition ex_message :: message where
  "ex_message = zero_message\<lparr>m_type := PRE_ACCEPT, m_to := 2, m_from := 1, m_ballot := 2, m_id := iid 1 7,
     m_command := Some 4, m_seq := 9, m_deps := ex_deps, m_instance_status := PRE_ACCEPTED, m_start := 1\<rparr>"

definition blank_command :: command where
  "blank_command = \<lparr>spans = replicate 100 zero_span, tx_size = 0, cmd_id = 0, writing = READ\<rparr>"

lemma ex_command_used: "used_spans ex_command = [ex_span]"
  by (simp add: used_spans_def ex_command_def empty_range_def zero_span_def)

lemma ex_command_fits: "command_fits ex_command"
  unfolding command_fits_def ex_command_used
  by (simp add: ex_command_def TX_SIZE_def span_fits_def key_fits_def KEY_SIZE_def)

lemma ex_message_fits: "message_fits ex_message"
  by (auto simp: message_fits_def ex_message_def zero_message_def type_of_code_def iid_def PRE_ACCEPTED_def
      ex_deps_def ex_dep_def zero_dep_def zero_id_def MAX_DEPS_def)

theorem command_roundtrip_witness:
  "\<exists>w c'. command_to_buffer ex_command = Inr w \<and>
    command_from_buffer blank_command \<lparr>wi_command = Some w, wi_seq = None, wi_deps = []\<rparr> = Inr (c', 0) \<and>
    take (unat (tx_size c')) (spans c') = [ex_span]"
  using command_roundtrip [OF ex_command_fits, of blank_command None "[]"]
  unfolding used_spans_def [symmetric] ex_command_used by (auto simp: blank_command_def TX_SIZE_def)


theorem message_wire_blind_witness:
  "message_to_buffer [4 \<mapsto> ex_command] (ex_message\<lparr>m_deps := ex_dep 1 3 0 # replicate 7 zero_dep,
     m_conflict_id := iid 1 2, m_conflict_status := COMMITTED\<rparr>) =
   message_to_buffer [4 \<mapsto> ex_command] ex_message"
  by (rule message_wire_blind)
    (simp_all add: ex_message_def ex_deps_def ex_dep_def sent_deps_def iid_def zero_dep_def zero_id_def MAX_DEPS_def)

definition small_wire :: wire_message where
  "small_wire = \<lparr>wm_from = Some 2, wm_to = Some 1, wm_nack = None, wm_ballot = Some 2, wm_instance_id = Some (2, 1),
     wm_type = Some 2, wm_data = Some \<lparr>wi_command = Some \<lparr>wc_id = Some 1,
       wc_spans = [\<lparr>ws_start_key = Some [97], ws_end_key = Some [98]\<rparr>], wc_writing = Some 1\<rparr>, wi_seq = Some 1, wi_deps = []\<rparr>,
     wm_instance_status = Some 1, wm_srt = None, wm_stp = None\<rparr>"

theorem decoding_exact_witness:
  "\<exists>m'. message_from_buffer [4 \<mapsto> blank_command] ex_message (Some small_wire) =
      Inr ([4 \<mapsto> blank_command\<lparr>spans := \<lparr>start_key = Key [97], end_key = Key [98]\<rparr> # replicate 99 zero_span,
        tx_size := 1, cmd_id := 1, writing := WRITE\<rparr>], m', 0) \<and>
    m_command m' = Some 4 \<and> m_seq m' = 1 \<and> m_deps m' ! 1 = ex_deps ! 1"
proof -
  let ?c = "\<lparr>wc_id = Some 1, wc_spans = [\<lparr>ws_start_key = Some [97], ws_end_key = Some [98]\<rparr>], wc_writing = Some 1\<rparr>"
  let ?d = "\<lparr>wi_command = Some ?c, wi_seq = Some 1, wi_deps = []\<rparr>"
  have wf: "length (m_deps ex_message) = MAX_DEPS" "\<forall>a c. [4 \<mapsto> blank_command] a = Some c \<longrightarrow> length (spans c) = TX_SIZE"
    by (simp_all add: ex_message_def zero_message_def ex_deps_def MAX_DEPS_def blank_command_def TX_SIZE_def)
  have "payload small_wire = Some ?d"
    by (simp add: payload_def complete_def small_wire_def field_def type_of_code_def)
  moreover have "decodable [4 \<mapsto> blank_command] (m_command ex_message) ?d"
    by (simp add: decodable_def ex_message_def span_ok_def key_ok_def c_chars_def KEY_SIZE_def TX_SIZE_def)
  ultimately obtain cmds' m' where r: "message_from_buffer [4 \<mapsto> blank_command] ex_message (Some small_wire) = Inr (cmds', m', 0)"
    "data_decoded [4 \<mapsto> blank_command] ex_message ?d cmds' m'"
    using decoding_exact [OF wf, of small_wire] by auto
  have "decoded_command ?c blank_command =
      blank_command\<lparr>spans := \<lparr>start_key = Key [97], end_key = Key [98]\<rparr> # replicate 99 zero_span, tx_size := 1, cmd_id := 1, writing := WRITE\<rparr>"
    by (simp add: decoded_command_def decoded_span_def c_chars_def field_def io_of_code_def blank_command_def drop_replicate)
  then show ?thesis using r by (auto simp: data_decoded_def ex_message_def field_def MAX_DEPS_def)
qed

end
