(* ===== verification/Epx_Sock.thy ===== *)
theory Epx_Sock
  imports Epx_Prelude
begin

text \<open>
  \<^verbatim>\<open>src/fbs_sock.c\<close>: a message socket over a byte stream. A message is encoded into a buffer and
  sent behind a header with its length; the receiver reads the header, then that many bytes, and
  decodes them. The byte stream (libdill) and the encoder and decoder are parameters.
\<close>

section \<open>The stream below and the socket\<close>

text \<open>
  \<open>st_send\<close> reports whether all bytes were taken; \<open>st_recv\<close> delivers exactly as many bytes as it
  is asked for or fails.
\<close>

record 'h stream_lib =
  st_send :: "'h \<Rightarrow> u8 list \<Rightarrow> 'h \<times> bool"
  st_recv :: "'h \<Rightarrow> nat \<Rightarrow> 'h \<times> u8 list option"

record fbs_sock =
  fs_u :: int
  fs_hdrlen :: nat
  fs_bigendian :: bool
  fs_deadline :: int
  fs_senderr :: bool
  fs_recverr :: bool
  fs_senddone :: bool
  fs_recvdone :: bool
  fs_replica_id :: u64
  fs_xreplica_id :: u64

section \<open>The header\<close>

text \<open>Byte \<open>i\<close> of the length, least significant first, goes to the slot the byte order names.\<close>

definition write_header :: "bool \<Rightarrow> nat \<Rightarrow> u64 \<Rightarrow> u8 list" where
  "write_header be hdrlen sz =
     fst (fold (\<lambda>i (buf, sz). (buf[(if be then hdrlen - i - 1 else i) := ucast (sz AND 0xff)], drop_bit 8 sz))
       [0..<hdrlen] (replicate hdrlen 0, sz))"

definition read_header :: "bool \<Rightarrow> nat \<Rightarrow> u8 list \<Rightarrow> u64" where
  "read_header be hdrlen buf =
     fold (\<lambda>i sz. push_bit 8 sz OR ucast (buf ! (if be then i else hdrlen - i - 1))) [0..<hdrlen] 0"

section \<open>Operations\<close>

text \<open>
  Only the first byte of the identifier goes over the stream, and only the first byte of
  \<^verbatim>\<open>xreplica_id\<close> is written. \<open>handle\<close> is what \<^verbatim>\<open>hmake\<close> returns.
\<close>

definition fbs_sock_attach :: "'h stream_lib \<Rightarrow> int \<Rightarrow> int \<Rightarrow> fbs_sock \<Rightarrow> 'h \<Rightarrow> int \<times> fbs_sock \<times> 'h" where
  "fbs_sock_attach L u handle s h =
     (let s1 = s\<lparr>fs_bigendian := True, fs_u := u, fs_senderr := False, fs_recverr := False,
        fs_senddone := False, fs_recvdone := False\<rparr> in
      case st_send L h [ucast (fs_replica_id s1)] of
        (h1, False) \<Rightarrow> (-1, s1, h1)
      | (h1, True) \<Rightarrow>
          (case st_recv L h1 1 of
             (h2, None) \<Rightarrow> (-1, s1, h2)
           | (h2, Some bs) \<Rightarrow>
               let s2 = s1\<lparr>fs_xreplica_id := (fs_xreplica_id s1 AND NOT 0xff) OR ucast (bs ! 0)\<rparr> in
               if handle < 0 then (-1, s2, h2) else (handle, s2, h2)))"

definition fbs_sock_remote_id :: "fbs_sock option \<Rightarrow> u64" where
  "fbs_sock_remote_id s = (case s of None \<Rightarrow> - 1 | Some s \<Rightarrow> fs_xreplica_id s)"

definition fbs_sock_detach :: "fbs_sock option \<Rightarrow> int" where
  "fbs_sock_detach s = (case s of None \<Rightarrow> -1
     | Some s \<Rightarrow> if fs_senderr s \<or> fs_recverr s then -1 else fs_u s)"

text \<open>\<open>rest\<close> are the buffers of the list behind the first, which the encoded message replaces.\<close>

definition fbs_sock_msendl :: "'h stream_lib \<Rightarrow> ('m \<Rightarrow> u8 list res) \<Rightarrow> 'm \<Rightarrow> u8 list list \<Rightarrow> fbs_sock \<Rightarrow> 'h \<Rightarrow>
    (int \<times> fbs_sock \<times> 'h) res" where
  "fbs_sock_msendl L encode msg rest s h =
     (if fs_senderr s then Inr (-1, s, h)
      else if fs_senddone s then Inr (-1, s, h)
      else and_then (encode msg) (\<lambda>bs.
        let sz = (\<Sum>b \<leftarrow> bs # rest. of_nat (length b)) in
        case st_send L h (write_header (fs_bigendian s) (fs_hdrlen s) sz @ concat (bs # rest)) of
          (h1, False) \<Rightarrow> Inr (-1, s\<lparr>fs_senderr := True\<rparr>, h1)
        | (h1, True) \<Rightarrow> Inr (0, s, h1)))"

text \<open>
  \<open>room\<close> is what is left of the stack for the array of \<^verbatim>\<open>sz\<close> bytes; the decoder returns its status
  and what it made of the message the caller passed.
\<close>

definition fbs_sock_mrecvl :: "'h stream_lib \<Rightarrow> ('m \<Rightarrow> u8 list \<Rightarrow> (int \<times> 'm) res) \<Rightarrow> nat \<Rightarrow> 'm \<Rightarrow> fbs_sock \<Rightarrow> 'h \<Rightarrow>
    (int \<times> 'm \<times> fbs_sock \<times> 'h) res" where
  "fbs_sock_mrecvl L decode room m s h =
     (if fs_recverr s then Inr (-1, m, s, h)
      else if fs_recvdone s then Inr (-1, m, s, h)
      else case st_recv L h (fs_hdrlen s) of
        (h1, None) \<Rightarrow> Inr (-1, m, s\<lparr>fs_recverr := True\<rparr>, h1)
      | (h1, Some hdr) \<Rightarrow>
          let sz = read_header (fs_bigendian s) (fs_hdrlen s) hdr in
          if room < unat sz then Inl Out_of_bounds
          else case st_recv L h1 (unat sz) of
            (h2, None) \<Rightarrow> Inr (-1, m, s\<lparr>fs_recverr := True\<rparr>, h2)
          | (h2, Some bs) \<Rightarrow>
              and_then (decode m bs) (\<lambda>(rc, m1).
                if rc < 0 then Inr (-1, m1, s, h2) else Inr (sint sz, m1, s, h2)))"

section \<open>The header round trip\<close>

text \<open>The bytes of a length, least significant first, and the length of such bytes.\<close>

fun len_bytes :: "nat \<Rightarrow> u64 \<Rightarrow> u8 list" where
  "len_bytes 0 sz = []"
| "len_bytes (Suc n) sz = ucast (sz AND 0xff) # len_bytes n (drop_bit 8 sz)"

fun bytes_len :: "u8 list \<Rightarrow> u64" where
  "bytes_len [] = 0"
| "bytes_len (b # bs) = push_bit 8 (bytes_len bs) OR ucast b"

lemma length_len_bytes [simp]: "length (len_bytes n sz) = n"
  by (induction n arbitrary: sz) simp_all

lemma bytes_len_bytes: "bytes_len (len_bytes n sz) = take_bit (8 * n) sz"
proof (induction n arbitrary: sz)
  case 0
  then show ?case by simp
next
  case (Suc n)
  have ff: "(0xff :: u64) = mask 8" by (simp add: mask_eq_exp_minus_1)
  show ?case
    by (rule bit_word_eqI)
      (auto simp: Suc bit_or_iff bit_push_bit_iff bit_take_bit_iff bit_drop_bit_eq bit_ucast_iff ff bit_and_iff bit_mask_iff)
qed

text \<open>The two loops of the code, in either byte order.\<close>

lemma write_header_bytes: "write_header be hdrlen sz = (if be then rev (len_bytes hdrlen sz) else len_bytes hdrlen sz)"
proof -
  define pos where "pos i = (if be then hdrlen - i - 1 else i)" for i
  have len: "length (fst (fold (\<lambda>i (buf, sz). (buf[pos i := ucast (sz AND 0xff)], drop_bit 8 sz)) is (buf, sz))) = length buf"
    for "is" and buf :: "u8 list" and sz :: u64
    by (induction "is" arbitrary: buf sz) simp_all
  have loop: "n \<le> hdrlen \<Longrightarrow> length buf = hdrlen \<Longrightarrow>
      (\<forall>i < hdrlen. fst (fold (\<lambda>i (buf, sz). (buf[pos i := ucast (sz AND 0xff)], drop_bit 8 sz))
        [hdrlen - n..<hdrlen] (buf, sz)) ! pos i =
        (if i < hdrlen - n then buf ! pos i else len_bytes n sz ! (i - (hdrlen - n))))" for n buf and sz :: u64
  proof (induction n arbitrary: buf sz)
    case 0
    then show ?case by simp
  next
    case (Suc n)
    let ?buf = "buf[pos (hdrlen - Suc n) := ucast (sz AND 0xff)]"
    have up: "[hdrlen - Suc n..<hdrlen] = (hdrlen - Suc n) # [hdrlen - n..<hdrlen]"
      using Suc.prems(1) by (metis Suc_diff_Suc Suc_le_lessD diff_less upt_conv_Cons zero_less_Suc less_le_trans le_0_eq not_less_eq_eq)
    show ?case
    proof (intro allI impI)
      fix i
      assume i: "i < hdrlen"
      have IH: "fst (fold (\<lambda>i (buf, sz). (buf[pos i := ucast (sz AND 0xff)], drop_bit 8 sz))
          [hdrlen - n..<hdrlen] (?buf, drop_bit 8 sz)) ! pos i =
          (if i < hdrlen - n then ?buf ! pos i else len_bytes n (drop_bit 8 sz) ! (i - (hdrlen - n)))"
        using Suc.IH [of ?buf "drop_bit 8 sz"] Suc.prems i by simp
      have "?buf ! pos i = (if i = hdrlen - Suc n then ucast (sz AND 0xff) else buf ! pos i)"
        using Suc.prems i by (auto simp: pos_def nth_list_update)
      then show "fst (fold (\<lambda>i (buf, sz). (buf[pos i := ucast (sz AND 0xff)], drop_bit 8 sz))
          [hdrlen - Suc n..<hdrlen] (buf, sz)) ! pos i =
          (if i < hdrlen - Suc n then buf ! pos i else len_bytes (Suc n) sz ! (i - (hdrlen - Suc n)))"
        unfolding up using IH Suc.prems by (auto simp: nth_Cons' Suc_diff_Suc)
    qed
  qed
  show ?thesis
  proof (rule nth_equalityI)
    show "length (write_header be hdrlen sz) = length (if be then rev (len_bytes hdrlen sz) else len_bytes hdrlen sz)"
      using len by (simp add: write_header_def pos_def)
    fix j
    assume "j < length (write_header be hdrlen sz)"
    then have j: "j < hdrlen" using len by (simp add: write_header_def pos_def)
    then have "pos j < hdrlen" "pos (pos j) = j" by (auto simp: pos_def)
    then show "write_header be hdrlen sz ! j = (if be then rev (len_bytes hdrlen sz) else len_bytes hdrlen sz) ! j"
      using loop [of hdrlen "replicate hdrlen 0" sz] j
      by (auto simp: write_header_def pos_def rev_nth)
  qed
qed

lemma read_header_bytes:
  assumes "length bs = hdrlen"
  shows "read_header be hdrlen (if be then rev bs else bs) = bytes_len bs"
proof -
  have "map (\<lambda>i. (if be then rev bs else bs) ! (if be then i else hdrlen - i - 1)) [0..<hdrlen] = rev bs"
    using assms by (intro nth_equalityI) (auto simp: rev_nth)
  moreover have "read_header be hdrlen buf =
      fold (\<lambda>b sz. push_bit 8 sz OR ucast b) (map (\<lambda>i. buf ! (if be then i else hdrlen - i - 1)) [0..<hdrlen]) 0" for buf
    by (simp add: read_header_def fold_map comp_def)
  moreover have "fold (\<lambda>b sz. push_bit 8 sz OR ucast b) (rev bs) 0 = bytes_len bs"
    by (induction bs) simp_all
  ultimately show ?thesis by simp
qed

lemma header_roundtrip:
  assumes "8 \<le> hdrlen"
  shows "read_header be hdrlen (write_header be hdrlen sz) = sz"
proof -
  have "take_bit (8 * hdrlen) sz = sz" using assms by (intro take_bit_word_eq_self) simp
  then show ?thesis
    using read_header_bytes [of "len_bytes hdrlen sz" hdrlen be] by (simp add: write_header_bytes bytes_len_bytes)
qed

lemma length_write_header [simp]: "length (write_header be hdrlen sz) = hdrlen"
  by (simp add: write_header_bytes)

section \<open>Properties\<close>

text \<open>What the stream library documents: \<open>written\<close> and \<open>pending\<close> are the bytes sent and to come.\<close>

definition send_laws :: "'h stream_lib \<Rightarrow> ('h \<Rightarrow> u8 list) \<Rightarrow> bool" where
  "send_laws L written \<longleftrightarrow> (\<forall>h bs. snd (st_send L h bs) \<longrightarrow> written (fst (st_send L h bs)) = written h @ bs)"

definition recv_laws :: "'h stream_lib \<Rightarrow> ('h \<Rightarrow> u8 list) \<Rightarrow> bool" where
  "recv_laws L pending \<longleftrightarrow> (\<forall>h n. n \<le> length (pending h) \<longrightarrow>
     snd (st_recv L h n) = Some (take n (pending h)) \<and> pending (fst (st_recv L h n)) = drop n (pending h))"

text \<open>
  A message that was sent comes out as it went in: the receiver reads exactly the header and
  the bytes of the message, decodes those, returns their number, and leaves what follows on the
  stream to the next message.
\<close>

lemma frame_travels:
  assumes "send_laws S written" and "recv_laws R pending"
    and "fbs_sock_msendl S encode msg [] s h = Inr (0, s', h')" and "encode msg = Inr bs"
    and "fs_hdrlen r = fs_hdrlen s" and "fs_bigendian r = fs_bigendian s" and "8 \<le> fs_hdrlen s"
    and "\<not> fs_recverr r" and "\<not> fs_recvdone r"
    and "written h' @ later = written h @ pending hr"
    and "length bs < 2 ^ 63" and "length bs \<le> room"
    and "decode m bs = Inr (rc, m')" and "0 \<le> rc"
  shows "\<exists>hr'. fbs_sock_mrecvl R decode room m r hr = Inr (int (length bs), m', r, hr') \<and> pending hr' = later"
proof -
  let ?bs = bs
  define sz :: u64 where "sz = of_nat (length ?bs)"
  let ?hdr = "write_header (fs_bigendian s) (fs_hdrlen s) sz"
  have "snd (st_send S h (?hdr @ ?bs))" "h' = fst (st_send S h (?hdr @ ?bs))"
    using assms(3,4) by (auto simp: fbs_sock_msendl_def Let_def sz_def split: if_splits prod.splits bool.splits)
  then have "written h' = written h @ ?hdr @ ?bs" using assms(1) by (simp add: send_laws_def)
  with assms(10) have p: "pending hr = ?hdr @ ?bs @ later" by simp
  have usz: "unat sz = length ?bs"
    unfolding sz_def using assms(11) by (simp add: unsigned_of_nat take_bit_nat_eq_self)
  have "sint sz = int (length ?bs)"
    unfolding sint_uint uint_nat usz by (rule signed_take_bit_int_eq_self) (use assms(11) in simp_all)
  obtain h1 where h1: "st_recv R hr (fs_hdrlen s) = (h1, Some ?hdr)" "pending h1 = ?bs @ later"
    using assms(2) p unfolding recv_laws_def
    by (cases "st_recv R hr (fs_hdrlen s)") (auto dest!: spec [of _ hr] spec [of _ "fs_hdrlen s"])
  obtain h2 where h2: "st_recv R h1 (length ?bs) = (h2, Some ?bs)" "pending h2 = later"
    using assms(2) h1(2) unfolding recv_laws_def
    by (cases "st_recv R h1 (length ?bs)") (auto dest!: spec [of _ h1] spec [of _ "length ?bs"])
  have "fbs_sock_mrecvl R decode room m r hr = Inr (int (length ?bs), m', r, h2)"
    using assms(5-9,12-14) h1(1) h2(1) \<open>sint sz = _\<close>
    by (simp add: fbs_sock_mrecvl_def Let_def header_roundtrip usz)
  then show ?thesis using h2(2) by blast
qed

text \<open>
  Errors stay: after a failed send or receive the socket refuses every later one without
  touching the stream, and cannot be detached.
\<close>

theorem stream_errors_sticky:
  "(fbs_sock_msendl L encode msg rest s h = Inr (-1, s', h') \<and> \<not> fs_senddone s \<longrightarrow>
      fs_senderr s' \<and> fbs_sock_detach (Some s') = -1 \<and>
      (\<forall>msg2 rest2 h2. fbs_sock_msendl L encode msg2 rest2 s' h2 = Inr (-1, s', h2))) \<and>
   (st_recv L h (fs_hdrlen s) = (h1, None) \<and> \<not> fs_recvdone s \<and> fbs_sock_mrecvl L decode room m s h = Inr (n, m', s', h') \<longrightarrow>
      fs_recverr s' \<and> fbs_sock_detach (Some s') = -1 \<and>
      (\<forall>room2 m2 h2. fbs_sock_mrecvl L decode room2 m2 s' h2 = Inr (-1, m2, s', h2)))"
proof (rule conjI; rule impI; elim conjE)
  assume "fbs_sock_msendl L encode msg rest s h = Inr (-1, s', h')" "\<not> fs_senddone s"
  then have "fs_senderr s'" 
    by (cases "encode msg") (auto simp: fbs_sock_msendl_def Let_def split: if_splits prod.splits bool.splits)
  then show "fs_senderr s' \<and> fbs_sock_detach (Some s') = -1 \<and>
      (\<forall>msg2 rest2 h2. fbs_sock_msendl L encode msg2 rest2 s' h2 = Inr (-1, s', h2))"
    by (simp add: fbs_sock_detach_def fbs_sock_msendl_def)
next
  assume "st_recv L h (fs_hdrlen s) = (h1, None)" "\<not> fs_recvdone s"
    "fbs_sock_mrecvl L decode room m s h = Inr (n, m', s', h')"
  then have "fs_recverr s'" by (auto simp: fbs_sock_mrecvl_def split: if_splits)
  then show "fs_recverr s' \<and> fbs_sock_detach (Some s') = -1 \<and>
      (\<forall>room2 m2 h2. fbs_sock_mrecvl L decode room2 m2 s' h2 = Inr (-1, m2, s', h2))"
    by (simp add: fbs_sock_detach_def fbs_sock_mrecvl_def)
qed

lemma low_byte: "ucast (ucast (x :: u64) :: u8) = x AND 0xff"
proof -
  have ff: "(0xff :: u64) = mask 8" by (simp add: mask_eq_exp_minus_1)
  show ?thesis by (rule bit_word_eqI) (auto simp: ff bit_ucast_iff bit_and_iff bit_mask_iff)
qed

lemma same_high_bytes: "(x AND NOT 0xff) OR (y AND 0xff) = y \<longleftrightarrow> x AND NOT 0xff = y AND NOT 0xff" for x y :: u64
proof
  assume "(x AND NOT 0xff) OR (y AND 0xff) = y"
  then have "((x AND NOT 0xff) OR (y AND 0xff)) AND NOT 0xff = y AND NOT 0xff" by simp
  then show "x AND NOT 0xff = y AND NOT 0xff" by (simp add: bit.conj_disj_distrib2 and.assoc)
next
  assume "x AND NOT 0xff = y AND NOT 0xff"
  then have "(x AND NOT 0xff) OR (y AND 0xff) = (y AND NOT 0xff) OR (y AND 0xff)" by simp
  also have "\<dots> = y AND (NOT 0xff OR 0xff)" by (simp only: bit.conj_disj_distrib)
  finally show "(x AND NOT 0xff) OR (y AND 0xff) = y" by simp
qed

lemma attach_reads:
  assumes P: "recv_laws L pending" and sent: "snd (st_send L h [ucast (fs_replica_id s)])"
    and p: "pending (fst (st_send L h [ucast (fs_replica_id s)])) = b # rest" and "0 \<le> handle"
  shows "\<exists>s' h'. fbs_sock_attach L u handle s h = (handle, s', h') \<and> pending h' = rest \<and>
    fbs_sock_remote_id (Some s') = (fs_xreplica_id s AND NOT 0xff) OR ucast b"
proof -
  obtain h1 where h1: "st_send L h [ucast (fs_replica_id s)] = (h1, True)" using sent by (metis prod.collapse)
  then have pend: "pending h1 = b # rest" using p by simp
  obtain o2 h2 where h2: "st_recv L h1 1 = (h2, o2)" by (metis surj_pair)
  have "o2 = Some [b] \<and> pending h2 = rest"
    using P pend h2 unfolding recv_laws_def by (auto dest!: spec [of _ h1] spec [of _ 1])
  then show ?thesis
    using h1 h2 assms(4) by (simp add: fbs_sock_attach_def fbs_sock_remote_id_def Let_def)
qed

text \<open>
  C34. Two sockets attach to the two ends of a connection, each sending the first byte of its own
  identifier and reading the first byte that the other one sent. Both succeed, leave what follows to the
  frames, and each then gives for its peer the bytes it had in \<^verbatim>\<open>xreplica_id\<close> before, with the lowest replaced by
  the lowest of the peer's identifier. That is the peer's identifier exactly when the upper seven bytes
  were those of the peer's already: with a zeroed \<^verbatim>\<open>xreplica_id\<close>, for identifiers below 256.
\<close>

theorem attach_learns_peer:
  assumes "send_laws L written" and P: "recv_laws L pending" and handles: "0 \<le> ha" "0 \<le> hb"
    and sent: "snd (st_send L ca [ucast (fs_replica_id a)])" "snd (st_send L cb [ucast (fs_replica_id b)])"
    and link: "written (fst (st_send L ca [ucast (fs_replica_id a)])) @ more_a =
        written ca @ pending (fst (st_send L cb [ucast (fs_replica_id b)]))"
      "written (fst (st_send L cb [ucast (fs_replica_id b)])) @ more_b =
        written cb @ pending (fst (st_send L ca [ucast (fs_replica_id a)]))"
  shows "\<exists>a' b' ca' cb'. fbs_sock_attach L ua ha a ca = (ha, a', ca') \<and> fbs_sock_attach L ub hb b cb = (hb, b', cb') \<and>
    pending ca' = more_b \<and> pending cb' = more_a \<and>
    fbs_sock_remote_id (Some a') = (fs_xreplica_id a AND NOT 0xff) OR (fs_replica_id b AND 0xff) \<and>
    fbs_sock_remote_id (Some b') = (fs_xreplica_id b AND NOT 0xff) OR (fs_replica_id a AND 0xff) \<and>
    (fbs_sock_remote_id (Some a') = fs_replica_id b \<longleftrightarrow> fs_xreplica_id a AND NOT 0xff = fs_replica_id b AND NOT 0xff) \<and>
    (fbs_sock_remote_id (Some b') = fs_replica_id a \<longleftrightarrow> fs_xreplica_id b AND NOT 0xff = fs_replica_id a AND NOT 0xff)"
proof -
  have w: "written (fst (st_send L ca [ucast (fs_replica_id a)])) = written ca @ [ucast (fs_replica_id a)]"
    "written (fst (st_send L cb [ucast (fs_replica_id b)])) = written cb @ [ucast (fs_replica_id b)]"
    using assms(1) sent by (simp_all add: send_laws_def)
  have p: "pending (fst (st_send L cb [ucast (fs_replica_id b)])) = ucast (fs_replica_id a) # more_a"
    "pending (fst (st_send L ca [ucast (fs_replica_id a)])) = ucast (fs_replica_id b) # more_b"
    using link unfolding w by simp_all
  from attach_reads [OF P sent(1) p(2) handles(1), of ua] attach_reads [OF P sent(2) p(1) handles(2), of ub]
  show ?thesis unfolding low_byte by (metis same_high_bytes)
qed

section \<open>A concrete stream\<close>

text \<open>The bytes written so far and the bytes to come.\<close>

definition list_stream :: "(u8 list \<times> u8 list) stream_lib" where
  "list_stream = \<lparr>st_send = (\<lambda>(w, p) bs. ((w @ bs, p), True)),
     st_recv = (\<lambda>(w, p) n. if n \<le> length p then ((w, drop n p), Some (take n p)) else ((w, p), None))\<rparr>"

definition ex_sock :: fbs_sock where
  "ex_sock = \<lparr>fs_u = 3, fs_hdrlen = 16, fs_bigendian = True, fs_deadline = -1, fs_senderr = False, fs_recverr = False,
     fs_senddone = False, fs_recvdone = False, fs_replica_id = 1, fs_xreplica_id = 0\<rparr>"

lemma list_stream_laws: "send_laws list_stream fst" "recv_laws list_stream snd"
  by (auto simp: send_laws_def recv_laws_def list_stream_def)

theorem stream_errors_sticky_witness:
  "\<exists>s'. fbs_sock_mrecvl list_stream (\<lambda>m bs. Inr (0, bs)) 100 [] ex_sock ([], [1, 2]) = Inr (-1, [], s', ([], [1, 2])) \<and>
    fbs_sock_detach (Some s') = -1"
proof -
  let ?s = "ex_sock\<lparr>fs_recverr := True\<rparr>"
  have r: "fbs_sock_mrecvl list_stream (\<lambda>m bs. Inr (0, bs)) 100 [] ex_sock ([], [1, 2]) = Inr (-1, [], ?s, ([], [1, 2]))"
    by (simp add: fbs_sock_mrecvl_def ex_sock_def list_stream_def)
  moreover have "st_recv list_stream ([], [1, 2]) (fs_hdrlen ex_sock) = (([], [1, 2]), None)" "\<not> fs_recvdone ex_sock"
    by (simp_all add: ex_sock_def list_stream_def)
  ultimately have "fbs_sock_detach (Some ?s) = -1"
    using stream_errors_sticky [where L = list_stream and encode = "Inr" and msg = "[]" and rest = "[]" and s = ex_sock
        and h = "([], [1, 2])" and s' = ?s and h' = "([], [1, 2])" and ?h1.0 = "([], [1, 2])"
        and decode = "\<lambda>m bs. Inr (0, bs)" and room = 100 and m = "[]" and n = "-1" and m' = "[]"] by blast
  with r show ?thesis by blast
qed

theorem attach_learns_peer_witness:
  "\<exists>a' b' ca' cb'. fbs_sock_attach list_stream 3 11 ex_sock ([], [2]) = (11, a', ca') \<and>
    fbs_sock_attach list_stream 4 12 (ex_sock\<lparr>fs_replica_id := 2\<rparr>) ([], [1]) = (12, b', cb') \<and>
    fbs_sock_remote_id (Some a') = 2 \<and> fbs_sock_remote_id (Some b') = 1"
  using attach_learns_peer [OF list_stream_laws, of 11 12 "([], [2])" ex_sock "([], [1])" "ex_sock\<lparr>fs_replica_id := 2\<rparr>" "[]" "[]" 3 4]
  by (simp add: ex_sock_def list_stream_def) blast

end
