(* ===== verification/Epx_Transport.thy ===== *)
theory Epx_Transport
  imports Epx_Sock Epx_Wire_Witness
begin

text \<open>
  A node connection as \<^verbatim>\<open>init_fbs\<close> in \<^verbatim>\<open>src/io.c\<close> sets it up: the message socket of
  \<^verbatim>\<open>src/fbs_sock.c\<close> with \<open>message_to_buffer\<close> and \<open>message_from_buffer\<close> as encoder and decoder. The
  layout of a table in bytes is the generated code's, a pair of parameters.
\<close>

section \<open>Encoder and decoder\<close>

definition encode_message :: "(wire_message \<Rightarrow> u8 list) \<Rightarrow> cmds \<times> message \<Rightarrow> u8 list res" where
  "encode_message finalize = (\<lambda>(cmds, m). and_then (message_to_buffer cmds m) (\<lambda>w. Inr (finalize w)))"

definition decode_message :: "(u8 list \<Rightarrow> wire_message option) \<Rightarrow> cmds \<times> message \<Rightarrow> u8 list \<Rightarrow> (int \<times> cmds \<times> message) res" where
  "decode_message as_root = (\<lambda>(cmds, m) bs.
     and_then (message_from_buffer cmds m (as_root bs)) (\<lambda>(cmds', m', rc). Inr (rc, cmds', m')))"

section \<open>Properties\<close>

text \<open>
  A message that one node sends arrives at the other as its wire form says: the socket call
  returns the length of the encoding, the message is the sender's as far as the schema carries
  it, with the command in the receiver's memory, and the bytes of the next message stay on the
  stream.
\<close>

lemma message_travels:
  assumes "message_fits m" and "m_command m = Some b" and "cmds b = Some c" and "command_fits c"
    and "m_type m \<noteq> PRE_ACCEPT_OK"
    and "m_command m0 = Some a" and "cmds0 a = Some c0" and "length (spans c0) = TX_SIZE"
    and "length (m_deps m0) = MAX_DEPS"
    and S: "send_laws S written" and R: "recv_laws R pending"
    and fin: "\<forall>w. message_to_buffer cmds m = Inr w \<longrightarrow> as_root (finalize w) = Some w \<and>
      0 < length (finalize w) \<and> length (finalize w) < 2 ^ 63 \<and> length (finalize w) \<le> room"
    and snt: "fbs_sock_msendl S (encode_message finalize) (cmds, m) [] s h = Inr (0, s', h')"
    and "fs_hdrlen r = fs_hdrlen s" and "fs_bigendian r = fs_bigendian s" and "8 \<le> fs_hdrlen s"
    and "\<not> fs_recverr r" and "\<not> fs_recvdone r" and "written h' @ later = written h @ pending hr"
  shows "\<exists>n hr'. fbs_sock_mrecvl R (decode_message as_root) room (cmds0, m0) r hr =
      Inr (n, (cmds0(a \<mapsto> received_command c c0), received_message m m0), r, hr') \<and> 0 < n \<and> pending hr' = later"
proof -
  obtain w where w: "message_to_buffer cmds m = Inr w"
      "message_from_buffer cmds0 m0 (Some w) = Inr (cmds0(a \<mapsto> received_command c c0), received_message m m0, 0)"
    using message_read [of m cmds c m0 a cmds0 c0] assms(1-9) by auto
  have enc: "encode_message finalize (cmds, m) = Inr (finalize w)"
    by (simp add: encode_message_def w)
  have dec: "decode_message as_root (cmds0, m0) (finalize w) =
      Inr (0, cmds0(a \<mapsto> received_command c c0), received_message m m0)"
    using fin w(1) by (simp add: decode_message_def w(2))
  have len: "length (finalize w) < 2 ^ 63" "length (finalize w) \<le> room" "0 < length (finalize w)"
    using fin w(1) by simp_all
  have "\<exists>hr'. fbs_sock_mrecvl R (decode_message as_root) room (cmds0, m0) r hr =
      Inr (int (length (finalize w)), (cmds0(a \<mapsto> received_command c c0), received_message m m0), r, hr') \<and>
      pending hr' = later"
    by (intro frame_travels [where pending = pending and written = written and ?rc = 0])
      (rule S R snt assms(14-19) enc dec len | simp)+
  with len(3) show ?thesis by fastforce
qed

text \<open>
  C35. A malformed message is delivered: \<open>message_from_buffer\<close> reports failure with 1, but a receive
  gives up only on a negative status. A frame without a table, an identifier or a type counts as
  received, and the caller's message keeps the type and the uninitialised command it was
  allocated with.
\<close>

theorem malformed_message_delivered:
  assumes "\<not> fs_recverr s" and "\<not> fs_recvdone s" and "st_recv L h (fs_hdrlen s) = (h1, Some hdr)"
    and "st_recv L h1 (unat (read_header (fs_bigendian s) (fs_hdrlen s) hdr)) = (h2, Some bs)"
    and "unat (read_header (fs_bigendian s) (fs_hdrlen s) hdr) \<le> room"
    and "\<forall>w. as_root bs = Some w \<longrightarrow> wm_instance_id w = None \<or> wm_type w = None"
  shows "\<exists>m'. fbs_sock_mrecvl L (decode_message as_root) room (cmds, m) s h =
      Inr (sint (read_header (fs_bigendian s) (fs_hdrlen s) hdr), (cmds, m'), s, h2) \<and>
    m_type m' = m_type m \<and> m_command m' = m_command m \<and> m_deps m' = m_deps m"
proof -
  have "\<exists>m'. message_from_buffer cmds m (as_root bs) = Inr (cmds, m', 1) \<and>
      m_type m' = m_type m \<and> m_command m' = m_command m \<and> m_deps m' = m_deps m"
    using assms(6) by (cases "as_root bs") (auto simp: message_from_buffer_def Let_def split: option.split)
  then show ?thesis
    using assms(1-5) by (auto simp: fbs_sock_mrecvl_def decode_message_def Let_def)
qed

section \<open>Two nodes\<close>

definition ex_wire :: wire_message where
  "ex_wire = (case message_to_buffer [4 \<mapsto> ex_command] ex_message of Inr w \<Rightarrow> w)"

definition ex_finalize :: "wire_message \<Rightarrow> u8 list" where
  "ex_finalize w = (if w = ex_wire then [1] else [])"

definition ex_as_root :: "u8 list \<Rightarrow> wire_message option" where
  "ex_as_root bs = (if bs = [1] then Some ex_wire else None)"

lemma ex_encoded:
  "encode_message ex_finalize ([4 \<mapsto> ex_command], ex_message) = Inr [1]"
  "message_to_buffer [4 \<mapsto> ex_command] ex_message = Inr ex_wire"
proof -
  obtain w where w: "message_to_buffer [4 \<mapsto> ex_command] ex_message = Inr w"
    using message_read [of ex_message "[4 \<mapsto> ex_command]" ex_command "zero_message\<lparr>m_command := Some 8\<rparr>" 8 "[8 \<mapsto> blank_command]" blank_command]
      ex_message_fits ex_command_fits
    by (auto simp: ex_message_def blank_command_def TX_SIZE_def zero_message_def zero_deps_def)
  then have ex: "w = ex_wire" by (simp add: ex_wire_def)
  with w show "message_to_buffer [4 \<mapsto> ex_command] ex_message = Inr ex_wire" by simp
  then show "encode_message ex_finalize ([4 \<mapsto> ex_command], ex_message) = Inr [1]"
    by (simp add: encode_message_def ex_finalize_def)
qed

lemma ex_sent:
  "fbs_sock_msendl list_stream (encode_message ex_finalize) ([4 \<mapsto> ex_command], ex_message) [] ex_sock ([], []) =
    Inr (0, ex_sock, (write_header True 16 1 @ [1], []))"
  by (simp add: fbs_sock_msendl_def ex_encoded) (simp add: ex_sock_def list_stream_def)

lemma ex_laid_out:
  "\<forall>w. message_to_buffer [4 \<mapsto> ex_command] ex_message = Inr w \<longrightarrow> ex_as_root (ex_finalize w) = Some w \<and>
    0 < length (ex_finalize w) \<and> length (ex_finalize w) < 2 ^ 63 \<and> length (ex_finalize w) \<le> 64"
  by (simp add: ex_encoded ex_as_root_def ex_finalize_def)

theorem malformed_message_delivered_witness:
  "\<exists>m'. fbs_sock_mrecvl list_stream (decode_message (\<lambda>bs. None)) 64 (Map.empty, zero_message) (ex_sock\<lparr>fs_hdrlen := 1\<rparr>)
      ([], [2, 7, 8]) = Inr (2, (Map.empty, m'), ex_sock\<lparr>fs_hdrlen := 1\<rparr>, ([], [])) \<and> m_command m' = None"
proof -
  have "read_header True 1 [2] = 2" by (simp add: read_header_def)
  then show ?thesis
    using malformed_message_delivered [of "ex_sock\<lparr>fs_hdrlen := 1\<rparr>" list_stream "([], [2, 7, 8])" "([], [7, 8])" "[2]"
        "([], [])" "[7, 8]" 64 "\<lambda>bs. None" Map.empty zero_message]
    by (simp add: ex_sock_def list_stream_def zero_message_def) blast
qed

end
