(* ===== verification/Epx_Io.thy ===== *)
theory Epx_Io
  imports Epx_Chan Epx_Sock Epx_Instance
begin

text \<open>
  \<^verbatim>\<open>src/io.c\<close>, \<^verbatim>\<open>src/io.h\<close>, \<open>destroy_message\<close> of \<^verbatim>\<open>src/message.c\<close> and \<open>new_node\<close> of
  \<^verbatim>\<open>src/node.c\<close>: the connections of a node, the quorum it prefers, and how a message of the
  replica is counted, addressed and queued for its receivers. A message is an address in a heap
  that all its queues share.
\<close>

section \<open>Connections and nodes\<close>

datatype connection_status = DEAD | CONNECTING | ALIVE

datatype protocol = TCP | TLS | UDP

record client =
  cl_chan :: "int \<times> int"
  cl_expires :: int

text \<open>
  The addresses are those of libdill; \<open>'r\<close> is a ring of Concurrency Kit. \<open>co_n\<close> tells whether the
  pointer to the node is set, \<open>co_chan_write\<close> which of the replica's channels \<^verbatim>\<open>chan_write\<close> is.
\<close>

datatype inlet = Chan_step | Chan_propose

record ('a, 'r) connection =
  co_status :: connection_status
  co_xreplica_id :: u64
  co_handle :: int
  co_prot_handle :: int
  co_n :: bool
  co_client :: client
  co_fd :: int
  co_latency :: u64
  co_addr :: 'a
  co_back_off :: int
  co_error :: int
  co_p :: protocol
  co_fbs :: fbs_sock
  co_chan_read :: "'r chan"
  co_chan_write :: "inlet option"

type_synonym msgs = "nat \<Rightarrow> message option"

record ('a, 'r) node_io =
  nd_node_id :: u64
  nd_running :: bool
  nd_nodes :: "('a, 'r) connection list"
  nd_quorum :: "u64 list"
  nd_msgs :: msgs

text \<open>What the functions below use of the libraries: the rings, \<^verbatim>\<open>ipaddr_equal\<close>, and the result of \<^verbatim>\<open>pthread_create\<close>.\<close>

record ('a, 'r) io_env =
  io_ring :: "(nat, 'r) ring_lib"
  io_ip_equal :: "'a \<Rightarrow> 'a \<Rightarrow> bool"
  io_spawn :: int

definition MAX_LATENCY :: u64 where [const_defs]: "MAX_LATENCY = 60"

definition is_conn_status :: "('a, 'r) connection \<Rightarrow> connection_status \<Rightarrow> bool" where
  "is_conn_status c t \<longleftrightarrow> co_status c = t"

definition set_conn_status :: "connection_status \<Rightarrow> ('a, 'r) connection \<Rightarrow> ('a, 'r) connection" where
  "set_conn_status t c = c\<lparr>co_status := t\<rparr>"

definition slow :: "('a, 'r) connection \<Rightarrow> bool" where
  "slow c \<longleftrightarrow> co_latency c \<ge> MAX_LATENCY"

definition expired :: "int \<Rightarrow> ('a, 'r) connection \<Rightarrow> bool" where
  "expired now c \<longleftrightarrow> fs_deadline (co_fbs c) < now"

definition run_conn :: "('a, 'r) connection \<Rightarrow> ('a, 'r) connection \<times> int" where
  "run_conn c = (set_conn_status ALIVE c, 0)"

definition destroy_node_connection :: "('a, 'r) connection \<Rightarrow> ('a, 'r) connection" where
  "destroy_node_connection c = set_conn_status DEAD c"

text \<open>\<open>nid\<close> is the identifier of the node the connection points to.\<close>

definition init_fbs :: "('a, 'r) io_env \<Rightarrow> u64 \<Rightarrow> ('a, 'r) connection \<Rightarrow> ('a, 'r) connection" where
  "init_fbs E nid c =
     (let f = (co_fbs c)\<lparr>fs_deadline := -1, fs_hdrlen := 16\<rparr>;
          f' = (if co_n c then f\<lparr>fs_replica_id := nid\<rparr> else f) in
      c\<lparr>co_fbs := f', co_latency := 0, co_back_off := 1, co_p := TCP,
        co_chan_read := fst (chan_init (io_ring E) (co_chan_read c))\<rparr>)"

section \<open>The preferred quorum\<close>

text \<open>
  \<^verbatim>\<open>quorum[qi -1]\<close> is read when the connection is faster than the one at \<^verbatim>\<open>qi\<close>; for \<open>qi = 0\<close> that is in
  front of the array.
\<close>

definition quorum_slot :: "('a, 'r) connection list \<Rightarrow> ('a, 'r) connection \<Rightarrow> nat \<Rightarrow> u64 list \<Rightarrow> u64 list res" where
  "quorum_slot ns c qi q =
     and_then (aget q qi) (\<lambda>k.
     and_then (aget ns (unat k)) (\<lambda>at.
       if co_latency c < co_latency at then
         (case qi of
            0 \<Rightarrow> Inl Out_of_bounds
          | Suc p \<Rightarrow>
              and_then (aget q p) (\<lambda>k'.
              and_then (aget ns (unat k')) (\<lambda>before.
                if co_latency c > co_latency before then aset q qi (co_xreplica_id c) else Inr q)))
       else Inr q))"

definition update_quorum :: "u64 list \<Rightarrow> ('a, 'r) connection list \<Rightarrow> u64 list res" where
  "update_quorum q ns =
     for_each [0..<N] (\<lambda>ci q.
       and_then (aget ns ci) (\<lambda>c.
         if co_status c \<noteq> ALIVE then Inr q else for_each [0..<N] (quorum_slot ns c) q)) q"

section \<open>Connecting\<close>

definition get_conn :: "('a, 'r) io_env \<Rightarrow> ('a, 'r) node_io \<Rightarrow> 'a \<Rightarrow> nat option" where
  "get_conn E n addr = find_index (\<lambda>c. io_ip_equal E (co_addr c) addr) (nd_nodes n)"

definition node_connect :: "('a, 'r) io_env \<Rightarrow> 'a \<Rightarrow> int \<Rightarrow> ('a, 'r) node_io \<Rightarrow> ('a, 'r) node_io \<times> int" where
  "node_connect E addr fd n =
     (case get_conn E n addr of
        None \<Rightarrow> (n, -1)
      | Some k \<Rightarrow>
          let c = set_conn_status CONNECTING (nd_nodes n ! k) in
          (n\<lparr>nd_nodes := (nd_nodes n)[k := c\<lparr>co_n := True, co_fd := fd\<rparr>]\<rparr>, io_spawn E))"

text \<open>
  \<^verbatim>\<open>new_node\<close>: everything \<^verbatim>\<open>calloc\<close> leaves zero, then the addresses (\<open>local_addr\<close> for the node's own
  slot), then the connections of \<^verbatim>\<open>join\<close>. \<open>zero\<close> is the zeroed connection.
\<close>

definition new_node :: "('a, 'r) io_env \<Rightarrow> ('a, 'r) connection \<Rightarrow> u64 \<Rightarrow> 'a \<Rightarrow> 'a list \<Rightarrow> u64 list \<Rightarrow> ('a, 'r) node_io res" where
  "new_node E zero nid local_addr remotes join =
     (let n = \<lparr>nd_node_id = nid, nd_running = False,
        nd_nodes = map (\<lambda>i. zero\<lparr>co_addr := if i = unat nid then local_addr else remotes ! i\<rparr>) [0..<N],
        nd_quorum = replicate N 0, nd_msgs = Map.empty\<rparr> in
      for_each [0..<N] (\<lambda>j n.
        and_then (aget join j) (\<lambda>k.
          if k = 0 then Inr n
          else and_then (aget (nd_nodes n) (unat k)) (\<lambda>c. Inr (fst (node_connect E (co_addr c) 0 n))))) n)"

section \<open>Messages in flight\<close>

text \<open>A counter of zero is left alone; the message is freed when the counter gets there.\<close>

definition destroy_message :: "nat \<Rightarrow> msgs \<Rightarrow> msgs res" where
  "destroy_message a h =
     and_then (load h a) (\<lambda>m.
       if m_ref m = 0 then Inr h
       else if m_ref m - 1 = 0 then Inr (h(a := None))
       else Inr (h(a \<mapsto> m\<lparr>m_ref := m_ref m - 1\<rparr>)))"

definition set_msg :: "nat \<Rightarrow> (message \<Rightarrow> message) \<Rightarrow> ('a, 'r) node_io \<Rightarrow> ('a, 'r) node_io res" where
  "set_msg a f n = and_then (load (nd_msgs n) a) (\<lambda>m. Inr (n\<lparr>nd_msgs := (nd_msgs n)(a \<mapsto> f m)\<rparr>))"

text \<open>\<open>ret\<close> is what \<^verbatim>\<open>msend\<close> returns for the message.\<close>

definition write_message :: "int \<Rightarrow> nat \<Rightarrow> ('a, 'r) connection \<times> msgs \<Rightarrow> (int \<times> ('a, 'r) connection \<times> msgs) res" where
  "write_message ret a = (\<lambda>(c, h).
     and_then (load h a) (\<lambda>_.
     and_then (destroy_message a h) (\<lambda>h'.
       Inr (ret, if ret \<noteq> 0 then set_conn_status DEAD c else c, h'))))"

definition connection_write :: "('a, 'r) io_env \<Rightarrow> nat \<Rightarrow> ('a, 'r) node_io \<Rightarrow> (int \<times> ('a, 'r) node_io) res" where
  "connection_write E a n =
     and_then (load (nd_msgs n) a) (\<lambda>m.
     and_then (aget (nd_nodes n) (unat (m_to m))) (\<lambda>c.
       case chan_send_spsc (io_ring E) (co_chan_read c) a of
         (False, ch) \<Rightarrow> Inr (-1, n\<lparr>nd_nodes := (nd_nodes n)[unat (m_to m) := c\<lparr>co_chan_read := ch\<rparr>]\<rparr>)
       | (True, ch) \<Rightarrow>
           let n1 = n\<lparr>nd_nodes := (nd_nodes n)[unat (m_to m) := c\<lparr>co_chan_read := ch\<rparr>]\<rparr> in
           Inr (0, if is_conn_status c DEAD then fst (node_connect E (co_addr c) 0 n1) else n1)))"

text \<open>The loop of every broadcast: address the message, queue it, stop at the first failure.\<close>

fun send_each :: "('a, 'r) io_env \<Rightarrow> nat \<Rightarrow> u64 list \<Rightarrow> ('a, 'r) node_io \<Rightarrow> (int \<times> ('a, 'r) node_io) res" where
  "send_each E a [] n = Inr (0, n)"
| "send_each E a (q # qs) n =
     and_then (set_msg a (\<lambda>m. m\<lparr>m_to := q\<rparr>) n) (\<lambda>n1.
     and_then (connection_write E a n1) (\<lambda>(rc, n2).
       if rc \<noteq> 0 then Inr (-1, n2) else send_each E a qs n2))"

text \<open>The receivers of a \<open>PREPARE\<close>: the nodes after the own one, around the ring.\<close>

fun prepare_targets :: "u64 \<Rightarrow> u64 \<Rightarrow> nat \<Rightarrow> u64 list" where
  "prepare_targets nid q 0 = []"
| "prepare_targets nid q (Suc s) =
     (let q' = (q + 1) mod of_nat N in if q' = nid then [] else q' # prepare_targets nid q' s)"

definition broadcast_prepare :: "('a, 'r) io_env \<Rightarrow> nat \<Rightarrow> ('a, 'r) node_io \<Rightarrow> (int \<times> ('a, 'r) node_io) res" where
  "broadcast_prepare E a n =
     and_then (set_msg a (\<lambda>m. m\<lparr>m_ref := of_nat (N - 1)\<rparr>) n)
       (\<lambda>n1. send_each E a (prepare_targets (nd_node_id n) (nd_node_id n) (N - 1)) n1)"

definition broadcast_pre_accept :: "('a, 'r) io_env \<Rightarrow> nat \<Rightarrow> ('a, 'r) node_io \<Rightarrow> (int \<times> ('a, 'r) node_io) res" where
  "broadcast_pre_accept E a n =
     and_then (set_msg a (\<lambda>m. m\<lparr>m_ref := of_nat (N - 1)\<rparr>) n) (send_each E a (take (N - 1) (nd_quorum n)))"

definition broadcast_try_pre_accept :: "('a, 'r) io_env \<Rightarrow> nat \<Rightarrow> ('a, 'r) node_io \<Rightarrow> (int \<times> ('a, 'r) node_io) res" where
  "broadcast_try_pre_accept E a n =
     and_then (set_msg a (\<lambda>m. m\<lparr>m_ref := of_nat (N - 1)\<rparr>) n) (send_each E a (map of_nat [0..<N - 1]))"

definition broadcast_commit :: "('a, 'r) io_env \<Rightarrow> nat \<Rightarrow> ('a, 'r) node_io \<Rightarrow> (int \<times> ('a, 'r) node_io) res" where
  "broadcast_commit E a n =
     and_then (set_msg a (\<lambda>m. m\<lparr>m_ref := of_nat N\<rparr>) n) (send_each E a (take N (nd_quorum n)))"

text \<open>One round of \<^verbatim>\<open>io_reader\<close> on a message of the replica; a result other than 0 ends the coroutine.\<close>

definition io_reader :: "('a, 'r) io_env \<Rightarrow> nat \<Rightarrow> ('a, 'r) node_io \<Rightarrow> (int \<times> ('a, 'r) node_io) res" where
  "io_reader E a n =
     and_then (set_msg a (\<lambda>m. m\<lparr>m_ref := 1, m_to := m_from m, m_from := nd_node_id n\<rparr>) n) (\<lambda>n1.
     and_then (load (nd_msgs n1) a) (\<lambda>m.
       case m_type m of
         PREPARE \<Rightarrow> broadcast_prepare E a n1
       | ACCEPT \<Rightarrow> and_then (update_quorum (nd_quorum n1) (nd_nodes n1)) (\<lambda>q. broadcast_pre_accept E a (n1\<lparr>nd_quorum := q\<rparr>))
       | PRE_ACCEPT \<Rightarrow> and_then (update_quorum (nd_quorum n1) (nd_nodes n1)) (\<lambda>q. broadcast_pre_accept E a (n1\<lparr>nd_quorum := q\<rparr>))
       | TRY_PRE_ACCEPT \<Rightarrow> broadcast_try_pre_accept E a n1
       | COMMIT \<Rightarrow> broadcast_commit E a n1
       | _ \<Rightarrow> connection_write E a n1))"

text \<open>One round of \<^verbatim>\<open>reader\<close> on connection \<open>k\<close>: the first queued message is sent and released.\<close>

definition conn_reader :: "('a, 'r) io_env \<Rightarrow> int \<Rightarrow> nat \<Rightarrow> ('a, 'r) node_io \<Rightarrow> (bool \<times> ('a, 'r) node_io) res" where
  "conn_reader E ret k n =
     and_then (aget (nd_nodes n) k) (\<lambda>c.
       if co_status c \<noteq> ALIVE then Inr (False, n)
       else case chan_recv_spsc (io_ring E) (co_chan_read c) None of
         (False, _, ch) \<Rightarrow> Inr (True, n\<lparr>nd_nodes := (nd_nodes n)[k := c\<lparr>co_chan_read := ch\<rparr>]\<rparr>)
       | (True, data, ch) \<Rightarrow>
           and_then (deref data) (\<lambda>a.
           and_then (write_message ret a (c\<lparr>co_chan_read := ch\<rparr>, nd_msgs n)) (\<lambda>(rc, c', h).
             Inr (rc = 0, n\<lparr>nd_nodes := (nd_nodes n)[k := c'], nd_msgs := h\<rparr>))))"

end
