(* ===== verification/Epx_Io_Laws.thy ===== *)
theory Epx_Io_Laws
  imports Epx_Io
begin

text \<open>
  What the broadcasts of \<^verbatim>\<open>src/io.c\<close> queue, how the counter of a message relates to its copies,
  and when \<open>update_quorum\<close> leaves its array.
\<close>

section \<open>Queues of a node\<close>

definition queued :: "('r \<Rightarrow> nat list) \<Rightarrow> ('a, 'r) node_io \<Rightarrow> nat \<Rightarrow> nat list" where
  "queued items n k = items (cn_ring (co_chan_read (nd_nodes n ! k)))"

definition node_ok :: "('a, 'r) node_io \<Rightarrow> bool" where
  "node_ok n \<longleftrightarrow> length (nd_nodes n) = N \<and> length (nd_quorum n) = N"

lemma find_index_less: "find_index P xs = Some k \<Longrightarrow> k < length xs"
  by (simp add: find_index_Some)

text \<open>Connecting changes the status and the descriptor of a connection, no queue and no message.\<close>

lemma node_connect_frame:
  "length (nd_nodes (fst (node_connect E addr fd n))) = length (nd_nodes n)"
  "nd_quorum (fst (node_connect E addr fd n)) = nd_quorum n"
  "nd_msgs (fst (node_connect E addr fd n)) = nd_msgs n"
  "nd_node_id (fst (node_connect E addr fd n)) = nd_node_id n"
  "queued items (fst (node_connect E addr fd n)) k = queued items n k"
  by (auto simp: node_connect_def queued_def set_conn_status_def Let_def nth_list_update get_conn_def
      split: option.split dest: find_index_less)

lemma ring_send_room:
  assumes "ring_laws R items" and "Suc (length (items (cn_ring c))) < CAPACITY"
  shows "\<exists>ch. ring_send R m c a = (True, ch) \<and> items (cn_ring ch) = items (cn_ring c) @ [a]"
proof -
  obtain ok r where e: "rg_enqueue R m (cn_ring c) a = (ok, r)" by force
  have "rg_enqueue R m (cn_ring c) a = (True, snd (rg_enqueue R m (cn_ring c) a)) \<and>
      items (snd (rg_enqueue R m (cn_ring c) a)) = items (cn_ring c) @ [a]"
    using assms unfolding ring_laws_def by metis
  then show ?thesis by (simp add: ring_send_def e)
qed

lemma connection_write_room:
  assumes "ring_laws (io_ring E) items" and "node_ok n" and "nd_msgs n a = Some m" and "unat (m_to m) < N"
    and "Suc (length (queued items n (unat (m_to m)))) < CAPACITY"
  shows "\<exists>n'. connection_write E a n = Inr (0, n') \<and> node_ok n' \<and> nd_msgs n' = nd_msgs n \<and> nd_quorum n' = nd_quorum n \<and>
    (\<forall>k < N. queued items n' k = queued items n k @ (if k = unat (m_to m) then [a] else []))"
proof -
  let ?t = "unat (m_to m)" and ?c = "nd_nodes n ! unat (m_to m)"
  obtain ch where ch: "chan_send_spsc (io_ring E) (co_chan_read ?c) a = (True, ch)"
      "items (cn_ring ch) = items (cn_ring (co_chan_read ?c)) @ [a]"
    using ring_send_room [OF assms(1), of "co_chan_read ?c" SPSC a] assms(5) by (auto simp: chan_send_spsc_def queued_def)
  let ?n1 = "n\<lparr>nd_nodes := (nd_nodes n)[?t := ?c\<lparr>co_chan_read := ch\<rparr>]\<rparr>"
  let ?n' = "if is_conn_status ?c DEAD then fst (node_connect E (co_addr ?c) 0 ?n1) else ?n1"
  have q1: "queued items ?n1 k = queued items n k @ (if k = ?t then [a] else [])" if "k < N" for k
    using that assms(2,4) ch(2) by (simp add: queued_def node_ok_def nth_list_update)
  have "connection_write E a n = Inr (0, ?n')"
    using assms(2-4) ch(1) by (simp add: connection_write_def node_ok_def load_Some Let_def)
  moreover have "node_ok ?n'" using assms(2) by (simp add: node_ok_def node_connect_frame)
  moreover have "nd_msgs ?n' = nd_msgs n" "nd_quorum ?n' = nd_quorum n" by (simp_all add: node_connect_frame)
  moreover have "\<forall>k < N. queued items ?n' k = queued items n k @ (if k = ?t then [a] else [])"
    using q1 by (simp add: node_connect_frame)
  ultimately show ?thesis by blast
qed

text \<open>
  A broadcast with room in the queues: every receiver gets one copy of the address for every time
  it is a target, and the message they share ends up addressed to the last of them.
\<close>

lemma send_each_room:
  assumes R: "ring_laws (io_ring E) items"
  shows "node_ok n \<Longrightarrow> nd_msgs n a = Some m \<Longrightarrow> \<forall>t \<in> set ts. unat t < N \<Longrightarrow>
    \<forall>k < N. length (queued items n k) + count_list (map unat ts) k < CAPACITY \<Longrightarrow>
    \<exists>n'. send_each E a ts n = Inr (0, n') \<and> node_ok n' \<and> nd_quorum n' = nd_quorum n \<and>
      nd_msgs n' = (nd_msgs n)(a \<mapsto> m\<lparr>m_to := last (m_to m # ts)\<rparr>) \<and>
      (\<forall>k < N. queued items n' k = queued items n k @ replicate (count_list (map unat ts) k) a)"
proof (induction ts arbitrary: n m)
  case Nil
  then show ?case by (simp add: fun_upd_idem)
next
  case (Cons t ts)
  let ?m = "m\<lparr>m_to := t\<rparr>"
  let ?n = "n\<lparr>nd_msgs := (nd_msgs n)(a \<mapsto> ?m)\<rparr>"
  have t: "unat t < N" using Cons.prems(3) by simp
  have "Suc (length (queued items ?n (unat (m_to ?m)))) < CAPACITY"
    using Cons.prems(4) t by (auto simp: queued_def dest!: spec [of _ "unat t"])
  then obtain n1 where n1: "connection_write E a ?n = Inr (0, n1)" "node_ok n1" "nd_msgs n1 = nd_msgs ?n"
      "nd_quorum n1 = nd_quorum n"
      "\<forall>k < N. queued items n1 k = queued items n k @ (if k = unat t then [a] else [])"
    using connection_write_room [OF R, of ?n a ?m] Cons.prems(1) t by (auto simp: node_ok_def queued_def)
  have "\<exists>n'. send_each E a ts n1 = Inr (0, n') \<and> node_ok n' \<and> nd_quorum n' = nd_quorum n1 \<and>
      nd_msgs n' = (nd_msgs n1)(a \<mapsto> ?m\<lparr>m_to := last (m_to ?m # ts)\<rparr>) \<and>
      (\<forall>k < N. queued items n' k = queued items n1 k @ replicate (count_list (map unat ts) k) a)"
  proof (rule Cons.IH)
    show "\<forall>k < N. length (queued items n1 k) + count_list (map unat ts) k < CAPACITY"
    proof (intro allI impI)
      fix k
      assume k: "k < N"
      from Cons.prems(4) k have "length (queued items n k) + count_list (map unat (t # ts)) k < CAPACITY" by blast
      moreover from n1(5) k have "queued items n1 k = queued items n k @ (if k = unat t then [a] else [])" by blast
      ultimately show "length (queued items n1 k) + count_list (map unat ts) k < CAPACITY"
        by (auto split: if_splits)
    qed
  qed (use n1 Cons.prems(3) in auto)
  moreover have "send_each E a (t # ts) n = send_each E a ts n1"
    using Cons.prems(2) n1(1) by (simp add: set_msg_def load_Some)
  ultimately show ?case using n1(3-5) by (auto simp: replicate_append_same [symmetric])
qed

text \<open>A connection that is not dead stays as it is, except for its queue.\<close>

lemma connection_write_status:
  assumes "connection_write E a n = Inr (rc, n')" and "nd_msgs n a = Some m"
    and "co_status (nd_nodes n ! unat (m_to m)) \<noteq> DEAD"
  shows "map co_status (nd_nodes n') = map co_status (nd_nodes n)"
  using assms
  by (auto simp: connection_write_def load_Some and_then_eq_Inr aget_eq_Inr is_conn_status_def map_update Let_def
      list_update_same_conv split: prod.splits bool.splits)

lemma send_each_status:
  "send_each E a ts n = Inr (rc, n') \<Longrightarrow> \<forall>t \<in> set ts. unat t < length (nd_nodes n) \<and> co_status (nd_nodes n ! unat t) \<noteq> DEAD \<Longrightarrow>
   map co_status (nd_nodes n') = map co_status (nd_nodes n)"
proof (induction ts arbitrary: n)
  case Nil
  then show ?case by simp
next
  case (Cons t ts)
  from Cons.prems(1) obtain m n1 rc1 where m: "nd_msgs n a = Some m"
    and w: "connection_write E a (n\<lparr>nd_msgs := (nd_msgs n)(a \<mapsto> m\<lparr>m_to := t\<rparr>)\<rparr>) = Inr (rc1, n1)"
    and r: "(if rc1 \<noteq> 0 then Inr (-1, n1) else send_each E a ts n1) = Inr (rc, n')"
    by (auto simp: and_then_eq_Inr set_msg_def)
  have st: "map co_status (nd_nodes n1) = map co_status (nd_nodes n)"
    using connection_write_status [OF w, of "m\<lparr>m_to := t\<rparr>"] Cons.prems(2) by simp
  then have len: "length (nd_nodes n1) = length (nd_nodes n)" by (metis length_map)
  have "co_status (nd_nodes n1 ! j) = co_status (nd_nodes n ! j)" if "j < length (nd_nodes n)" for j
    using st that len by (metis nth_map)
  then show ?case using r st len Cons.IH [of n1] Cons.prems(2) by (auto split: if_splits)
qed

section \<open>Taking from a queue\<close>

lemma ring_recv_first:
  assumes "ring_laws R items" and "items (cn_ring c) = x # xs"
  shows "\<exists>ch. ring_recv R m c d = (True, Some x, ch) \<and> items (cn_ring ch) = xs"
proof -
  obtain o1 r where e: "rg_dequeue R m (cn_ring c) = (o1, r)" by force
  have "fst (rg_dequeue R m (cn_ring c)) = Some x \<and> items (snd (rg_dequeue R m (cn_ring c))) = xs"
    using assms unfolding ring_laws_def by blast
  with e show ?thesis by (simp add: ring_recv_def)
qed

text \<open>A connection that is alive sends the first message of its queue and releases one copy.\<close>

lemma conn_reader_sends:
  assumes R: "ring_laws (io_ring E) items" and k: "k < length (nd_nodes n)" and alive: "co_status (nd_nodes n ! k) = ALIVE"
    and q: "queued items n k = a # rest" and m: "nd_msgs n a = Some m" and ref: "0 < unat (m_ref m)"
  shows "\<exists>n'. conn_reader E 0 k n = Inr (True, n') \<and> queued items n' k = rest \<and>
    length (nd_nodes n') = length (nd_nodes n) \<and> (\<forall>j. j \<noteq> k \<longrightarrow> nd_nodes n' ! j = nd_nodes n ! j) \<and>
    nd_msgs n' = (nd_msgs n)(a := if m_ref m = 1 then None else Some (m\<lparr>m_ref := m_ref m - 1\<rparr>))"
proof -
  obtain ch where ch: "chan_recv_spsc (io_ring E) (co_chan_read (nd_nodes n ! k)) None = (True, Some a, ch)"
      "items (cn_ring ch) = rest"
    using ring_recv_first [OF R] q unfolding queued_def chan_recv_spsc_def by blast
  have "m_ref m \<noteq> 0" using ref by auto
  then have d: "destroy_message a (nd_msgs n) =
      Inr ((nd_msgs n)(a := if m_ref m = 1 then None else Some (m\<lparr>m_ref := m_ref m - 1\<rparr>)))"
    using m by (simp add: destroy_message_def load_Some)
  show ?thesis
    using k alive ch m by (simp add: conn_reader_def write_message_def load_Some d queued_def)
qed

section \<open>The quorum array\<close>

definition quorum_ok :: "('a, 'r) connection list \<Rightarrow> u64 list \<Rightarrow> bool" where
  "quorum_ok ns q \<longleftrightarrow> length ns = N \<and> length q = N \<and> (\<forall>k \<in> set q. unat k < N) \<and>
     (\<forall>c \<in> set ns. unat (co_xreplica_id c) < N)"

text \<open>The connection \<open>c\<close> is faster than the one the quorum names first.\<close>

definition faster_than_first :: "('a, 'r) connection list \<Rightarrow> u64 \<Rightarrow> ('a, 'r) connection \<Rightarrow> bool" where
  "faster_than_first ns q0 c \<longleftrightarrow> co_latency c < co_latency (ns ! unat q0)"

lemma quorum_okD:
  assumes "quorum_ok ns q" and "qi < N"
  shows "qi < length q" "unat (q ! qi) < length ns"
  using assms by (simp_all add: quorum_ok_def)

lemma quorum_slot_outcome:
  assumes ok: "quorum_ok ns q" and c: "c \<in> set ns" and qi: "qi < N"
  shows "if qi = 0 \<and> faster_than_first ns (q ! 0) c then quorum_slot ns c qi q = Inl Out_of_bounds
    else \<exists>q'. quorum_slot ns c qi q = Inr q' \<and> quorum_ok ns q' \<and> q' ! 0 = q ! 0"
proof (cases qi)
  case 0
  with quorum_okD [OF ok qi] ok show ?thesis
    by (auto simp: quorum_slot_def faster_than_first_def load_Some)
next
  case (Suc p)
  have p: "p < length q" "unat (q ! p) < length ns" using quorum_okD [OF ok, of p] qi Suc by simp_all
  have "quorum_ok ns (q[qi := co_xreplica_id c])"
    using ok c by (auto simp: quorum_ok_def dest!: subsetD [OF set_update_subset_insert])
  with quorum_okD [OF ok qi] p ok Suc show ?thesis by (simp add: quorum_slot_def)
qed

lemma quorum_inner:
  assumes ok: "quorum_ok ns q" and c: "c \<in> set ns"
  shows "if faster_than_first ns (q ! 0) c then for_each [0..<N] (quorum_slot ns c) q = Inl Out_of_bounds
    else \<exists>q'. for_each [0..<N] (quorum_slot ns c) q = Inr q' \<and> quorum_ok ns q' \<and> q' ! 0 = q ! 0"
proof -
  have "0 < N" by (simp add: N_def)
  then have iff: "(\<exists>qi \<in> set [0..<N]. qi = 0 \<and> faster_than_first ns (q ! 0) c) = faster_than_first ns (q ! 0) c"
    by auto
  have "if \<exists>qi \<in> set [0..<N]. qi = 0 \<and> faster_than_first ns (q ! 0) c
    then for_each [0..<N] (quorum_slot ns c) q = Inl Out_of_bounds
    else \<exists>q'. for_each [0..<N] (quorum_slot ns c) q = Inr q' \<and> (quorum_ok ns q' \<and> q' ! 0 = q ! 0)"
  proof (rule for_each_until)
    fix qi q' assume "qi \<in> set [0..<N]" "quorum_ok ns q' \<and> q' ! 0 = q ! 0"
    then show "if qi = 0 \<and> faster_than_first ns (q ! 0) c then quorum_slot ns c qi q' = Inl Out_of_bounds
      else \<exists>q''. quorum_slot ns c qi q' = Inr q'' \<and> quorum_ok ns q'' \<and> q'' ! 0 = q ! 0"
      using quorum_slot_outcome [of ns q' c qi] c by (auto split: if_splits)
  qed (simp add: ok)
  then show ?thesis unfolding iff .
qed

lemma update_quorum_outcome:
  assumes ok: "quorum_ok ns q"
  shows "if \<exists>c \<in> set ns. co_status c = ALIVE \<and> faster_than_first ns (q ! 0) c
    then update_quorum q ns = Inl Out_of_bounds
    else \<exists>q'. update_quorum q ns = Inr q' \<and> quorum_ok ns q' \<and> q' ! 0 = q ! 0"
proof -
  have len: "length ns = N" using ok by (simp add: quorum_ok_def)
  let ?bad = "\<lambda>ci. co_status (ns ! ci) = ALIVE \<and> faster_than_first ns (q ! 0) (ns ! ci)"
  have iff: "(\<exists>ci \<in> set [0..<N]. ?bad ci) = (\<exists>c \<in> set ns. co_status c = ALIVE \<and> faster_than_first ns (q ! 0) c)"
    using len by (metis atLeastLessThan_iff in_set_conv_nth set_upt zero_le)
  have "if \<exists>ci \<in> set [0..<N]. ?bad ci then update_quorum q ns = Inl Out_of_bounds
    else \<exists>q'. update_quorum q ns = Inr q' \<and> (quorum_ok ns q' \<and> q' ! 0 = q ! 0)"
    unfolding update_quorum_def
  proof (rule for_each_until)
    fix ci q' assume ci: "ci \<in> set [0..<N]" and q': "quorum_ok ns q' \<and> q' ! 0 = q ! 0"
    then have "ns ! ci \<in> set ns" using len by simp
    with ci q' show "if ?bad ci
      then and_then (aget ns ci) (\<lambda>c. if co_status c \<noteq> ALIVE then Inr q' else for_each [0..<N] (quorum_slot ns c) q') = Inl Out_of_bounds
      else \<exists>q''. and_then (aget ns ci) (\<lambda>c. if co_status c \<noteq> ALIVE then Inr q' else for_each [0..<N] (quorum_slot ns c) q') = Inr q'' \<and>
        quorum_ok ns q'' \<and> q'' ! 0 = q ! 0"
      using quorum_inner [of ns q' "ns ! ci"] len by (auto split: if_splits)
  qed (simp add: ok)
  then show ?thesis unfolding iff .
qed

text \<open>Connections that nothing distinguishes leave the array alone.\<close>

lemma quorum_slot_level:
  assumes "length ns = N" and "\<forall>c \<in> set ns. co_latency c = l" and "c \<in> set ns" and "qi < length q" and "unat (q ! qi) < N"
  shows "quorum_slot ns c qi q = Inr q"
  using assms by (simp add: quorum_slot_def)

lemma for_each_same: "(\<And>x. x \<in> set xs \<Longrightarrow> f x s = Inr s) \<Longrightarrow> for_each xs f s = Inr s"
  by (induction xs) simp_all

lemma update_quorum_level:
  assumes "length ns = N" and "\<forall>c \<in> set ns. co_latency c = l" and "length q = N" and "\<forall>k \<in> set q. unat k < N"
  shows "update_quorum q ns = Inr q"
proof -
  have "for_each [0..<N] (quorum_slot ns c) q = Inr q" if "c \<in> set ns" for c
    using that assms by (intro for_each_same quorum_slot_level [where l = l]) simp_all
  then show ?thesis
    unfolding update_quorum_def using assms(1) by (intro for_each_same) simp
qed

end
