(* ===== verification/Epx_Connect.thy ===== *)
theory Epx_Connect
  imports Epx_Io_Laws
begin

text \<open>
  How connections come to be, in \<^verbatim>\<open>src/io.c\<close>: the thread \<open>try_connect\<close> with the attempts it makes,
  the connections of clients, and the steps a node takes. What the calls into libdill return is
  a parameter of every attempt.
\<close>

section \<open>One attempt\<close>

text \<open>
  \<open>nt_fromfd\<close> and \<open>nt_connect\<close> are the handles \<^verbatim>\<open>tcp_fromfd\<close> and \<^verbatim>\<open>tcp_connect\<close> return, \<open>nt_hmake\<close> the one
  \<^verbatim>\<open>hmake\<close> returns for the message socket, \<open>nt_stream\<close> the byte stream below it.
\<close>

record ('a, 'h) net =
  nt_fromfd :: "int \<Rightarrow> int"
  nt_connect :: "'a \<Rightarrow> int"
  nt_hmake :: int
  nt_stream :: 'h

text \<open>The list holds the descriptors and handles that the function closes itself, in order.\<close>

definition run_node_fbs :: "'h stream_lib \<Rightarrow> ('a, 'h) net \<Rightarrow> ('a, 'r) connection \<Rightarrow>
    ('a, 'r) connection \<times> int list \<times> int" where
  "run_node_fbs L nt c =
     (case fbs_sock_attach L (co_prot_handle c) (nt_hmake nt) (co_fbs c) (nt_stream nt) of (h, f, _) \<Rightarrow>
        let c1 = c\<lparr>co_handle := h, co_fbs := f\<rparr> in
        if h < 0 \<and> co_fd c1 > 0 then (c1, [co_fd c1], -1)
        else if h < 0 then (c1, [h], -1)
        else (fst (run_conn (c1\<lparr>co_xreplica_id := fbs_sock_remote_id (Some f)\<rparr>)), [], 0))"

definition run_client_fbs :: "'h stream_lib \<Rightarrow> ('a, 'h) net \<Rightarrow> ('a, 'r) connection \<Rightarrow>
    ('a, 'r) connection \<times> int list \<times> int" where
  "run_client_fbs L nt c =
     (case fbs_sock_attach L (co_prot_handle c) (nt_hmake nt) (co_fbs c) (nt_stream nt) of (h, f, _) \<Rightarrow>
        let c1 = c\<lparr>co_handle := h, co_fbs := f\<rparr> in
        if h < 0 then (c1, [co_prot_handle c1, h], -1) else (fst (run_conn c1), [], 0))"

definition new_node_connection :: "('a, 'r) io_env \<Rightarrow> 'h stream_lib \<Rightarrow> u64 \<Rightarrow> ('a, 'h) net \<Rightarrow> ('a, 'r) connection \<Rightarrow>
    ('a, 'r) connection \<times> int list \<times> int" where
  "new_node_connection E L nid nt c =
     (let c1 = init_fbs E nid c;
          c2 = c1\<lparr>co_prot_handle := if co_fd c1 > 0 then nt_fromfd nt (co_fd c1) else nt_connect nt (co_addr c1)\<rparr> in
      if co_prot_handle c2 \<le> 0 then (c2, [], -1)
      else run_node_fbs L nt (c2\<lparr>co_chan_write := Some Chan_step\<rparr>))"

section \<open>The connecting thread\<close>

text \<open>
  \<open>nets i\<close> is what the calls of attempt \<open>i\<close> return. The result is the connection when the thread
  ends, or when it starts to wait for the coroutines of a connection that was made, and the
  seconds it slept after each failure. \<^verbatim>\<open>reconnect\<close> is 3 until an attempt succeeds, then 0.
\<close>

function try_loop :: "('a, 'r) io_env \<Rightarrow> 'h stream_lib \<Rightarrow> u64 \<Rightarrow> (nat \<Rightarrow> ('a, 'h) net) \<Rightarrow> nat \<Rightarrow>
    ('a, 'r) connection \<Rightarrow> ('a, 'r) connection \<times> int list" where
  "try_loop E L nid nets tries c =
     (case new_node_connection E L nid (nets tries) c of (c1, _, rc) \<Rightarrow>
        if rc < 0 then
          let pause = co_back_off c1 * int (tries + 1) in
          if tries + 1 < 3 then
            (case try_loop E L nid nets (tries + 1) c1 of (c2, ps) \<Rightarrow> (c2, pause # ps))
          else (c1, [pause])
        else (c1\<lparr>co_error := 0, co_back_off := 2, co_latency := 0\<rparr>, []))"
  by pat_completeness auto

termination
  by (relation "measure (\<lambda>(_, _, _, _, tries, _). 3 - tries)") auto

declare try_loop.simps [simp del]

definition try_connect :: "('a, 'r) io_env \<Rightarrow> 'h stream_lib \<Rightarrow> u64 \<Rightarrow> (nat \<Rightarrow> ('a, 'h) net) \<Rightarrow>
    ('a, 'r) connection \<Rightarrow> ('a, 'r) connection \<times> int list" where
  "try_connect E L nid nets c = try_loop E L nid nets 0 c"

section \<open>Clients\<close>

text \<open>
  What \<^verbatim>\<open>client_listener\<close> makes of an accepted handle. \<open>garbage\<close> is the connection as \<^verbatim>\<open>malloc\<close> left it,
  \<open>chan\<close> what \<^verbatim>\<open>chmake\<close> wrote if it succeeded. The result of \<open>run_client_fbs\<close> is not looked at.
\<close>

definition client_listener :: "('a, 'r) io_env \<Rightarrow> 'h stream_lib \<Rightarrow> u64 \<Rightarrow> ('a, 'h) net \<Rightarrow> int \<Rightarrow> (int \<times> int) option \<Rightarrow> int \<Rightarrow>
    ('a, 'r) connection \<Rightarrow> ('a, 'r) connection option" where
  "client_listener E L nid nt now chan c_handle garbage =
     (if c_handle \<le> 0 then None
      else
        let c1 = garbage\<lparr>co_chan_write := Some Chan_propose, co_n := True, co_prot_handle := c_handle,
                   co_client := (co_client garbage)\<lparr>cl_expires := now + 3600000\<rparr>\<rparr>;
            c2 = (case chan of None \<Rightarrow> c1 | Some ch \<Rightarrow> c1\<lparr>co_client := (co_client c1)\<lparr>cl_chan := ch\<rparr>\<rparr>);
            c3 = init_fbs E nid c2 in
        Some (fst (run_client_fbs L nt c3)))"

text \<open>The handles and descriptors that \<^verbatim>\<open>destroy_client_connection\<close> closes; the connection is freed.\<close>

definition destroy_client_connection :: "('a, 'r) connection \<Rightarrow> int list" where
  "destroy_client_connection c =
     [co_handle c, co_prot_handle c, fst (cl_chan (co_client c)), snd (cl_chan (co_client c))] @
     (if co_fd c > 0 then [co_fd c] else [])"

text \<open>
  One message of \<^verbatim>\<open>run_client\<close>, from the pipe of the client to its queue; \<open>False\<close> ends the coroutine,
  and the connection with it.
\<close>

definition run_client :: "('a, 'r) io_env \<Rightarrow> nat \<Rightarrow> ('a, 'r) connection \<Rightarrow> bool \<times> ('a, 'r) connection" where
  "run_client E a c =
     (case chan_send_spsc (io_ring E) (co_chan_read c) a of (ok, ch) \<Rightarrow> (ok, c\<lparr>co_chan_read := ch\<rparr>))"

section \<open>The node's listener and its end\<close>

text \<open>One accepted descriptor; \<open>True\<close>: the listener pauses because the connection could not be started.\<close>

definition node_listener :: "('a, 'r) io_env \<Rightarrow> int \<Rightarrow> 'a \<Rightarrow> ('a, 'r) node_io \<Rightarrow> ('a, 'r) node_io \<times> bool" where
  "node_listener E fd addr n =
     (if fd > 0 then (case node_connect E addr fd n of (n', rc) \<Rightarrow> (n', rc \<noteq> 0)) else (n, False))"

text \<open>
  \<^verbatim>\<open>start_io\<close>: \<open>ap\<close>, \<open>r1\<close>, \<open>r2\<close> and \<open>r3\<close> are what \<^verbatim>\<open>bundle\<close>, the two \<^verbatim>\<open>bundle_go\<close> and
  \<^verbatim>\<open>pthread_create\<close> return.
\<close>

definition start_io :: "int \<Rightarrow> int \<Rightarrow> int \<Rightarrow> int \<Rightarrow> ('a, 'r) node_io \<Rightarrow> ('a, 'r) node_io \<times> int" where
  "start_io ap r1 r2 r3 n =
     (let n1 = n\<lparr>nd_running := True\<rparr> in
      if ap < 0 \<or> r1 \<noteq> 0 \<or> r2 \<noteq> 0 \<or> r3 \<noteq> 0 then (n1\<lparr>nd_running := False\<rparr>, -1) else (n1, 0))"

definition stop_io :: "('a, 'r) node_io \<Rightarrow> ('a, 'r) node_io" where
  "stop_io n = n\<lparr>nd_running := False,
     nd_nodes := map (\<lambda>c. if co_status c \<noteq> DEAD then destroy_node_connection c else c) (nd_nodes n)\<rparr>"

end
