(* ===== verification/Epx_Node.thy ===== *)
theory Epx_Node
  imports Epx_Connect
begin

text \<open>
  A node as its coroutines and threads change it: the steps, the invariant that every state they
  reach has, and what becomes of the messages the replica hands over.
\<close>

section \<open>Steps\<close>

text \<open>
  A message arrives from the replica; the reader of the replica's channel and the readers of the
  connections take one message each; a connection is accepted; a connecting thread makes one
  attempt, or notes that it succeeded; the node starts and stops.
\<close>

inductive node_step :: "('a, 'r) io_env \<Rightarrow> 'h stream_lib \<Rightarrow> ('a, 'r) node_io \<Rightarrow> ('a, 'r) node_io \<Rightarrow> bool"
  for E :: "('a, 'r) io_env" and L :: "'h stream_lib" where
  handed: "nd_msgs n a = None \<Longrightarrow> node_step E L n (n\<lparr>nd_msgs := (nd_msgs n)(a \<mapsto> m)\<rparr>)"
| sends: "io_reader E a n = Inr (rc, n') \<Longrightarrow> node_step E L n n'"
| delivers: "conn_reader E ret k n = Inr (ok, n') \<Longrightarrow> node_step E L n n'"
| accepts: "node_listener E fd addr n = (n', pause) \<Longrightarrow> node_step E L n n'"
| attempts: "k < N \<Longrightarrow> new_node_connection E L (nd_node_id n) nt (nd_nodes n ! k) = (c, closed, rc) \<Longrightarrow>
    node_step E L n (n\<lparr>nd_nodes := (nd_nodes n)[k := c]\<rparr>)"
| connected: "k < N \<Longrightarrow>
    node_step E L n (n\<lparr>nd_nodes := (nd_nodes n)[k := (nd_nodes n ! k)\<lparr>co_error := 0, co_back_off := 2, co_latency := 0\<rparr>]\<rparr>)"
| starts: "start_io ap r1 r2 r3 n = (n', rc) \<Longrightarrow> node_step E L n n'"
| stops: "node_step E L n (stop_io n)"

inductive node_reach :: "('a, 'r) io_env \<Rightarrow> 'h stream_lib \<Rightarrow> ('a, 'r) node_io \<Rightarrow> bool"
  for E :: "('a, 'r) io_env" and L :: "'h stream_lib" where
  fresh: "new_node E zero nid local_addr remotes join = Inr n \<Longrightarrow> co_latency zero = 0 \<Longrightarrow> node_reach E L n"
| step: "node_reach E L n \<Longrightarrow> node_step E L n n' \<Longrightarrow> node_reach E L n'"

section \<open>The invariant\<close>

definition level :: "('a, 'r) node_io \<Rightarrow> bool" where
  "level n \<longleftrightarrow> length (nd_nodes n) = N \<and> nd_quorum n = replicate N 0 \<and> (\<forall>c \<in> set (nd_nodes n). co_latency c = 0)"

lemma level_upd:
  assumes "level n" and "co_latency c = 0"
  shows "level (n\<lparr>nd_nodes := (nd_nodes n)[k := c]\<rparr>)"
  using assms by (auto simp: level_def dest!: subsetD [OF set_update_subset_insert])

lemma level_msgs [simp]: "level (n\<lparr>nd_msgs := h\<rparr>) = level n"
  by (simp add: level_def)

lemma level_running [simp]: "level (n\<lparr>nd_running := b\<rparr>) = level n"
  by (simp add: level_def)

lemma level_latency: "level n \<Longrightarrow> k < length (nd_nodes n) \<Longrightarrow> co_latency (nd_nodes n ! k) = 0"
  by (simp add: level_def)

lemma level_quorum: "level n \<Longrightarrow> update_quorum (nd_quorum n) (nd_nodes n) = Inr (nd_quorum n)"
  by (rule update_quorum_level [where l = 0]) (auto simp: level_def N_def)

lemma level_node_connect: "level n \<Longrightarrow> level (fst (node_connect E addr fd n))"
  by (auto simp: node_connect_def get_conn_def set_conn_status_def Let_def split: option.split
      intro!: level_upd dest: find_index_less level_latency)

lemma level_connection_write:
  assumes n: "level n" and w: "connection_write E a n = Inr (rc, n')"
  shows "level n'"
proof -
  obtain m where m: "nd_msgs n a = Some m" "unat (m_to m) < length (nd_nodes n)"
    using w by (auto simp: connection_write_def and_then_eq_Inr aget_eq_Inr)
  let ?c = "nd_nodes n ! unat (m_to m)"
  obtain ok ch where ch: "chan_send_spsc (io_ring E) (co_chan_read ?c) a = (ok, ch)" by force
  have "level (n\<lparr>nd_nodes := (nd_nodes n)[unat (m_to m) := ?c\<lparr>co_chan_read := ch\<rparr>]\<rparr>)"
    using n m(2) by (intro level_upd) (auto dest: level_latency)
  then show ?thesis
    using w m ch by (cases ok) (auto simp: connection_write_def load_Some Let_def intro: level_node_connect split: if_splits)
qed

lemma level_set_msg: "level n \<Longrightarrow> set_msg a f n = Inr n' \<Longrightarrow> level n'"
  by (auto simp: set_msg_def and_then_eq_Inr)

lemma level_send_each: "level n \<Longrightarrow> send_each E a ts n = Inr (rc, n') \<Longrightarrow> level n'"
proof (induction ts arbitrary: n)
  case Nil
  then show ?case by simp
next
  case (Cons t ts)
  then show ?case
    by (auto simp: and_then_eq_Inr split: if_splits) (blast dest: level_set_msg level_connection_write)+
qed

lemma level_broadcast:
  "level n \<Longrightarrow> broadcast_prepare E a n = Inr (rc, n') \<Longrightarrow> level n'"
  "level n \<Longrightarrow> broadcast_pre_accept E a n = Inr (rc, n') \<Longrightarrow> level n'"
  "level n \<Longrightarrow> broadcast_try_pre_accept E a n = Inr (rc, n') \<Longrightarrow> level n'"
  "level n \<Longrightarrow> broadcast_commit E a n = Inr (rc, n') \<Longrightarrow> level n'"
  by (simp_all add: broadcast_prepare_def broadcast_pre_accept_def broadcast_try_pre_accept_def
      broadcast_commit_def and_then_eq_Inr) (blast dest: level_set_msg level_send_each)+

lemma level_io_reader:
  assumes n: "level n" and r: "io_reader E a n = Inr (rc, n')"
  shows "level n'"
proof -
  obtain n1 m where n1: "set_msg a (\<lambda>m. m\<lparr>m_ref := 1, m_to := m_from m, m_from := nd_node_id n\<rparr>) n = Inr n1"
      "nd_msgs n1 a = Some m"
    using r by (auto simp: io_reader_def and_then_eq_Inr)
  have l: "level n1" using n n1(1) by (rule level_set_msg)
  from r n1 have "broadcast_prepare E a n1 = Inr (rc, n') \<or> broadcast_pre_accept E a n1 = Inr (rc, n') \<or>
      broadcast_try_pre_accept E a n1 = Inr (rc, n') \<or> broadcast_commit E a n1 = Inr (rc, n') \<or>
      connection_write E a n1 = Inr (rc, n')"
    by (cases "m_type m") (simp_all add: io_reader_def level_quorum [OF l] load_Some)
  with l show ?thesis by (blast dest: level_broadcast level_connection_write)
qed

lemma level_conn_reader: "level n \<Longrightarrow> conn_reader E ret k n = Inr (ok, n') \<Longrightarrow> level n'"
  by (auto simp: conn_reader_def and_then_eq_Inr aget_eq_Inr write_message_def set_conn_status_def
      split: prod.splits bool.splits if_splits intro!: level_upd)
    (auto dest: level_latency)

lemma attempt_latency: "new_node_connection E L nid nt c = (c', closed, rc) \<Longrightarrow> co_latency c' = 0"
  by (auto simp: new_node_connection_def run_node_fbs_def init_fbs_def run_conn_def set_conn_status_def Let_def
      split: prod.splits if_splits)

lemma level_new_node:
  assumes n: "new_node E zero nid local_addr remotes join = Inr n" and z: "co_latency zero = 0"
  shows "level n"
proof -
  let ?n = "\<lparr>nd_node_id = nid, nd_running = False,
        nd_nodes = map (\<lambda>i. zero\<lparr>co_addr := if i = unat nid then local_addr else remotes ! i\<rparr>) [0..<N],
        nd_quorum = replicate N 0, nd_msgs = Map.empty\<rparr>"
  have l: "level ?n" using z by (simp add: level_def)
  have run: "for_each [0..<N] (\<lambda>j n. and_then (aget join j) (\<lambda>k. if k = 0 then Inr n
      else and_then (aget (nd_nodes n) (unat k)) (\<lambda>c. Inr (fst (node_connect E (co_addr c) 0 n))))) ?n = Inr n"
    using n by (simp add: new_node_def Let_def)
  show ?thesis
  proof (rule for_each_invariant [OF run, where P = level])
    show "level ?n" by (rule l)
  qed (auto simp: and_then_eq_Inr aget_eq_Inr split: if_splits intro: level_node_connect)
qed

lemma level_step: "node_step E L n n' \<Longrightarrow> level n \<Longrightarrow> level n'"
proof (induction rule: node_step.induct)
  case (accepts fd addr n n' pause)
  then show ?case
    by (auto simp: node_listener_def split: if_splits prod.splits dest: level_node_connect [of n E addr fd])
next
  case (attempts k n nt c closed rc)
  then show ?case by (intro level_upd) (auto dest: attempt_latency)
next
  case (starts ap r1 r2 r3 n n' rc)
  then show ?case by (auto simp: start_io_def Let_def split: if_splits)
next
  case (stops n)
  then show ?case by (auto simp: level_def stop_io_def destroy_node_connection_def set_conn_status_def)
qed (auto intro: level_upd level_io_reader level_conn_reader)

lemma node_reach_level: "node_reach E L n \<Longrightarrow> level n"
  by (induction rule: node_reach.induct) (auto intro: level_new_node level_step)

section \<open>What a message of the replica becomes\<close>

definition room_for :: "('r \<Rightarrow> nat list) \<Rightarrow> nat \<Rightarrow> ('a, 'r) node_io \<Rightarrow> bool" where
  "room_for items c n \<longleftrightarrow> (\<forall>k < N. length (queued items n k) + c < CAPACITY)"

lemma level_node_ok: "level n \<Longrightarrow> node_ok n"
  by (simp add: level_def node_ok_def)

lemma queued_msgs [simp]: "queued items (n\<lparr>nd_msgs := h\<rparr>) k = queued items n k"
  by (simp add: queued_def)

lemma node_ok_msgs [simp]: "node_ok (n\<lparr>nd_msgs := h\<rparr>) = node_ok n"
  by (simp add: node_ok_def)

text \<open>A broadcast: the counter is set, then every target gets its copies.\<close>

lemma broadcast_room:
  assumes R: "ring_laws (io_ring E) items" and n: "node_ok n" and m: "nd_msgs n a = Some m"
    and ts: "\<forall>t \<in> set ts. unat t < N" and room: "room_for items (length ts) n"
  shows "\<exists>n'. and_then (set_msg a (\<lambda>m. m\<lparr>m_ref := r\<rparr>) n) (send_each E a ts) = Inr (0, n') \<and>
    nd_msgs n' = (nd_msgs n)(a \<mapsto> m\<lparr>m_ref := r, m_to := last (m_to m # ts)\<rparr>) \<and>
    (\<forall>k < N. queued items n' k = queued items n k @ replicate (count_list (map unat ts) k) a)"
proof -
  let ?m = "m\<lparr>m_ref := r\<rparr>"
  let ?n = "n\<lparr>nd_msgs := (nd_msgs n)(a \<mapsto> ?m)\<rparr>"
  have "count_list (map unat ts) k \<le> length ts" for k
    by (metis count_le_length length_map)
  then have "\<forall>k < N. length (queued items ?n k) + count_list (map unat ts) k < CAPACITY"
    using room unfolding room_for_def queued_msgs by (meson add_left_mono le_less_trans)
  then obtain n' where "send_each E a ts ?n = Inr (0, n')"
      "nd_msgs n' = (nd_msgs ?n)(a \<mapsto> ?m\<lparr>m_to := last (m_to ?m # ts)\<rparr>)"
      "\<forall>k < N. queued items n' k = queued items ?n k @ replicate (count_list (map unat ts) k) a"
    using send_each_room [OF R, of ?n a ?m ts] n ts by auto
  then show ?thesis using m by (simp add: set_msg_def load_Some)
qed

text \<open>How often a message is released before it is freed.\<close>

fun release :: "nat \<Rightarrow> nat \<Rightarrow> msgs \<Rightarrow> msgs res" where
  "release 0 a h = Inr h"
| "release (Suc k) a h = and_then (destroy_message a h) (release k a)"

lemma unat_minus_one_pred: "0 < unat (r :: u32) \<Longrightarrow> unat (r - 1) = unat r - 1"
  using unat_minus_one [of r] by (cases "r = 0") simp_all

lemma release_counts:
  "h a = Some m \<Longrightarrow> 0 < unat (m_ref m) \<Longrightarrow>
   (k < unat (m_ref m) \<longrightarrow> (\<exists>m'. release k a h = Inr (h(a \<mapsto> m')))) \<and>
   release (unat (m_ref m)) a h = Inr (h(a := None)) \<and>
   release (Suc (unat (m_ref m))) a h = Inl Use_after_free"
proof (induction "unat (m_ref m)" arbitrary: h m k)
  case 0
  then show ?case by simp
next
  case (Suc r)
  show ?case
  proof (cases "r = 0")
    case True
    then have one: "m_ref m = 1" using Suc.hyps(2) by (metis One_nat_def unsigned_1 unsigned_word_eqI)
    show ?thesis using Suc.prems(1) by (auto simp: one destroy_message_def load_Some load_def intro!: exI [of _ m])
  next
    case False
    let ?m = "m\<lparr>m_ref := m_ref m - 1\<rparr>"
    let ?h = "h(a \<mapsto> ?m)"
    have r: "unat (m_ref ?m) = r" "unat (m_ref m) = Suc r"
      using Suc.hyps(2) unat_minus_one_pred [of "m_ref m"] by simp_all
    have step: "release (Suc j) a h = release j a ?h" for j
    proof -
      have "m_ref m \<noteq> 0" "m_ref m - 1 \<noteq> 0" using r False by (auto simp: unat_eq_0 [symmetric])
      then show ?thesis using Suc.prems(1) by (simp add: destroy_message_def load_Some)
    qed
    have IH: "(j < r \<longrightarrow> (\<exists>m'. release j a ?h = Inr (?h(a \<mapsto> m')))) \<and>
        release r a ?h = Inr (?h(a := None)) \<and> release (Suc r) a ?h = Inl Use_after_free" for j
      using Suc.hyps(1) [of ?m ?h j] r False by simp
    have "\<exists>m'. release k a h = Inr (h(a \<mapsto> m'))" if "k < Suc r"
    proof (cases k)
      case 0
      then show ?thesis using Suc.prems(1) by (intro exI [of _ m]) (simp add: fun_upd_idem)
    next
      case (Suc j)
      then show ?thesis using IH [of j] that step [of j] by auto
    qed
    then show ?thesis using IH [of 0] step [of r] step [of "Suc r"] r(2) by (simp del: release.simps)
  qed
qed

lemma node_id_cases: "unat (i :: u64) < N \<Longrightarrow> i = 0 \<or> i = 1 \<or> i = 2"
proof -
  assume i: "unat i < N"
  then have "unat i = 0 \<or> unat i = 1 \<or> unat i = 2" by (auto simp: N_def)
  then show ?thesis by (auto simp: word_unat_eq_iff)
qed

lemma count_list_replicate: "count_list (replicate c x) y = (if x = y then c else 0)"
  by (induction c) auto

lemma prepare_targets_eval:
  "prepare_targets 0 0 (N - 1) = [1, 2]" "prepare_targets 1 1 (N - 1) = [2, 0]" "prepare_targets 2 2 (N - 1) = [0, 1]"
  by code_simp+

lemma prepare_targets_peers:
  assumes "unat nid < N"
  shows "\<forall>t \<in> set (prepare_targets nid nid (N - 1)). unat t < N" "length (prepare_targets nid nid (N - 1)) = N - 1"
    "k < N \<Longrightarrow> count_list (map unat (prepare_targets nid nid (N - 1))) k = (if k = unat nid then 0 else 1)"
proof -
  from node_id_cases [OF assms] have "prepare_targets nid nid (N - 1) = [1, 2] \<and> nid = 0 \<or>
      prepare_targets nid nid (N - 1) = [2, 0] \<and> nid = 1 \<or> prepare_targets nid nid (N - 1) = [0, 1] \<and> nid = 2"
    using prepare_targets_eval by blast
  then show "\<forall>t \<in> set (prepare_targets nid nid (N - 1)). unat t < N" "length (prepare_targets nid nid (N - 1)) = N - 1"
    "k < N \<Longrightarrow> count_list (map unat (prepare_targets nid nid (N - 1))) k = (if k = unat nid then 0 else 1)"
    by (elim disjE conjE; simp add: N_def; linarith)+
qed

section \<open>Properties\<close>

text \<open>
  The readers of two connections that have only the message in their queues send it once each, and
  the second of them frees it.
\<close>

lemma two_readers:
  assumes R: "ring_laws (io_ring E) items" and k: "k1 < length (nd_nodes n)" "k2 < length (nd_nodes n)" "k1 \<noteq> k2"
    and alive: "co_status (nd_nodes n ! k1) = ALIVE" "co_status (nd_nodes n ! k2) = ALIVE"
    and q: "queued items n k1 = [a]" "queued items n k2 = [a]" and m: "nd_msgs n a = Some m" "m_ref m = 2"
  shows "\<exists>n1 n2. conn_reader E 0 k1 n = Inr (True, n1) \<and> nd_msgs n1 a \<noteq> None \<and> conn_reader E 0 k2 n1 = Inr (True, n2) \<and>
    nd_msgs n2 = (nd_msgs n)(a := None) \<and> queued items n2 k1 = [] \<and> queued items n2 k2 = []"
proof -
  have "0 < unat (m_ref m)" using m(2) by simp
  from conn_reader_sends [OF R k(1) alive(1) q(1) m(1) this] obtain n1 where
    1: "conn_reader E 0 k1 n = Inr (True, n1)" "queued items n1 k1 = []" "length (nd_nodes n1) = length (nd_nodes n)"
      "\<forall>j. j \<noteq> k1 \<longrightarrow> nd_nodes n1 ! j = nd_nodes n ! j" "nd_msgs n1 = (nd_msgs n)(a \<mapsto> m\<lparr>m_ref := 1\<rparr>)"
    using m(2) by auto
  have at: "nd_nodes n1 ! k2 = nd_nodes n ! k2" using 1(4) k(3) by simp
  then have q2: "queued items n1 k2 = [a]" using q(2) by (simp add: queued_def)
  have k2: "k2 < length (nd_nodes n1)" using 1(3) k(2) by simp
  have a2: "co_status (nd_nodes n1 ! k2) = ALIVE" using at alive(2) by simp
  from conn_reader_sends [OF R k2 a2 q2, of "m\<lparr>m_ref := 1\<rparr>"] obtain n2 where
    2: "conn_reader E 0 k2 n1 = Inr (True, n2)" "queued items n2 k2 = []"
      "\<forall>j. j \<noteq> k2 \<longrightarrow> nd_nodes n2 ! j = nd_nodes n1 ! j" "nd_msgs n2 = (nd_msgs n1)(a := None)"
    using 1(5) by auto
  have "queued items n2 k1 = []" using 2(3) 1(2) k(3) by (simp add: queued_def)
  with 1 2 show ?thesis by auto
qed

text \<open>
  C13. A \<open>PREPARE\<close> that the replica hands over is queued exactly once for every other node, and for
  no one else, when the connections to them are alive and their queues have room; the connections stay
  alive, so the queues are not reset. The counter of the message is the number of copies: the message
  stays allocated until the last copy is released, and one release more would be a use after free.
  When nothing else was queued and the sends on the sockets succeed, the readers of the two connections,
  in either order, send it once each, and the second of them frees it.
\<close>

theorem prepare_reaches_peers:
  assumes n: "node_reach E L n" and R: "ring_laws (io_ring E) items" and m: "nd_msgs n a = Some m"
    and type: "m_type m = PREPARE" and id: "unat (nd_node_id n) < N" and room: "room_for items (N - 1) n"
    and alive: "\<forall>k < N. k \<noteq> unat (nd_node_id n) \<longrightarrow> co_status (nd_nodes n ! k) = ALIVE"
  shows "\<exists>n'. io_reader E a n = Inr (0, n') \<and>
    (\<forall>k < N. queued items n' k = queued items n k @ (if k = unat (nd_node_id n) then [] else [a]) \<and>
      co_status (nd_nodes n' ! k) = co_status (nd_nodes n ! k)) \<and>
    (\<forall>k < N - 1. \<exists>m'. release k a (nd_msgs n') = Inr ((nd_msgs n')(a \<mapsto> m'))) \<and>
    release (N - 1) a (nd_msgs n') = Inr ((nd_msgs n')(a := None)) \<and>
    release N a (nd_msgs n') = Inl Use_after_free \<and>
    (\<forall>k1 < N. \<forall>k2 < N. distinct [k1, k2, unat (nd_node_id n)] \<and> queued items n k1 = [] \<and> queued items n k2 = [] \<longrightarrow>
      (\<exists>n1 n2. conn_reader E 0 k1 n' = Inr (True, n1) \<and> nd_msgs n1 a \<noteq> None \<and> conn_reader E 0 k2 n1 = Inr (True, n2) \<and>
        nd_msgs n2 = (nd_msgs n)(a := None) \<and> queued items n2 k1 = [] \<and> queued items n2 k2 = []))"
proof -
  let ?m1 = "m\<lparr>m_ref := 1, m_to := m_from m, m_from := nd_node_id n\<rparr>"
  let ?n1 = "n\<lparr>nd_msgs := (nd_msgs n)(a \<mapsto> ?m1)\<rparr>"
  let ?ts = "prepare_targets (nd_node_id n) (nd_node_id n) (N - 1)"
  have lev: "level n" by (rule node_reach_level [OF n])
  then have ok: "node_ok ?n1" using level_node_ok by simp
  obtain n' where w: "and_then (set_msg a (\<lambda>m. m\<lparr>m_ref := of_nat (N - 1)\<rparr>) ?n1) (send_each E a ?ts) = Inr (0, n')"
      "nd_msgs n' = (nd_msgs ?n1)(a \<mapsto> ?m1\<lparr>m_ref := of_nat (N - 1), m_to := last (m_to ?m1 # ?ts)\<rparr>)"
      "\<forall>k < N. queued items n' k = queued items ?n1 k @ replicate (count_list (map unat ?ts) k) a"
    using broadcast_room [OF R ok, of a ?m1 ?ts "of_nat (N - 1)"] prepare_targets_peers [OF id] room
    by (auto simp: room_for_def)
  have "broadcast_prepare E a ?n1 = Inr (0, n')"
    using w(1) m by (simp add: broadcast_prepare_def set_msg_def load_Some)
  then have io: "io_reader E a n = Inr (0, n')" using m type by (simp add: io_reader_def set_msg_def load_Some)
  let ?m' = "?m1\<lparr>m_ref := of_nat (N - 1), m_to := last (m_to ?m1 # ?ts)\<rparr>"
  have ref: "unat (m_ref ?m') = N - 1" by (simp add: N_def)
  have rel: "nd_msgs n' a = Some ?m'" using w(2) by simp
  have q: "queued items n' k = queued items n k @ (if k = unat (nd_node_id n) then [] else [a])" if "k < N" for k
    using w(3) prepare_targets_peers(3) [OF id that] that by simp
  have lenN: "length (nd_nodes n) = N" using lev by (simp add: level_def)
  have peers: "\<forall>t \<in> set ?ts. unat t < length (nd_nodes n) \<and> co_status (nd_nodes n ! unat t) \<noteq> DEAD"
  proof
    fix t
    assume t: "t \<in> set ?ts"
    then have "unat t < N" using prepare_targets_peers(1) [OF id] by blast
    moreover have "count_list (map unat ?ts) (unat t) \<noteq> 0" using t by (auto simp: count_list_0_iff)
    ultimately have "unat t \<noteq> unat (nd_node_id n)" using prepare_targets_peers(3) [OF id] by metis
    with \<open>unat t < N\<close> alive lenN show "unat t < length (nd_nodes n) \<and> co_status (nd_nodes n ! unat t) \<noteq> DEAD" by simp
  qed
  have "map co_status (nd_nodes n') = map co_status (nd_nodes n)"
    using w(1) send_each_status [of E a ?ts _ 0 n'] peers by (auto simp: and_then_eq_Inr set_msg_def)
  then have st: "length (nd_nodes n') = N" "\<forall>k < N. co_status (nd_nodes n' ! k) = co_status (nd_nodes n ! k)"
    using lenN by (metis length_map, metis length_map nth_map)
  have "0 < unat (m_ref ?m')" unfolding ref by (simp add: N_def)
  then have counts: "(k < N - 1 \<longrightarrow> (\<exists>m'. release k a (nd_msgs n') = Inr ((nd_msgs n')(a \<mapsto> m')))) \<and>
      release (N - 1) a (nd_msgs n') = Inr ((nd_msgs n')(a := None)) \<and>
      release (Suc (N - 1)) a (nd_msgs n') = Inl Use_after_free" for k
    using release_counts [of "nd_msgs n'" a ?m' k] rel unfolding ref by blast
  have "N = Suc (N - 1)" by (simp add: N_def)
  then have over: "release N a (nd_msgs n') = Inl Use_after_free" using counts [of 0] by metis
  have readers: "\<exists>n1 n2. conn_reader E 0 k1 n' = Inr (True, n1) \<and> nd_msgs n1 a \<noteq> None \<and> conn_reader E 0 k2 n1 = Inr (True, n2) \<and>
        nd_msgs n2 = (nd_msgs n)(a := None) \<and> queued items n2 k1 = [] \<and> queued items n2 k2 = []"
    if k: "k1 < N" "k2 < N" "distinct [k1, k2, unat (nd_node_id n)]" and e: "queued items n k1 = []" "queued items n k2 = []"
    for k1 k2
  proof -
    have "(nd_msgs n')(a := None) = (nd_msgs n)(a := None)" using w(2) by simp
    moreover have "m_ref ?m' = 2" by (simp add: N_def)
    ultimately show ?thesis
      using two_readers [OF R, of k1 n' k2 a ?m'] k e q [of k1] q [of k2] st alive rel by simp
  qed
  show ?thesis
    by (intro exI [of _ n'] conjI io over) (use q st counts readers in auto)
qed

lemma quorum_copies:
  assumes n: "node_reach E L n" and R: "ring_laws (io_ring E) items" and m: "nd_msgs n a = Some m"
    and type: "m_type m \<in> {PRE_ACCEPT, ACCEPT, COMMIT}" and room: "room_for items N n"
  shows "\<exists>n' m'. io_reader E a n = Inr (0, n') \<and> nd_msgs n' a = Some m' \<and> m_command m' = m_command m \<and>
      (\<forall>k < N. queued items n' k = queued items n k @
        (if k = 0 then replicate (if m_type m = COMMIT then N else N - 1) a else []))"
proof -
  let ?c = "if m_type m = COMMIT then N else N - 1"
  let ?m1 = "m\<lparr>m_ref := 1, m_to := m_from m, m_from := nd_node_id n\<rparr>"
  let ?n1 = "n\<lparr>nd_msgs := (nd_msgs n)(a \<mapsto> ?m1)\<rparr>"
  let ?ts = "replicate ?c (0 :: u64)"
  have l: "level n" using n by (rule node_reach_level)
  have ok: "node_ok ?n1" using level_node_ok [OF l] by simp
  have "length ?ts \<le> N" by simp
  then have "room_for items (length ?ts) ?n1"
    using room unfolding room_for_def queued_msgs by (meson add_left_mono le_less_trans)
  moreover have "\<forall>t \<in> set ?ts. unat t < N" by (simp add: N_def)
  ultimately obtain n' where w: "and_then (set_msg a (\<lambda>m. m\<lparr>m_ref := of_nat ?c\<rparr>) ?n1) (send_each E a ?ts) = Inr (0, n')"
      "\<forall>k < N. queued items n' k = queued items ?n1 k @ replicate (count_list (map unat ?ts) k) a"
      "nd_msgs n' = (nd_msgs ?n1)(a \<mapsto> ?m1\<lparr>m_ref := of_nat ?c, m_to := last (m_to ?m1 # ?ts)\<rparr>)"
    using broadcast_room [OF R ok, of a ?m1 ?ts "of_nat ?c"] by auto
  have q: "nd_quorum n = replicate N 0" using l by (simp add: level_def)
  have qu: "update_quorum (nd_quorum ?n1) (nd_nodes ?n1) = Inr (nd_quorum ?n1)"
    using level_quorum [of ?n1] l by simp
  have ts: "take (N - 1) (nd_quorum n) = replicate (N - 1) 0" "take N (nd_quorum n) = replicate N 0"
    unfolding q by simp_all
  have io: "io_reader E a n = Inr (0, n')"
    using type w(1) m qu ts
    by (auto simp: io_reader_def set_msg_def load_Some broadcast_pre_accept_def broadcast_commit_def)
  have "count_list (map unat ?ts) k = (if k = 0 then ?c else 0)" for k
    by (simp only: map_replicate count_list_replicate unsigned_0 eq_commute [of 0])
  with w(2) have "\<forall>k < N. queued items n' k = queued items n k @ (if k = 0 then replicate ?c a else [])" by simp
  with io w(3) show ?thesis by simp
qed

lemma commit_copies:
  assumes "node_reach E L n" and "ring_laws (io_ring E) items" and "nd_msgs n a = Some m"
    and "m_type m = COMMIT" and "room_for items N n"
  shows "\<exists>n' m'. io_reader E a n = Inr (0, n') \<and> queued items n' 0 = queued items n 0 @ replicate N a \<and> nd_msgs n' a = Some m' \<and>
    m_command m' = m_command m"
  using quorum_copies [OF assms(1-3) _ assms(5)] assms(4) by (auto simp: N_def)

text \<open>
  C26. The preferred quorum is never anything but node 0: in every state a node reaches, all
  latencies are 0, because nothing measures them, the quorum is the zeroed array, and so every copy of a
  \<open>PRE_ACCEPT\<close>, \<open>ACCEPT\<close> or \<open>COMMIT\<close> is queued for node 0, the node itself included, and none for any
  other node.
\<close>

theorem quorum_is_node_zero:
  assumes n: "node_reach E L n" and "ring_laws (io_ring E) items" and "nd_msgs n a = Some m"
    and "m_type m \<in> {PRE_ACCEPT, ACCEPT, COMMIT}" and "room_for items N n"
  shows "(\<forall>c \<in> set (nd_nodes n). co_latency c = 0) \<and> nd_quorum n = replicate N 0 \<and>
    (\<exists>n'. io_reader E a n = Inr (0, n') \<and>
      (\<forall>k < N. queued items n' k = queued items n k @
        (if k = 0 then replicate (if m_type m = COMMIT then N else N - 1) a else [])))"
  using quorum_copies [OF assms] node_reach_level [OF n] by (auto simp: level_def)

text \<open>
  \<open>update_quorum\<close> never replaces the first entry of the quorum: for a connection faster than it
  the code reads in front of the array, and otherwise the first entry stays.
\<close>

theorem update_quorum_first:
  assumes "length ns = N" and "length q = N" and "\<forall>k \<in> set q. unat k < N" and "\<forall>c \<in> set ns. unat (co_xreplica_id c) < N"
  shows "if \<exists>c \<in> set ns. co_status c = ALIVE \<and> co_latency c < co_latency (ns ! unat (q ! 0))
    then update_quorum q ns = Inl Out_of_bounds
    else \<exists>q'. update_quorum q ns = Inr q' \<and> q' ! 0 = q ! 0"
  using update_quorum_outcome [of ns q] assms by (auto simp: quorum_ok_def faster_than_first_def split: if_splits)

section \<open>Connecting\<close>

lemma run_node_outcome:
  "run_node_fbs L nt c = (c', cl, rc) \<Longrightarrow>
   co_chan_read c' = co_chan_read c \<and> co_addr c' = co_addr c \<and> co_fd c' = co_fd c \<and> co_back_off c' = co_back_off c \<and> co_n c' = co_n c \<and>
   (if rc < 0 then rc = -1 \<and> co_status c' = co_status c else rc = 0 \<and> co_status c' = ALIVE)"
  by (auto simp: run_node_fbs_def run_conn_def set_conn_status_def Let_def split: prod.splits if_splits)

lemma attempt_outcome:
  assumes "new_node_connection E L nid nt c = (c', cl, rc)"
  shows "co_chan_read c' = fst (chan_init (io_ring E) (co_chan_read c)) \<and> co_addr c' = co_addr c \<and> co_fd c' = co_fd c \<and>
    co_back_off c' = 1 \<and> co_n c' = co_n c \<and>
    (if rc < 0 then co_status c' = co_status c else co_status c' = ALIVE)"
  using assms by (auto simp: new_node_connection_def init_fbs_def Let_def split: if_splits dest!: run_node_outcome)

lemma attempt_queue:
  assumes "ring_laws (io_ring E) items" and "new_node_connection E L nid nt c = (c', cl, rc)"
  shows "items (cn_ring (co_chan_read c')) = []"
  using attempt_outcome [OF assms(2)] assms(1) by (simp add: chan_init_def ring_laws_def)

lemma try_loop_outcome:
  assumes R: "ring_laws (io_ring E) items"
  shows "tries < 3 \<Longrightarrow> try_loop E L nid nets tries c = (c', ps) \<Longrightarrow>
   items (cn_ring (co_chan_read c')) = [] \<and> length ps \<le> 3 - tries \<and>
   ps = map int [tries + 1..<tries + 1 + length ps] \<and>
   (if length ps = 3 - tries then co_status c' = co_status c else co_status c' = ALIVE)"
proof (induction "3 - tries" arbitrary: tries c c' ps)
  case 0
  then show ?case by simp
next
  case (Suc r)
  obtain c1 cl rc where n: "new_node_connection E L nid (nets tries) c = (c1, cl, rc)" by (metis surj_pair)
  note out = attempt_outcome [OF n] attempt_queue [OF R n]
  show ?case
  proof (cases "rc < 0 \<and> tries + 1 < 3")
    case True
    obtain c2 ps' where rest: "try_loop E L nid nets (tries + 1) c1 = (c2, ps')" by force
    have eq: "c' = c2" "ps = int (tries + 1) # ps'"
      using Suc.prems(2) True n rest out(1) by (simp_all add: try_loop.simps [of E L nid nets tries c])
    have IH: "items (cn_ring (co_chan_read c2)) = [] \<and> length ps' \<le> 3 - (tries + 1) \<and>
        ps' = map int [tries + 1 + 1..<tries + 1 + 1 + length ps'] \<and>
        (if length ps' = 3 - (tries + 1) then co_status c2 = co_status c1 else co_status c2 = ALIVE)"
      using Suc.hyps(1) [OF _ _ rest] Suc.hyps(2) True by simp
    have "[tries + 1..<tries + 1 + length ps] = (tries + 1) # [tries + 1 + 1..<tries + 1 + 1 + length ps']"
      unfolding eq(2) by (subst upt_conv_Cons) simp_all
    then have "ps = map int [tries + 1..<tries + 1 + length ps]"
      using IH unfolding eq(2) by (simp only: list.map)
    moreover have "items (cn_ring (co_chan_read c')) = []" using IH unfolding eq by blast
    moreover have "length ps \<le> 3 - tries"
    proof -
      have "length ps' \<le> 3 - (tries + 1)" using IH by blast
      moreover have "tries < 2" using True by simp
      ultimately show ?thesis unfolding eq list.size by arith
    qed
    moreover have "if length ps = 3 - tries then co_status c' = co_status c else co_status c' = ALIVE"
      using IH True out(1) unfolding eq by (auto split: if_splits)
    ultimately show ?thesis by blast
  next
    case False
    then have "rc < 0 \<and> tries = 2 \<and> c' = c1 \<and> ps = [int (tries + 1)] \<or> \<not> rc < 0 \<and> ps = [] \<and> co_status c' = ALIVE \<and> co_chan_read c' = co_chan_read c1"
      using Suc.prems n out(1) by (auto simp: try_loop.simps [of E L nid nets tries c] split: if_splits)
    then show ?thesis using out Suc.prems(1) by (auto split: if_splits)
  qed
qed

lemma try_connect_queue:
  assumes R: "ring_laws (io_ring E) items"
  shows "items (cn_ring (co_chan_read (fst (try_connect E L nid nets c)))) = []"
proof -
  obtain c' ps where t: "try_loop E L nid nets 0 c = (c', ps)" by force
  have "items (cn_ring (co_chan_read c')) = []" using try_loop_outcome [OF R _ t] by simp
  with t show ?thesis by (simp add: try_connect_def)
qed

text \<open>The reader of the replica's channel on a sequence of messages: it ends at the first failure.\<close>

fun io_run :: "('a, 'r) io_env \<Rightarrow> nat list \<Rightarrow> ('a, 'r) node_io \<Rightarrow> (int \<times> ('a, 'r) node_io) res" where
  "io_run E [] n = Inr (0, n)"
| "io_run E (a # as) n =
     and_then (io_reader E a n) (\<lambda>(rc, n'). if rc \<noteq> 0 then Inr (rc, n') else io_run E as n')"

text \<open>The types that \<open>io_reader\<close> sends back to where the message came from.\<close>

definition replies :: "message_type set" where
  "replies = {PRE_ACCEPT_OK, PRE_ACCEPT_REPLY, ACCEPT_REPLY, PREPARE_REPLY, TRY_PRE_ACCEPT_REPLY}"

lemma io_reader_reply:
  assumes "nd_msgs n a = Some m" and "m_type m \<in> replies"
  shows "io_reader E a n = connection_write E a
    (n\<lparr>nd_msgs := (nd_msgs n)(a \<mapsto> m\<lparr>m_ref := 1, m_to := m_from m, m_from := nd_node_id n\<rparr>)\<rparr>)"
  using assms by (auto simp: io_reader_def set_msg_def load_Some replies_def)

lemma ring_send_outcome:
  assumes "ring_laws R items"
  shows "if Suc (length (items (cn_ring c))) < CAPACITY
    then \<exists>ch. ring_send R m c a = (True, ch) \<and> items (cn_ring ch) = items (cn_ring c) @ [a]
    else ring_send R m c a = (False, c)"
proof (cases "Suc (length (items (cn_ring c))) < CAPACITY")
  case True
  then show ?thesis using ring_send_room [OF assms, of c m a] by simp
next
  case False
  then have "rg_enqueue R m (cn_ring c) a = (False, cn_ring c)"
    using assms unfolding ring_laws_def by metis
  with False show ?thesis by (simp add: ring_send_def)
qed

text \<open>A connection that is being made: a message is queued while there is room, nothing else happens.\<close>

lemma write_connecting:
  assumes R: "ring_laws (io_ring E) items" and n: "length (nd_nodes n) = N" and m: "nd_msgs n a = Some m"
    and t: "unat (m_to m) = t" "t < N" and st: "co_status (nd_nodes n ! t) = CONNECTING"
  shows "if Suc (length (queued items n t)) < CAPACITY
    then \<exists>n'. connection_write E a n = Inr (0, n') \<and> length (nd_nodes n') = N \<and> nd_msgs n' = nd_msgs n \<and>
      co_status (nd_nodes n' ! t) = CONNECTING \<and> queued items n' t = queued items n t @ [a]
    else connection_write E a n = Inr (-1, n)"
proof (cases "Suc (length (queued items n t)) < CAPACITY")
  case True
  then obtain ch where ch: "chan_send_spsc (io_ring E) (co_chan_read (nd_nodes n ! t)) a = (True, ch)"
      "items (cn_ring ch) = queued items n t @ [a]"
    using ring_send_outcome [OF R, of "co_chan_read (nd_nodes n ! t)" SPSC a]
    by (auto simp: chan_send_spsc_def queued_def)
  with True show ?thesis
    using n m t st by (simp add: connection_write_def load_Some is_conn_status_def queued_def Let_def)
next
  case False
  then have "chan_send_spsc (io_ring E) (co_chan_read (nd_nodes n ! t)) a = (False, co_chan_read (nd_nodes n ! t))"
    using ring_send_outcome [OF R, of "co_chan_read (nd_nodes n ! t)" SPSC a]
    by (simp add: chan_send_spsc_def queued_def)
  moreover have "c\<lparr>co_chan_read := co_chan_read c\<rparr> = c" for c :: "('a, 'r) connection" by simp
  ultimately show ?thesis
    using False n m t by (simp add: connection_write_def load_Some)
qed

lemma io_run_stuck:
  assumes R: "ring_laws (io_ring E) items" and t: "t < N"
  shows "length (nd_nodes n) = N \<Longrightarrow> co_status (nd_nodes n ! t) = CONNECTING \<Longrightarrow> distinct as \<Longrightarrow>
    \<forall>a \<in> set as. \<exists>m. nd_msgs n a = Some m \<and> m_type m \<in> replies \<and> unat (m_from m) = t \<Longrightarrow>
    length (queued items n t) < CAPACITY \<Longrightarrow>
    CAPACITY \<le> length (queued items n t) + length as \<Longrightarrow> \<exists>n'. io_run E as n = Inr (-1, n')"
proof (induction as arbitrary: n)
  case Nil
  then show ?case by simp
next
  case (Cons a as)
  obtain m where m: "nd_msgs n a = Some m" "m_type m \<in> replies" "unat (m_from m) = t" using Cons.prems(4) by auto
  let ?m = "m\<lparr>m_ref := 1, m_to := m_from m, m_from := nd_node_id n\<rparr>"
  let ?n = "n\<lparr>nd_msgs := (nd_msgs n)(a \<mapsto> ?m)\<rparr>"
  have io: "io_reader E a n = connection_write E a ?n" using m(1,2) by (rule io_reader_reply)
  have w: "if Suc (length (queued items ?n t)) < CAPACITY
    then \<exists>n'. connection_write E a ?n = Inr (0, n') \<and> length (nd_nodes n') = N \<and> nd_msgs n' = nd_msgs ?n \<and>
      co_status (nd_nodes n' ! t) = CONNECTING \<and> queued items n' t = queued items ?n t @ [a]
    else connection_write E a ?n = Inr (-1, ?n)"
    by (rule write_connecting [OF R]) (use Cons.prems m t in auto)
  show ?case
  proof (cases "Suc (length (queued items n t)) < CAPACITY")
    case True
    with w obtain n' where n': "connection_write E a ?n = Inr (0, n')" "length (nd_nodes n') = N"
        "nd_msgs n' = nd_msgs ?n" "co_status (nd_nodes n' ! t) = CONNECTING"
        "queued items n' t = queued items n t @ [a]" by auto
    have "\<exists>n''. io_run E as n' = Inr (-1, n'')"
      by (rule Cons.IH) (use n' Cons.prems True in auto)
    with n'(1) io show ?thesis by simp
  next
    case False
    with w io show ?thesis by simp
  qed
qed

lemma find_index_map: "find_index P (map f xs) = find_index (\<lambda>x. P (f x)) xs"
  by (induction xs) simp_all

lemma get_conn_addrs: "get_conn E n x = find_index (\<lambda>y. io_ip_equal E y x) (map co_addr (nd_nodes n))"
  by (simp add: get_conn_def find_index_map)

text \<open>
  C24. A connecting thread makes at most three attempts, with pauses of one, two and three seconds
  after the failures. When one succeeds the connection is alive; when all fail the thread ends
  and the connection stays \<open>CONNECTING\<close>. Either way its queue was emptied.
\<close>

theorem try_connect_outcome:
  assumes "ring_laws (io_ring E) items" and "co_status c = CONNECTING" and "try_connect E L nid nets c = (c', ps)"
  shows "(length ps < 3 \<and> ps = map int [1..<1 + length ps] \<and> co_status c' = ALIVE \<or>
      ps = [1, 2, 3] \<and> co_status c' = CONNECTING) \<and> items (cn_ring (co_chan_read c')) = []"
proof -
  have out: "items (cn_ring (co_chan_read c')) = [] \<and> length ps \<le> 3 - 0 \<and> ps = map int [0 + 1..<0 + 1 + length ps] \<and>
      (if length ps = 3 - 0 then co_status c' = co_status c else co_status c' = ALIVE)"
    by (rule try_loop_outcome [OF assms(1)]) (use assms(3) in \<open>simp_all add: try_connect_def\<close>)
  moreover have "ps = [1, 2, 3]" if "length ps = 3"
    using out that by (simp add: upt_rec)
  ultimately show ?thesis using assms(2) by (auto split: if_splits)
qed

text \<open>
  C36. A node whose connection was given up does not send to it again, and stops altogether: once
  as many replies to that peer were handed over as its queue has slots, the reader of the
  replica's channel ends with an error.
\<close>

theorem given_up_connection_stops_io:
  assumes "ring_laws (io_ring E) items" and "node_reach E L n" and "t < N" and "co_status (nd_nodes n ! t) = CONNECTING"
    and "distinct as" and "\<forall>a \<in> set as. \<exists>m. nd_msgs n a = Some m \<and> m_type m \<in> replies \<and> unat (m_from m) = t"
    and "length (queued items n t) < CAPACITY" and "CAPACITY \<le> length (queued items n t) + length as"
  shows "\<exists>n'. io_run E as n = Inr (-1, n')"
  using io_run_stuck [OF assms(1,3), of n as] assms node_reach_level [OF assms(2)] by (simp add: level_def)

text \<open>
  C37. The message that makes a node reconnect is lost: it is queued for the dead connection, the
  connecting thread resets that queue before its first attempt, and the message stays allocated
  with its counter as it was.
\<close>

theorem reconnect_loses_message:
  assumes R: "ring_laws (io_ring E) items" and m: "nd_msgs n a = Some m" and t: "unat (m_to m) < length (nd_nodes n)"
    and dead: "co_status (nd_nodes n ! unat (m_to m)) = DEAD"
    and room: "Suc (length (queued items n (unat (m_to m)))) < CAPACITY"
    and addr: "get_conn E n (co_addr (nd_nodes n ! unat (m_to m))) = Some (unat (m_to m))"
  shows "\<exists>n'. connection_write E a n = Inr (0, n') \<and> co_status (nd_nodes n' ! unat (m_to m)) = CONNECTING \<and>
    queued items n' (unat (m_to m)) = queued items n (unat (m_to m)) @ [a] \<and> nd_msgs n' = nd_msgs n \<and>
    items (cn_ring (co_chan_read (fst (try_connect E L nid nets (nd_nodes n' ! unat (m_to m)))))) = []"
proof -
  let ?t = "unat (m_to m)" and ?c = "nd_nodes n ! unat (m_to m)"
  obtain ch where ch: "chan_send_spsc (io_ring E) (co_chan_read ?c) a = (True, ch)"
      "items (cn_ring ch) = items (cn_ring (co_chan_read ?c)) @ [a]"
    using ring_send_room [OF R, of "co_chan_read ?c" SPSC a] room by (auto simp: chan_send_spsc_def queued_def)
  let ?n1 = "n\<lparr>nd_nodes := (nd_nodes n)[?t := ?c\<lparr>co_chan_read := ch\<rparr>]\<rparr>"
  have "map co_addr (nd_nodes ?n1) = map co_addr (nd_nodes n)"
    using t by (simp add: map_update list_update_same_conv)
  then have conn: "get_conn E ?n1 (co_addr ?c) = Some ?t" using addr by (simp add: get_conn_addrs)
  let ?n' = "fst (node_connect E (co_addr ?c) 0 ?n1)"
  have w: "connection_write E a n = Inr (0, ?n')"
    using m t ch(1) dead by (simp add: connection_write_def load_Some is_conn_status_def Let_def)
  have st: "co_status (nd_nodes ?n' ! ?t) = CONNECTING" "co_chan_read (nd_nodes ?n' ! ?t) = ch" "nd_msgs ?n' = nd_msgs n"
    using t by (simp_all add: node_connect_def conn set_conn_status_def Let_def)
  show ?thesis using w st ch(2) try_connect_queue [OF R] by (intro exI [of _ ?n']) (simp add: queued_def)
qed

end
