(* ===== verification/Epx_Node_Witness.thy ===== *)
theory Epx_Node_Witness
  imports Epx_Node Epx_Wire_Witness
begin

text \<open>
  The properties of a node at node 1 of three, over rings that are lists and addresses that are
  numbers; in the second node a connection to node 2 is being made.
\<close>

definition ex_io :: "(nat, nat list) io_env" where
  "ex_io = \<lparr>io_ring = list_ring, io_ip_equal = (=), io_spawn = 0\<rparr>"

definition zero_conn :: "(nat, nat list) connection" where
  "zero_conn = \<lparr>co_status = DEAD, co_xreplica_id = 0, co_handle = 0, co_prot_handle = 0, co_n = False,
     co_client = \<lparr>cl_chan = (0, 0), cl_expires = 0\<rparr>, co_fd = 0, co_latency = 0, co_addr = 0, co_back_off = 0,
     co_error = 0, co_p = TCP, co_fbs = ex_sock, co_chan_read = \<lparr>cn_ring = [], cn_c_sem = 0, cn_s_sem = 0\<rparr>,
     co_chan_write = None\<rparr>"

definition ex_node :: "(nat, nat list) node_io" where
  "ex_node = \<lparr>nd_node_id = 1, nd_running = False,
     nd_nodes = map (\<lambda>i. zero_conn\<lparr>co_addr := if i = 1 then 10 else [20, 0, 22] ! i\<rparr>) [0..<N],
     nd_quorum = replicate N 0, nd_msgs = Map.empty\<rparr>"

definition ex_join :: "(nat, nat list) node_io" where
  "ex_join = ex_node\<lparr>nd_nodes := (nd_nodes ex_node)[2 := (nd_nodes ex_node ! 2)\<lparr>co_status := CONNECTING, co_n := True, co_fd := 0\<rparr>]\<rparr>"

lemma ex_rings: "ring_laws (io_ring ex_io) (\<lambda>r. r)"
  by (simp add: ex_io_def list_ring_laws)

lemma ex_nodes: "nd_nodes ex_node = [zero_conn\<lparr>co_addr := 20\<rparr>, zero_conn\<lparr>co_addr := 10\<rparr>, zero_conn\<lparr>co_addr := 22\<rparr>]"
  by (simp add: ex_node_def N_def upt_rec numeral_3_eq_3 numeral_2_eq_2)

lemma ex_node_new:
  "new_node ex_io zero_conn 1 10 [20, 0, 22] [0, 0, 0] = Inr ex_node"
  "new_node ex_io zero_conn 1 10 [20, 0, 22] [0, 0, 2] = Inr ex_join"
proof -
  have three: "[0..<N] = [0, 1, 2]" by (simp add: N_def upt_rec)
  have start: "\<lparr>nd_node_id = 1, nd_running = False,
      nd_nodes = map (\<lambda>i. zero_conn\<lparr>co_addr := if i = unat 1 then 10 else [20, 0, 22] ! i\<rparr>) [0..<N],
      nd_quorum = replicate N 0, nd_msgs = Map.empty\<rparr> = ex_node"
    by (simp add: ex_node_def)
  show "new_node ex_io zero_conn 1 10 [20, 0, 22] [0, 0, 0] = Inr ex_node"
    unfolding new_node_def start Let_def by (simp add: three)
  have conn: "node_connect ex_io 22 0 ex_node = (ex_join, 0)"
    by (simp add: node_connect_def get_conn_def ex_nodes ex_io_def ex_join_def set_conn_status_def Let_def zero_conn_def)
  show "new_node ex_io zero_conn 1 10 [20, 0, 22] [0, 0, 2] = Inr ex_join"
    unfolding new_node_def start Let_def
    by (simp add: three ex_nodes) (simp add: conn ex_nodes zero_conn_def)
qed

definition ex_stream :: "(u8 list \<times> u8 list) stream_lib" where
  "ex_stream = list_stream"

lemma ex_reach: "node_reach ex_io ex_stream ex_node" "node_reach ex_io ex_stream ex_join"
  by (rule node_reach.fresh, rule ex_node_new, simp add: zero_conn_def)+

definition with_msg :: "message \<Rightarrow> (nat, nat list) node_io" where
  "with_msg m = ex_node\<lparr>nd_msgs := [7 \<mapsto> m]\<rparr>"

lemma with_msg_reach: "node_reach ex_io ex_stream (with_msg m)"
  unfolding with_msg_def
  using node_reach.step [OF ex_reach(1) node_step.handed [of ex_node 7 ex_io ex_stream m]] by (simp add: ex_node_def)

lemma ex_queued: "k < N \<Longrightarrow> queued (\<lambda>r. r) (with_msg m) k = []"
  by (auto simp: queued_def with_msg_def ex_nodes N_def less_Suc_eq numeral_3_eq_3 zero_conn_def)

text \<open>Both connections of node 1 are made, then the replica hands over a message.\<close>

definition good_net :: "u8 \<Rightarrow> (nat, u8 list \<times> u8 list) net" where
  "good_net b = \<lparr>nt_fromfd = (\<lambda>fd. -1), nt_connect = (\<lambda>a. 5), nt_hmake = 9, nt_stream = ([], [b])\<rparr>"

lemma good_attempt:
  assumes "new_node_connection ex_io ex_stream 1 (good_net b) c = (c', cl, rc)" and "co_fd c = 0"
  shows "co_status c' = ALIVE" and "cn_ring (co_chan_read c') = []"
proof -
  have "co_status (fst (new_node_connection ex_io ex_stream 1 (good_net b) c)) = ALIVE"
    using assms(2) by (simp add: new_node_connection_def good_net_def init_fbs_def Let_def run_node_fbs_def fbs_sock_attach_def
        ex_stream_def list_stream_def run_conn_def set_conn_status_def)
  then show "co_status c' = ALIVE" using assms(1) by simp
  show "cn_ring (co_chan_read c') = []" by (rule attempt_queue [OF ex_rings assms(1)])
qed

lemma alive_reach:
  obtains n where "node_reach ex_io ex_stream n" and "nd_msgs n = [7 \<mapsto> m]" and "nd_node_id n = 1"
    and "\<forall>k < N. k \<noteq> 1 \<longrightarrow> co_status (nd_nodes n ! k) = ALIVE" and "\<forall>k < N. queued (\<lambda>r. r) n k = []"
proof -
  obtain c0 cl0 rc0 where 0: "new_node_connection ex_io ex_stream 1 (good_net 0) (nd_nodes ex_node ! 0) = (c0, cl0, rc0)"
    by (metis surj_pair)
  let ?n0 = "ex_node\<lparr>nd_nodes := (nd_nodes ex_node)[0 := c0]\<rparr>"
  obtain c2 cl2 rc2 where 2: "new_node_connection ex_io ex_stream 1 (good_net 2) (nd_nodes ?n0 ! 2) = (c2, cl2, rc2)"
    by (metis surj_pair)
  let ?n2 = "?n0\<lparr>nd_nodes := (nd_nodes ?n0)[2 := c2]\<rparr>"
  have id: "nd_node_id ex_node = 1" by (simp add: ex_node_def)
  have "node_step ex_io ex_stream ex_node ?n0"
    by (rule node_step.attempts) (use 0 in \<open>simp_all add: id N_def\<close>)
  moreover have "node_step ex_io ex_stream ?n0 ?n2"
    by (rule node_step.attempts) (use 2 in \<open>simp_all add: id N_def\<close>)
  moreover have "node_step ex_io ex_stream ?n2 (?n2\<lparr>nd_msgs := (nd_msgs ?n2)(7 \<mapsto> m)\<rparr>)"
    by (rule node_step.handed) (simp add: ex_node_def)
  ultimately have reach: "node_reach ex_io ex_stream (?n2\<lparr>nd_msgs := (nd_msgs ?n2)(7 \<mapsto> m)\<rparr>)"
    using ex_reach(1) by (meson node_reach.step)
  have "co_fd (nd_nodes ex_node ! 0) = 0" "co_fd (nd_nodes ?n0 ! 2) = 0"
    by (simp_all add: ex_nodes zero_conn_def)
  note good = good_attempt [OF 0 this(1)] good_attempt [OF 2 this(2)]
  show ?thesis
    by (rule that [OF reach])
      (use good in \<open>auto simp: ex_nodes ex_node_def [THEN arg_cong [of _ _ nd_node_id]] ex_node_def [THEN arg_cong [of _ _ nd_msgs]]
        N_def less_Suc_eq numeral_3_eq_3 numeral_2_eq_2 queued_def zero_conn_def\<close>)
qed

theorem prepare_reaches_peers_witness:
  "\<exists>n n' n1 n2. node_reach ex_io ex_stream n \<and> io_reader ex_io 7 n = Inr (0, n') \<and> queued (\<lambda>r. r) n' 2 = [7] \<and>
    conn_reader ex_io 0 2 n' = Inr (True, n1) \<and> conn_reader ex_io 0 0 n1 = Inr (True, n2) \<and> nd_msgs n2 7 = None"
proof -
  let ?m = "ex_message\<lparr>m_type := PREPARE\<rparr>"
  obtain n where n: "node_reach ex_io ex_stream n" "nd_msgs n = [7 \<mapsto> ?m]" "nd_node_id n = 1"
    "\<forall>k < N. k \<noteq> 1 \<longrightarrow> co_status (nd_nodes n ! k) = ALIVE" "\<forall>k < N. queued (\<lambda>r. r) n k = []"
    by (rule alive_reach)
  have m: "nd_msgs n 7 = Some ?m" "m_type ?m = PREPARE" using n(2) by simp_all
  have id: "unat (nd_node_id n) < N" "unat (nd_node_id n) = 1" using n(3) by (simp_all add: N_def)
  have room: "room_for (\<lambda>r. r) (N - 1) n" using n(5) by (simp add: room_for_def N_def CAPACITY_def)
  have two: "(2 :: nat) < N" "(0 :: nat) < N" "distinct [2, 0, 1 :: nat]" by (simp_all add: N_def)
  have alive: "\<forall>k < N. k \<noteq> unat (nd_node_id n) \<longrightarrow> co_status (nd_nodes n ! k) = ALIVE" using n(4) id(2) by simp
  from prepare_reaches_peers [OF n(1) ex_rings m id(1) room alive, unfolded id(2)] obtain n' where
    io: "io_reader ex_io 7 n = Inr (0, n')"
    and q: "\<forall>k < N. queued (\<lambda>r. r) n' k = queued (\<lambda>r. r) n k @ (if k = 1 then [] else [7]) \<and>
      co_status (nd_nodes n' ! k) = co_status (nd_nodes n ! k)"
    and rd: "\<forall>k1 < N. \<forall>k2 < N. distinct [k1, k2, 1] \<and> queued (\<lambda>r. r) n k1 = [] \<and> queued (\<lambda>r. r) n k2 = [] \<longrightarrow>
      (\<exists>n1 n2. conn_reader ex_io 0 k1 n' = Inr (True, n1) \<and> nd_msgs n1 7 \<noteq> None \<and> conn_reader ex_io 0 k2 n1 = Inr (True, n2) \<and>
        nd_msgs n2 = (nd_msgs n)(7 := None) \<and> queued (\<lambda>r. r) n2 k1 = [] \<and> queued (\<lambda>r. r) n2 k2 = [])"
    by blast
  have empty: "queued (\<lambda>r. r) n 2 = []" "queued (\<lambda>r. r) n 0 = []" using n(5) two by blast+
  obtain n1 n2 where r: "conn_reader ex_io 0 2 n' = Inr (True, n1)" "conn_reader ex_io 0 0 n1 = Inr (True, n2)"
    "nd_msgs n2 = (nd_msgs n)(7 := None)"
    using rd [rule_format, OF two(1,2)] two(3) empty by blast
  have "queued (\<lambda>r. r) n' 2 = [7]" using q [rule_format, OF two(1)] empty(1) by simp
  moreover have "nd_msgs n2 7 = None" using r(3) by simp
  ultimately show ?thesis using n(1) io r(1,2) by blast
qed

theorem quorum_is_node_zero_witness:
  "\<exists>n'. io_reader ex_io 7 (with_msg ex_message) = Inr (0, n') \<and> queued (\<lambda>r. r) n' 0 = [7, 7] \<and> queued (\<lambda>r. r) n' 2 = []"
  using quorum_is_node_zero [OF with_msg_reach ex_rings, of ex_message 7 ex_message]
    ex_queued [of _ ex_message]
  by (auto simp: room_for_def N_def CAPACITY_def numeral_3_eq_3 numeral_2_eq_2 with_msg_def ex_message_def)

theorem update_quorum_first_witness:
  "update_quorum [0, 1, 2] [zero_conn\<lparr>co_latency := 5\<rparr>, zero_conn\<lparr>co_latency := 3, co_status := ALIVE\<rparr>, zero_conn] = Inl Out_of_bounds"
  using update_quorum_first [of "[zero_conn\<lparr>co_latency := 5\<rparr>, zero_conn\<lparr>co_latency := 3, co_status := ALIVE\<rparr>, zero_conn]" "[0, 1, 2]"]
  by (simp add: N_def zero_conn_def)

definition no_net :: "(nat, u8 list \<times> u8 list) net" where
  "no_net = \<lparr>nt_fromfd = (\<lambda>fd. -1), nt_connect = (\<lambda>a. -1), nt_hmake = -1, nt_stream = ([], [])\<rparr>"


lemma no_net_attempt: "co_fd c = 0 \<Longrightarrow> \<exists>c1. new_node_connection ex_io ex_stream 1 no_net c = (c1, [], -1)"
  by (auto simp: new_node_connection_def no_net_def init_fbs_def Let_def)

lemma no_net_fails:
  assumes "try_connect ex_io ex_stream 1 (\<lambda>i. no_net) c = (c', ps)" and "co_fd c = 0"
  shows "ps \<noteq> []"
proof -
  obtain c1 where "new_node_connection ex_io ex_stream 1 no_net c = (c1, [], -1)"
    using no_net_attempt [OF assms(2)] by blast
  then show ?thesis
    using assms(1) by (auto simp: try_connect_def try_loop.simps [of ex_io ex_stream 1 "\<lambda>i. no_net" 0 c] split: prod.splits)
qed

theorem try_connect_outcome_witness:
  "\<exists>c' ps. try_connect ex_io ex_stream 1 (\<lambda>i. no_net) (nd_nodes ex_join ! 2) = (c', ps) \<and> ps \<noteq> [] \<and>
    (length ps < 3 \<and> co_status c' = ALIVE \<or> ps = [1, 2, 3] \<and> co_status c' = CONNECTING)"
proof -
  obtain c' ps where t: "try_connect ex_io ex_stream 1 (\<lambda>i. no_net) (nd_nodes ex_join ! 2) = (c', ps)" by force
  have st: "co_status (nd_nodes ex_join ! 2) = CONNECTING" "co_fd (nd_nodes ex_join ! 2) = 0"
    by (simp_all add: ex_join_def ex_nodes)
  show ?thesis using try_connect_outcome [OF ex_rings st(1) t] no_net_fails [OF t st(2)] t by blast
qed

definition reply :: message where
  "reply = ex_message\<lparr>m_type := PREPARE_REPLY, m_from := 2\<rparr>"

definition with_replies :: "nat \<Rightarrow> (nat, nat list) node_io" where
  "with_replies k = ex_join\<lparr>nd_msgs := \<lambda>a. if a < k then Some reply else None\<rparr>"

lemma with_replies_reach: "node_reach ex_io ex_stream (with_replies k)"
proof (induction k)
  case 0
  have "with_replies 0 = ex_join" by (simp add: with_replies_def ex_join_def ex_node_def)
  then show ?case using ex_reach(2) by simp
next
  case (Suc k)
  have "with_replies (Suc k) = with_replies k\<lparr>nd_msgs := (nd_msgs (with_replies k))(k \<mapsto> reply)\<rparr>"
    by (auto simp: with_replies_def less_Suc_eq fun_eq_iff)
  moreover have "nd_msgs (with_replies k) k = None" by (simp add: with_replies_def)
  ultimately show ?case using node_reach.step [OF Suc node_step.handed [of "with_replies k" k]] by simp
qed

theorem given_up_connection_stops_io_witness:
  "\<exists>n'. io_run ex_io [0..<2048] (with_replies 2048) = Inr (-1, n')"
  by (rule given_up_connection_stops_io [OF ex_rings with_replies_reach, of 2])
    (simp_all add: N_def CAPACITY_def with_replies_def ex_join_def ex_nodes queued_def zero_conn_def reply_def replies_def)

theorem reconnect_loses_message_witness:
  "\<exists>n'. connection_write ex_io 7 (with_msg ex_message) = Inr (0, n') \<and> queued (\<lambda>r. r) n' 2 = [7] \<and>
    cn_ring (co_chan_read (fst (try_connect ex_io ex_stream 1 (\<lambda>i. no_net) (nd_nodes n' ! 2)))) = []"
  using reconnect_loses_message [OF ex_rings, of "with_msg ex_message" 7 ex_message ex_stream 1 "\<lambda>i. no_net"] ex_queued [of 2 ex_message]
  by (simp add: with_msg_def ex_nodes ex_message_def zero_conn_def N_def CAPACITY_def get_conn_def ex_io_def) blast

end
