(* ===== verification/Epx_Clients.thy ===== *)
theory Epx_Clients
  imports Epx_Node Epx_Transport
begin

text \<open>
  The clients of a node, in \<^verbatim>\<open>src/io.c\<close>: the ranges they subscribe to, how overlapping ranges are
  merged, what a client's connection reads, and how committed messages are passed on to the
  subscribers. The ranges are linked by the list macros of \<^verbatim>\<open>src/queue.h\<close>, so they live in a heap;
  the tree that holds them is the \<^verbatim>\<open>llrb-interval\<close> library, a parameter.
\<close>

section \<open>Registered ranges and their lists\<close>

definition MAX_CLIENTS :: nat where [const_defs]: "MAX_CLIENTS = 10"

record registered_span =
  rs_start_key :: key
  rs_end_key :: key
  rs_next :: "nat option"
  rs_clients :: "client list"

type_synonym rspans = "nat \<Rightarrow> registered_span option"

text \<open>
  The operations of the tree on addresses of ranges: \<open>ct_delete\<close> returns the element it removed, the
  group operations call the function they are given with an element, the head of the group list
  and the heap.
\<close>

record 'g client_lib =
  ct_insert :: "'g \<Rightarrow> nat \<Rightarrow> 'g"
  ct_delete :: "'g \<Rightarrow> nat \<Rightarrow> 'g \<times> nat option"
  ct_group_add :: "(nat \<Rightarrow> nat option \<Rightarrow> 'g \<times> rspans \<Rightarrow> ('g \<times> rspans \<times> nat option) res) \<Rightarrow> nat \<Rightarrow>
    'g \<times> rspans \<Rightarrow> (bool \<times> 'g \<times> rspans) res"
  ct_group_find :: "(nat \<Rightarrow> nat option \<Rightarrow> 'g \<times> rspans \<Rightarrow> ('g \<times> rspans \<times> nat option) res) \<Rightarrow> nat \<Rightarrow>
    'g \<times> rspans \<Rightarrow> ('g \<times> rspans \<times> nat option) res"

definition rspcmp :: "registered_span \<Rightarrow> registered_span \<Rightarrow> int" where
  "rspcmp a b = strcmp (rs_start_key a) (rs_start_key b)"

definition slist_insert_head :: "nat \<Rightarrow> nat option \<Rightarrow> rspans \<Rightarrow> (rspans \<times> nat option) res" where
  "slist_insert_head e head h = and_then (load h e) (\<lambda>x. Inr (h(e \<mapsto> x\<lparr>rs_next := head\<rparr>), Some e))"

definition slist_remove_after :: "nat \<Rightarrow> rspans \<Rightarrow> rspans res" where
  "slist_remove_after p h =
     and_then (load h p) (\<lambda>x.
     and_then (deref (rs_next x)) (\<lambda>q.
     and_then (load h q) (\<lambda>y. Inr (h(p \<mapsto> x\<lparr>rs_next := rs_next y\<rparr>)))))"

section \<open>Merging ranges\<close>

text \<open>The slots of the merged range: a client is copied to every free slot, without a stop.\<close>

definition copy_client :: "client \<Rightarrow> nat \<Rightarrow> client list \<Rightarrow> client list res" where
  "copy_client x tcl ts = and_then (aget ts tcl) (\<lambda>t. if cl_expires t = 0 then aset ts tcl x else Inr ts)"

definition merge_slots :: "client list \<Rightarrow> client list \<Rightarrow> client list res" where
  "merge_slots cs ts =
     for_each [0..<MAX_CLIENTS] (\<lambda>cl ts.
       and_then (aget cs cl) (\<lambda>x.
         if cl_expires x \<noteq> 0 then for_each [0..<MAX_CLIENTS] (copy_client x) ts else Inr ts)) ts"

definition widen_keys :: "registered_span \<Rightarrow> registered_span \<Rightarrow> registered_span" where
  "widen_keys m c =
     (let m1 = (if strcmp (rs_start_key m) (rs_start_key c) > 0 then m\<lparr>rs_start_key := rs_start_key c\<rparr> else m)
      in if strcmp (rs_end_key m1) (rs_end_key c) < 0 then m1\<lparr>rs_end_key := rs_end_key c\<rparr> else m1)"

text \<open>The loop of \<open>merge_clients\<close>; \<open>fuel\<close> bounds the length of the list.\<close>

fun merge_walk :: "'g client_lib \<Rightarrow> nat \<Rightarrow> nat \<Rightarrow> nat \<Rightarrow> nat option \<Rightarrow> 'g \<times> rspans \<Rightarrow> ('g \<times> rspans) res" where
  "merge_walk C tm fuel prev None st = Inr st"
| "merge_walk C tm 0 prev (Some c) st = Inl Loop_bound"
| "merge_walk C tm (Suc fuel) prev (Some c) (g, h) =
     and_then (load h c) (\<lambda>rc.
     and_then (load h tm) (\<lambda>m.
       if strcmp (rs_start_key m) (rs_end_key rc) \<le> 0 \<and> strcmp (rs_end_key m) (rs_start_key rc) \<ge> 0 then
         and_then (merge_slots (rs_clients rc) (rs_clients m)) (\<lambda>ts.
         and_then (slist_remove_after prev (h(tm \<mapsto> (widen_keys m rc)\<lparr>rs_clients := ts\<rparr>))) (\<lambda>h'.
           merge_walk C tm fuel prev (rs_next rc) (fst (ct_delete C g c), h')))
       else merge_walk C tm fuel c (rs_next rc) (g, h)))"

definition merge_clients :: "'g client_lib \<Rightarrow> nat \<Rightarrow> nat \<Rightarrow> nat option \<Rightarrow> 'g \<times> rspans \<Rightarrow>
    ('g \<times> rspans \<times> nat option) res" where
  "merge_clients C fuel tm head = (\<lambda>(g, h).
     and_then (slist_insert_head tm head h) (\<lambda>(h1, head').
       case head of
         None \<Rightarrow> Inr (g, h1, head')
       | Some c \<Rightarrow> and_then (merge_walk C tm fuel tm (Some c) (g, h1)) (\<lambda>(g', h'). Inr (g', h', head'))))"

definition find_clients :: "nat \<Rightarrow> nat option \<Rightarrow> 'g \<times> rspans \<Rightarrow> ('g \<times> rspans \<times> nat option) res" where
  "find_clients tm head = (\<lambda>(g, h). and_then (slist_insert_head tm head h) (\<lambda>(h1, head'). Inr (g, h1, head')))"

section \<open>Subscribing\<close>

definition empty_rrange :: "registered_span \<Rightarrow> bool" where
  "empty_rrange r \<longleftrightarrow> key_bytes (rs_start_key r) = []"

text \<open>
  \<open>var\<close> is the address of the local variable \<^verbatim>\<open>crsp\<close>, which is not initialised (\<open>garbage\<close>); \<open>fresh\<close> is what
  \<^verbatim>\<open>malloc\<close> returns. The variable is gone when the function returns.
\<close>

definition register_client :: "'g client_lib \<Rightarrow> nat \<Rightarrow> nat \<Rightarrow> registered_span \<Rightarrow> nat option \<Rightarrow> client \<Rightarrow> span \<Rightarrow>
    'g \<times> rspans \<Rightarrow> ('g \<times> rspans) res" where
  "register_client C fuel var garbage fresh cl sp = (\<lambda>(g, h).
     and_then (aset (rs_clients garbage) 0 cl) (\<lambda>cls.
     and_then (ct_group_add C (merge_clients C fuel) var
         (g, h(var \<mapsto> garbage\<lparr>rs_start_key := start_key sp, rs_end_key := end_key sp, rs_clients := cls\<rparr>)))
       (\<lambda>(added, g1, h1).
         if \<not> added then Inr (g1, h1(var := None))
         else
           and_then (deref fresh) (\<lambda>p.
           and_then (load h1 var) (\<lambda>crsp.
           and_then (aset (rs_clients crsp) 0 cl) (\<lambda>cls'.
             Inr (ct_insert C g1 p, h1(p \<mapsto> crsp\<lparr>rs_clients := cls'\<rparr>, var := None))))))))"

text \<open>The loop over the ranges of a command that stops at the first empty one.\<close>

fun each_span :: "(span \<Rightarrow> 's \<Rightarrow> 's res) \<Rightarrow> command \<Rightarrow> nat list \<Rightarrow> 's \<Rightarrow> 's res" where
  "each_span f c [] s = Inr s"
| "each_span f c (i # is) s =
     and_then (aget (spans c) i) (\<lambda>sp.
       if empty_range sp then Inr s else and_then (f sp s) (each_span f c is))"

section \<open>What a connection reads\<close>

text \<open>\<open>am\<close> and \<open>ac\<close> are what the two calls of \<^verbatim>\<open>malloc\<close> return, \<open>gm\<close> and \<open>gc\<close> what they leave there.\<close>

definition new_message :: "nat option \<Rightarrow> nat option \<Rightarrow> message \<Rightarrow> command \<Rightarrow> cmds \<times> msgs \<Rightarrow> nat option \<times> cmds \<times> msgs" where
  "new_message am ac gm gc = (\<lambda>(cmds, h).
     case am of
       None \<Rightarrow> (None, cmds, h)
     | Some a \<Rightarrow>
         (case ac of
            None \<Rightarrow> (None, cmds, h(a \<mapsto> gm))
          | Some c \<Rightarrow> (Some a, cmds(c \<mapsto> gc), h(a \<mapsto> gm\<lparr>m_command := Some c, m_ref := 1\<rparr>))))"

definition free_command :: "cmd_ptr \<Rightarrow> cmds \<Rightarrow> cmds res" where
  "free_command p cmds = (case p of None \<Rightarrow> Inr cmds | Some c \<Rightarrow> and_then (load cmds c) (\<lambda>_. Inr (cmds(c := None))))"

definition read_message :: "'h stream_lib \<Rightarrow> (u8 list \<Rightarrow> wire_message option) \<Rightarrow> nat \<Rightarrow> nat \<Rightarrow> fbs_sock \<Rightarrow> 'h \<Rightarrow> cmds \<times> msgs \<Rightarrow>
    (int \<times> fbs_sock \<times> 'h \<times> cmds \<times> msgs) res" where
  "read_message L as_root room a sock strm = (\<lambda>(cmds, h).
     and_then (load h a) (\<lambda>m.
     and_then (fbs_sock_mrecvl L (decode_message as_root) room (cmds, m) sock strm) (\<lambda>(s, (cmds', m'), sock', strm').
       if s \<le> 0 then
         and_then (free_command (m_command m') cmds') (\<lambda>cmds''. Inr (-1, sock', strm', cmds'', h(a := None)))
       else Inr (s, sock', strm', cmds', h(a \<mapsto> m')))))"

text \<open>
  One round of \<open>writer\<close> on a connection. \<open>reg\<close> is \<open>register_client\<close> with its allocations; \<open>inq\<close> is the
  channel \<^verbatim>\<open>chan_write\<close> points to. The result is \<open>False\<close> when the coroutine ends.
\<close>

definition writer :: "('a, 'r) io_env \<Rightarrow> 'h stream_lib \<Rightarrow> (u8 list \<Rightarrow> wire_message option) \<Rightarrow> nat \<Rightarrow>
    (client \<Rightarrow> span \<Rightarrow> 'g \<times> rspans \<Rightarrow> ('g \<times> rspans) res) \<Rightarrow> nat option \<Rightarrow> nat option \<Rightarrow> message \<Rightarrow> command \<Rightarrow>
    ('a, 'r) connection \<Rightarrow> 'h \<Rightarrow> cmds \<times> msgs \<Rightarrow> 'g \<times> rspans \<Rightarrow> 'r chan \<Rightarrow>
    (bool \<times> ('a, 'r) connection \<times> 'h \<times> (cmds \<times> msgs) \<times> ('g \<times> rspans) \<times> 'r chan) res" where
  "writer E L as_root room reg am ac gm gc c strm heap subs inq =
     (if co_status c \<noteq> ALIVE then Inr (False, c, strm, heap, subs, inq)
      else case new_message am ac gm gc heap of
        (None, heap1) \<Rightarrow> Inr (False, c, strm, heap1, subs, inq)
      | (Some a, heap1) \<Rightarrow>
          and_then (read_message L as_root room a (co_fbs c) strm heap1) (\<lambda>(s, sock, strm', cmds, h).
            let c1 = c\<lparr>co_fbs := sock\<rparr>; is_client = (cl_expires (co_client c) \<noteq> 0) in
            if s \<le> 0 then Inr (False, c1, strm', (cmds, h), subs, inq)
            else
              and_then (load h a) (\<lambda>m.
              let h1 = h(a \<mapsto> m\<lparr>m_from := co_xreplica_id c\<rparr>) in
              and_then (if \<not> is_client then Inr subs
                        else and_then (load_cmd cmds (m_command m)) (\<lambda>cmd.
                          each_span (reg (co_client c)) cmd [0..<unat (tx_size cmd)] subs)) (\<lambda>subs'.
              Inr (True, c1, strm', (cmds, h1), subs', snd (chan_send_mpsc (io_ring E) inq a))))))"

section \<open>What the subscribers are told\<close>

text \<open>
  The loop over a group: every client that has not expired gets the message through its pipe; a
  range without such a client is deleted and freed, and then its link is read. The list holds
  the handles written to.
\<close>

fun notify_group :: "'g client_lib \<Rightarrow> int \<Rightarrow> nat \<Rightarrow> nat option \<Rightarrow> 'g \<times> rspans \<times> int list \<Rightarrow>
    ('g \<times> rspans \<times> int list) res" where
  "notify_group C now fuel None st = Inr st"
| "notify_group C now 0 (Some p) st = Inl Loop_bound"
| "notify_group C now (Suc fuel) (Some p) (g, h, out) =
     and_then (load h p) (\<lambda>r.
     and_then (for_each [0..<MAX_CLIENTS] (\<lambda>j (none_active, out).
         and_then (aget (rs_clients r) j) (\<lambda>cl.
           Inr (if cl_expires cl > now then (False, out @ [snd (cl_chan cl)]) else (none_active, out)))) (True, out))
       (\<lambda>(none_active, out').
         let (g', h') =
           (if none_active then
              (case ct_delete C g p of (g', gone) \<Rightarrow> (g', case gone of None \<Rightarrow> h | Some q \<Rightarrow> h(q := None)))
            else (g, h)) in
         and_then (load h' p) (\<lambda>r'. notify_group C now fuel (rs_next r') (g', h', out'))))"

text \<open>
  One message of \<open>eo_reader\<close>: its counter is set, then the group of every range of its command is
  looked up (\<open>var\<close> is the local variable \<^verbatim>\<open>rsp\<close>) and told.
\<close>

definition eo_reader :: "'g client_lib \<Rightarrow> int \<Rightarrow> nat \<Rightarrow> nat \<Rightarrow> registered_span \<Rightarrow> nat \<Rightarrow> cmds \<Rightarrow>
    ('a, 'r) node_io \<times> 'g \<times> rspans \<Rightarrow> (('a, 'r) node_io \<times> 'g \<times> rspans \<times> int list) res" where
  "eo_reader C now fuel var garbage a cmds = (\<lambda>(n, g, h).
     and_then (set_msg a (\<lambda>m. m\<lparr>m_ref := 1\<rparr>) n) (\<lambda>n1.
     and_then (load (nd_msgs n1) a) (\<lambda>m.
     and_then (load_cmd cmds (m_command m)) (\<lambda>cmd.
     and_then (each_span (\<lambda>sp (g, h, out).
         and_then (ct_group_find C find_clients var
             (g, h(var \<mapsto> garbage\<lparr>rs_start_key := start_key sp, rs_end_key := end_key sp\<rparr>))) (\<lambda>(g1, h1, head).
         and_then (notify_group C now fuel head (g1, h1, out)) (\<lambda>(g2, h2, out2).
           Inr (g2, h2(var := None), out2)))) cmd [0..<unat (tx_size cmd)] (g, h, []))
       (\<lambda>(g', h', out). Inr (n1, g', h', out))))))"

definition destroy_rsp :: "nat option \<Rightarrow> rspans \<Rightarrow> rspans res" where
  "destroy_rsp p h = (case p of None \<Rightarrow> Inr h | Some a \<Rightarrow> and_then (load h a) (\<lambda>_. Inr (h(a := None))))"

end
