(* ===== verification/Epx_Clients_Laws.thy ===== *)
theory Epx_Clients_Laws
  imports Epx_Clients Epx_Walks
begin

text \<open>
  The pointer programs of \<open>Epx_Clients\<close> against lists: what merging does to the group list, the range
  and its slots, and what telling a group does.
\<close>

section \<open>Linked lists in the heap\<close>

fun chain :: "rspans \<Rightarrow> nat option \<Rightarrow> nat list \<Rightarrow> bool" where
  "chain h p [] \<longleftrightarrow> p = None"
| "chain h p (x # xs) \<longleftrightarrow> p = Some x \<and> (\<exists>r. h x = Some r \<and> chain h (rs_next r) xs)"

lemma chain_cong:
  "(\<And>x. x \<in> set xs \<Longrightarrow> map_option rs_next (h x) = map_option rs_next (h' x)) \<Longrightarrow> chain h p xs = chain h' p xs"
proof (induction xs arbitrary: p)
  case Nil
  then show ?case by simp
next
  case (Cons x xs)
  have IH: "chain h q xs = chain h' q xs" for q by (rule Cons.IH) (simp add: Cons.prems)
  from Cons.prems [of x] show ?case by (cases "h x"; cases "h' x") (simp_all add: IH)
qed

lemma chain_head: "chain h p xs \<Longrightarrow> p = (case xs of [] \<Rightarrow> None | x # _ \<Rightarrow> Some x)"
  by (cases xs) simp_all

lemma chain_alloc: "chain h p xs \<Longrightarrow> x \<in> set xs \<Longrightarrow> \<exists>r. h x = Some r"
  by (induction xs arbitrary: p) auto

lemma chain_append: "chain h p (xs @ y # ys) \<longleftrightarrow>
    (\<exists>r. h y = Some r \<and> chain h (rs_next r) ys \<and> chain (h(y \<mapsto> r\<lparr>rs_next := None\<rparr>)) p (xs @ [y]))"
  if "distinct (xs @ [y])"
  using that
proof (induction xs arbitrary: p)
  case Nil
  then show ?case by auto
next
  case (Cons x xs)
  then show ?case by auto
qed

text \<open>Unlinking the element behind \<open>a\<close>.\<close>

lemma chain_unlink:
  assumes d: "distinct (pre @ a # c # xs)" and ch: "chain h p (pre @ a # c # xs)"
    and a: "h a = Some ra" and c: "h c = Some rc"
  shows "slist_remove_after a h = Inr (h(a \<mapsto> ra\<lparr>rs_next := rs_next rc\<rparr>)) \<and>
    chain (h(a \<mapsto> ra\<lparr>rs_next := rs_next rc\<rparr>)) p (pre @ a # xs) \<and> rs_next ra = Some c \<and>
    rs_next rc = (case xs of [] \<Rightarrow> None | x # _ \<Rightarrow> Some x)"
proof -
  have dis: "distinct (pre @ [a])" using d by simp
  obtain r where "h a = Some r" "chain h (rs_next r) (c # xs)" "chain (h(a \<mapsto> r\<lparr>rs_next := None\<rparr>)) p (pre @ [a])"
    using chain_append [OF dis, of h p "c # xs"] ch by blast
  then have tail: "chain h (rs_next ra) (c # xs)" and front: "chain (h(a \<mapsto> ra\<lparr>rs_next := None\<rparr>)) p (pre @ [a])"
    using a by simp_all
  with c have n: "rs_next ra = Some c" and xs: "chain h (rs_next rc) xs" by auto
  let ?h = "h(a \<mapsto> ra\<lparr>rs_next := rs_next rc\<rparr>)"
  have "chain ?h (rs_next rc) xs" using xs d by (subst chain_cong [of xs ?h h]) auto
  moreover have "chain (?h(a \<mapsto> (ra\<lparr>rs_next := rs_next rc\<rparr>)\<lparr>rs_next := None\<rparr>)) p (pre @ [a])" using front by simp
  ultimately have "chain ?h p (pre @ a # xs)"
    by (intro chain_append [OF dis, THEN iffD2] exI [of _ "ra\<lparr>rs_next := rs_next rc\<rparr>"]) simp
  then show ?thesis using a c n chain_head [OF xs] by (simp add: slist_remove_after_def load_Some)
qed

section \<open>Slots\<close>

definition live_client :: "client \<Rightarrow> bool" where
  "live_client x \<longleftrightarrow> cl_expires x \<noteq> 0"

definition fill :: "client option \<Rightarrow> client list \<Rightarrow> client list" where
  "fill x ts = (case x of None \<Rightarrow> ts | Some x \<Rightarrow> map (\<lambda>t. if cl_expires t = 0 then x else t) ts)"

lemma fill_simps [simp]: "fill None ts = ts" "length (fill x ts) = length ts"
  by (simp_all add: fill_def split: option.split)

lemma fill_again: "live_client x \<Longrightarrow> fill y (fill (Some x) ts) = fill (Some x) ts"
  by (auto simp: fill_def live_client_def split: option.split)

lemma find_SomeD: "List.find P xs = Some x \<Longrightarrow> P x"
  by (auto simp: find_Some_iff)

lemma find_append: "List.find P (xs @ ys) = (case List.find P xs of None \<Rightarrow> List.find P ys | Some x \<Rightarrow> Some x)"
  by (induction xs) simp_all

lemma fill_find_append:
  "fill (List.find live_client (xs @ ys)) ts = fill (List.find live_client ys) (fill (List.find live_client xs) ts)"
  by (auto simp: find_append fill_again dest: find_SomeD split: option.split)

lemma copy_client_loop:
  "n \<le> length ts \<Longrightarrow> for_each [0..<n] (copy_client x) ts = Inr (fill (Some x) (take n ts) @ drop n ts)"
proof (induction n)
  case 0
  then show ?case by (simp add: fill_def)
next
  case (Suc n)
  then have n: "n < length ts" by simp
  have "drop n ts = ts ! n # drop (Suc n) ts" using n by (simp add: Cons_nth_drop_Suc)
  moreover have "take (Suc n) ts = take n ts @ [ts ! n]" using n by (rule take_Suc_conv_app_nth)
  ultimately show ?case
    using Suc n by (simp add: for_each_append copy_client_def nth_append list_update_append fill_def)
qed

lemma merge_slots_eq:
  assumes "length cs = MAX_CLIENTS" and "length ts = MAX_CLIENTS"
  shows "merge_slots cs ts = Inr (fill (List.find live_client cs) ts)"
proof -
  let ?f = "\<lambda>cl ts. and_then (aget cs cl) (\<lambda>x.
      if cl_expires x \<noteq> 0 then for_each [0..<MAX_CLIENTS] (copy_client x) ts else Inr ts)"
  have "n \<le> MAX_CLIENTS \<Longrightarrow> for_each [0..<n] ?f ts = Inr (fill (List.find live_client (take n cs)) ts)" for n
  proof (induction n)
    case 0
    then show ?case by simp
  next
    case (Suc n)
    then have n: "n < length cs" using assms by simp
    have "for_each [0..<MAX_CLIENTS] (copy_client x) ts' = Inr (fill (Some x) ts')" if "length ts' = MAX_CLIENTS" for x ts'
      using copy_client_loop [of MAX_CLIENTS ts' x] that by simp
    moreover have "live_client (cs ! n) \<longleftrightarrow> cl_expires (cs ! n) \<noteq> 0" by (simp add: live_client_def)
    ultimately show ?case
      using Suc n assms by (simp add: for_each_append take_Suc_conv_app_nth fill_find_append)
  qed
  from this [of MAX_CLIENTS] show ?thesis using assms by (simp add: merge_slots_def)
qed

section \<open>Merging\<close>

definition span_of :: "registered_span \<Rightarrow> span" where
  "span_of r = \<lparr>start_key = rs_start_key r, end_key = rs_end_key r\<rparr>"

lemma span_of_widen [simp]: "span_of (widen_keys m c) = widen (span_of m) (span_of c)"
  by (simp add: span_of_def widen_keys_def widen_def Let_def)

lemma span_of_parts [simp]:
  "start_key (span_of r) = rs_start_key r" "end_key (span_of r) = rs_end_key r"
  "span_of (r\<lparr>rs_next := p\<rparr>) = span_of r" "span_of (r\<lparr>rs_clients := ts\<rparr>) = span_of r"
  "rs_clients (widen_keys m c) = rs_clients m" "rs_next (widen_keys m c) = rs_next m"
  by (simp_all add: span_of_def widen_keys_def Let_def)

text \<open>
  What merging is to do, on lists: the range and the slots of the new element, the elements that
  stay in the list, and those that go.
\<close>

fun absorb :: "(nat \<Rightarrow> registered_span) \<Rightarrow> span \<Rightarrow> client list \<Rightarrow> nat list \<Rightarrow> span \<times> client list \<times> nat list \<times> nat list" where
  "absorb R s ts [] = (s, ts, [], [])"
| "absorb R s ts (c # xs) =
     (if overlaps s (span_of (R c)) then
        (case absorb R (widen s (span_of (R c))) (fill (List.find live_client (rs_clients (R c))) ts) xs of
           (s', ts', kept, gone) \<Rightarrow> (s', ts', kept, c # gone))
      else (case absorb R s ts xs of (s', ts', kept, gone) \<Rightarrow> (s', ts', c # kept, gone)))"

lemma absorb_lists:
  "absorb R s ts xs = (s', ts', kept, gone) \<Longrightarrow> set kept \<union> set gone = set xs \<and> length kept + length gone = length xs \<and>
    ts' = fill (List.find live_client (concat (map (\<lambda>c. rs_clients (R c)) gone))) ts \<and>
    start_key s' = Min (insert (start_key s) ((\<lambda>c. rs_start_key (R c)) ` set gone)) \<and>
    end_key s' = Max (insert (end_key s) ((\<lambda>c. rs_end_key (R c)) ` set gone))"
proof (induction xs arbitrary: s ts s' ts' kept gone)
  case Nil
  then show ?case by simp
next
  case (Cons c xs)
  show ?case
  proof (cases "overlaps s (span_of (R c))")
    case True
    obtain kept' gone' where rec: "absorb R (widen s (span_of (R c))) (fill (List.find live_client (rs_clients (R c))) ts) xs =
        (s', ts', kept, gone')" and g: "gone = c # gone'"
      using Cons.prems True by (auto split: prod.splits simp del: overlaps_iff)
    note IH = Cons.IH [OF rec]
    have "start_key s' = Min (insert (start_key s) ((\<lambda>c. rs_start_key (R c)) ` set gone))"
      and "end_key s' = Max (insert (end_key s) ((\<lambda>c. rs_end_key (R c)) ` set gone))"
      using IH unfolding g
      by (cases "gone' = []"; simp add: widen_hull min.assoc max.assoc)+
    moreover have "ts' = fill (List.find live_client (concat (map (\<lambda>c. rs_clients (R c)) gone))) ts"
      using IH unfolding g by (simp add: fill_find_append)
    ultimately show ?thesis using IH g by auto
  next
    case False
    obtain kept' where rec: "absorb R s ts xs = (s', ts', kept', gone)" and k: "kept = c # kept'"
      using Cons.prems False by (auto split: prod.splits simp del: overlaps_iff)
    show ?thesis using Cons.IH [OF rec] k by auto
  qed
qed

text \<open>What stays keeps its order.\<close>

lemma absorb_merges:
  "absorb R s ts xs = (s', ts', kept, gone) \<Longrightarrow>
   \<exists>J. merges s (map (\<lambda>x. span_of (R x)) xs) J \<and> s' = hull s (nths (map (\<lambda>x. span_of (R x)) xs) J) \<and>
     kept = nths xs (- J) \<and> gone = nths xs J"
proof (induction xs arbitrary: s ts s' ts' kept gone)
  case Nil
  then show ?case by (intro exI [of _ "{}"]) simp
next
  case (Cons c xs)
  let ?f = "\<lambda>x. span_of (R x)"
  show ?case
  proof (cases "overlaps s (?f c)")
    case True
    obtain kept' gone' where rec: "absorb R (widen s (?f c)) (fill (List.find live_client (rs_clients (R c))) ts) xs =
        (s', ts', kept', gone')" and k: "kept = kept'" "gone = c # gone'"
      using Cons.prems True by (auto split: prod.splits simp del: overlaps_iff)
    from Cons.IH [OF rec] obtain J where J: "merges (widen s (?f c)) (map ?f xs) J"
        "s' = hull (widen s (?f c)) (nths (map ?f xs) J)" "kept' = nths xs (- J)" "gone' = nths xs J" by blast
    show ?thesis unfolding list.map
      by (intro exI [of _ "insert 0 (Suc ` J)"] conjI merges_take [OF True J(1)])
        (simp_all only: nths_Suc nths_Suc_compl hull_Cons J k)
  next
    case False
    obtain kept' where rec: "absorb R s ts xs = (s', ts', kept', gone)" and k: "kept = c # kept'"
      using Cons.prems False by (auto split: prod.splits simp del: overlaps_iff)
    from Cons.IH [OF rec] obtain J where J: "merges s (map ?f xs) J"
        "s' = hull s (nths (map ?f xs) J)" "kept' = nths xs (- J)" "gone = nths xs J" by blast
    show ?thesis unfolding list.map
      by (intro exI [of _ "Suc ` J"] conjI merges_skip [OF False J(1)])
        (simp_all only: nths_Suc nths_Suc_compl J k)
  qed
qed

lemma absorb_order: "distinct xs \<Longrightarrow> absorb R s ts xs = (s', ts', kept, gone) \<Longrightarrow> kept = filter (\<lambda>x. x \<notin> set gone) xs"
proof (induction xs arbitrary: s ts s' ts' kept gone)
  case Nil
  then show ?case by simp
next
  case (Cons c xs)
  show ?case
  proof (cases "overlaps s (span_of (R c))")
    case True
    obtain gone' where rec: "absorb R (widen s (span_of (R c))) (fill (List.find live_client (rs_clients (R c))) ts) xs =
        (s', ts', kept, gone')" and g: "gone = c # gone'"
      using Cons.prems(2) True by (auto split: prod.splits simp del: overlaps_iff)
    have "kept = filter (\<lambda>x. x \<notin> set gone') xs" using Cons.IH [OF _ rec] Cons.prems(1) by simp
    also have "\<dots> = filter (\<lambda>x. x \<notin> set gone) xs" using Cons.prems(1) g by (intro filter_cong) auto
    finally show ?thesis using g by simp
  next
    case False
    obtain kept' where rec: "absorb R s ts xs = (s', ts', kept', gone)" and k: "kept = c # kept'"
      using Cons.prems(2) False by (auto split: prod.splits simp del: overlaps_iff)
    have "c \<notin> set gone" using absorb_lists [OF rec] Cons.prems(1) by auto
    then show ?thesis using Cons.IH [OF _ rec] Cons.prems(1) k by simp
  qed
qed

text \<open>If every range overlaps the new one, all of them go.\<close>

lemma absorb_all:
  "\<forall>c \<in> set xs. overlaps s (span_of (R c)) \<Longrightarrow> absorb R s ts xs = (s', ts', kept, gone) \<Longrightarrow> kept = [] \<and> gone = xs"
proof (induction xs arbitrary: s ts s' ts' kept gone)
  case Nil
  then show ?case by simp
next
  case (Cons c xs)
  have "overlaps (widen s (span_of (R c))) (span_of (R x))" if "x \<in> set xs" for x
  proof -
    have "overlaps s (span_of (R x))" using Cons.prems(1) that by simp
    then show ?thesis by (auto simp: widen_hull min_le_iff_disj le_max_iff_disj)
  qed
  moreover have "overlaps s (span_of (R c))" using Cons.prems(1) by simp
  ultimately show ?case
    using Cons.prems(2) Cons.IH [of "widen s (span_of (R c))"] by (auto split: prod.splits simp del: overlaps_iff)
qed

lemma absorb_cong: "(\<And>c. c \<in> set xs \<Longrightarrow> span_of (R c) = span_of (R' c) \<and> rs_clients (R c) = rs_clients (R' c)) \<Longrightarrow>
    absorb R s ts xs = absorb R' s ts xs"
  by (induction xs arbitrary: s ts) (simp_all del: overlaps_iff)

text \<open>
  The walk refines \<open>absorb\<close>. The list in front of \<open>prev\<close> holds the new element and what was kept so
  far; nothing is freed.
\<close>

lemma merge_walk_absorb:
  assumes "chain h p (pre @ prev # xs)" and "distinct (pre @ prev # xs)" and "tm \<in> set (pre @ [prev])"
    and "h tm = Some m" and "length (rs_clients m) = MAX_CLIENTS"
    and "\<forall>x \<in> set xs. length (rs_clients (the (h x))) = MAX_CLIENTS" and "length xs \<le> fuel"
    and "nxt = (case xs of [] \<Rightarrow> None | x # _ \<Rightarrow> Some x)"
    and "absorb (\<lambda>x. the (h x)) (span_of m) (rs_clients m) xs = (s', ts', kept, gone)"
  shows "\<exists>h' m'. merge_walk C tm fuel prev nxt (g, h) = Inr (fold (\<lambda>c g. fst (ct_delete C g c)) gone g, h') \<and>
    chain h' p (pre @ prev # kept) \<and> h' tm = Some m' \<and> span_of m' = s' \<and> rs_clients m' = ts' \<and>
    (\<forall>x. h' x = None \<longleftrightarrow> h x = None)"
  using assms
proof (induction xs arbitrary: fuel prev pre nxt g h m s' ts' kept gone)
  case Nil
  then show ?case by auto
next
  case (Cons c xs)
  obtain f where fuel: "fuel = Suc f" using Cons.prems(7) by (cases fuel) auto
  obtain rc where c: "h c = Some rc" using chain_alloc [OF Cons.prems(1), of c] by auto
  have cl: "length (rs_clients rc) = MAX_CLIENTS" using Cons.prems(6) c by simp
  have lc: "load h c = Inr rc" and lm: "load h tm = Inr m" using c Cons.prems(4) by simp_all
  have nxt: "nxt = Some c" using Cons.prems(8) by simp
  have tc: "tm \<noteq> c" and ctl: "c \<notin> set xs" and txs: "tm \<notin> set xs" using Cons.prems(2,3) by auto
  show ?case
  proof (cases "overlaps (span_of m) (span_of rc)")
    case True
    let ?m = "(widen_keys m rc)\<lparr>rs_clients := fill (List.find live_client (rs_clients rc)) (rs_clients m)\<rparr>"
    let ?h1 = "h(tm \<mapsto> ?m)"
    have ch1: "chain ?h1 p (pre @ prev # c # xs)"
      using Cons.prems(1) by (subst chain_cong [of _ ?h1 h]) (auto simp: Cons.prems(4))
    obtain ra where ra: "?h1 prev = Some ra" using chain_alloc [OF ch1, of prev] by auto
    let ?h2 = "?h1(prev \<mapsto> ra\<lparr>rs_next := rs_next rc\<rparr>)"
    have un: "slist_remove_after prev ?h1 = Inr ?h2" "chain ?h2 p (pre @ prev # xs)"
        "rs_next rc = (case xs of [] \<Rightarrow> None | x # _ \<Rightarrow> Some x)"
    proof -
      have "?h1 c = Some rc" using c tc by simp
      from chain_unlink [OF Cons.prems(2) ch1 ra this]
      show "slist_remove_after prev ?h1 = Inr ?h2" "chain ?h2 p (pre @ prev # xs)"
        "rs_next rc = (case xs of [] \<Rightarrow> None | x # _ \<Rightarrow> Some x)" by blast+
    qed
    obtain m2 where m2: "?h2 tm = Some m2" "span_of m2 = span_of ?m" "rs_clients m2 = rs_clients ?m"
      using ra by (cases "tm = prev") auto
    have same: "?h2 x = h x" if "x \<in> set xs" for x using that Cons.prems(2,3) txs by auto
    obtain gone' where rec: "absorb (\<lambda>x. the (h x)) (span_of m2) (rs_clients m2) xs = (s', ts', kept, gone')"
        and g: "gone = c # gone'"
      using Cons.prems(9) True c m2(2,3) by (auto split: prod.splits simp del: overlaps_iff)
    have rec2: "absorb (\<lambda>x. the (?h2 x)) (span_of m2) (rs_clients m2) xs = (s', ts', kept, gone')"
      using rec by (subst absorb_cong [of xs _ "\<lambda>x. the (h x)"]) (simp_all only: same simp_thms)
    have "\<exists>h' m'. merge_walk C tm f prev (rs_next rc) (fst (ct_delete C g c), ?h2) =
        Inr (fold (\<lambda>c g. fst (ct_delete C g c)) gone' (fst (ct_delete C g c)), h') \<and>
      chain h' p (pre @ prev # kept) \<and> h' tm = Some m' \<and> span_of m' = s' \<and> rs_clients m' = ts' \<and>
      (\<forall>x. h' x = None \<longleftrightarrow> ?h2 x = None)"
    proof (rule Cons.IH [OF un(2) _ Cons.prems(3) m2(1) _ _ _ un(3) rec2])
      show "length (rs_clients m2) = MAX_CLIENTS" using m2(3) Cons.prems(5) by simp
      show "\<forall>x \<in> set xs. length (rs_clients (the (?h2 x))) = MAX_CLIENTS"
        using Cons.prems(6) same by simp
    qed (use Cons.prems(2,7) fuel in auto)
    then obtain h' m' where rest: "merge_walk C tm f prev (rs_next rc) (fst (ct_delete C g c), ?h2) =
        Inr (fold (\<lambda>c g. fst (ct_delete C g c)) gone' (fst (ct_delete C g c)), h')"
      "chain h' p (pre @ prev # kept)" "h' tm = Some m'" "span_of m' = s'" "rs_clients m' = ts'"
      "\<forall>x. h' x = None \<longleftrightarrow> ?h2 x = None" by blast
    have ov: "strcmp (rs_start_key m) (rs_end_key rc) \<le> 0 \<and> strcmp (rs_end_key m) (rs_start_key rc) \<ge> 0"
      using True unfolding overlaps_def span_of_parts .
    have "merge_walk C tm fuel prev nxt (g, h) = Inr (fold (\<lambda>c g. fst (ct_delete C g c)) gone g, h')"
      unfolding fuel nxt g merge_walk.simps lc lm and_then_Inr
        merge_slots_eq [OF cl Cons.prems(5)] un(1) if_P [OF ov] rest(1) by simp
    moreover have "\<forall>x. h' x = None \<longleftrightarrow> h x = None" using rest(6) ra Cons.prems(4) by (auto split: if_splits)
    ultimately show ?thesis using rest by blast
  next
    case False
    obtain kept' where rec: "absorb (\<lambda>x. the (h x)) (span_of m) (rs_clients m) xs = (s', ts', kept', gone)" and k: "kept = c # kept'"
      using Cons.prems(9) False c by (auto split: prod.splits simp del: overlaps_iff)
    have no: "\<not> (strcmp (rs_start_key m) (rs_end_key rc) \<le> 0 \<and> strcmp (rs_end_key m) (rs_start_key rc) \<ge> 0)"
      using False unfolding overlaps_def span_of_parts .
    have tl: "chain h (rs_next rc) xs"
    proof -
      have "distinct ((pre @ [prev]) @ [c])" using Cons.prems(2) by simp
      then show ?thesis using chain_append [of "pre @ [prev]" c h p xs] Cons.prems(1) c by auto
    qed
    have "\<exists>h' m'. merge_walk C tm f c (rs_next rc) (g, h) = Inr (fold (\<lambda>c g. fst (ct_delete C g c)) gone g, h') \<and>
      chain h' p ((pre @ [prev]) @ c # kept') \<and> h' tm = Some m' \<and> span_of m' = s' \<and> rs_clients m' = ts' \<and>
      (\<forall>x. h' x = None \<longleftrightarrow> h x = None)"
      by (rule Cons.IH [OF _ _ _ Cons.prems(4,5) _ _ chain_head [OF tl] rec])
        (use Cons.prems(1-3,6,7) fuel in auto)
    then show ?thesis
      unfolding fuel nxt k merge_walk.simps lc lm and_then_Inr if_not_P [OF no]
      by simp
  qed
qed

end
