(* ===== verification/Epx_Clients_Props.thy ===== *)
theory Epx_Clients_Props
  imports Epx_Clients_Laws
begin

text \<open>The properties of the clients' ranges, of a client's connection and of committed messages.\<close>

section \<open>Merging\<close>

lemma merge_clients_absorb:
  assumes ch: "chain h head xs" and d: "distinct (tm # xs)" and m: "h tm = Some m"
    and len: "length (rs_clients m) = MAX_CLIENTS" "\<forall>x \<in> set xs. length (rs_clients (the (h x))) = MAX_CLIENTS"
    and fuel: "length xs \<le> fuel"
    and ab: "absorb (\<lambda>x. the (h x)) (span_of m) (rs_clients m) xs = (s', ts', kept, gone)"
  shows "\<exists>h' m'. merge_clients C fuel tm head (g, h) = Inr (fold (\<lambda>c g. fst (ct_delete C g c)) gone g, h', Some tm) \<and>
    chain h' (Some tm) (tm # kept) \<and> h' tm = Some m' \<and> span_of m' = s' \<and> rs_clients m' = ts' \<and>
    (\<forall>x. h' x = None \<longleftrightarrow> h x = None)"
proof -
  let ?m = "m\<lparr>rs_next := head\<rparr>"
  let ?h = "h(tm \<mapsto> ?m)"
  have ins: "slist_insert_head tm head h = Inr (?h, Some tm)" using m by (simp add: slist_insert_head_def load_Some)
  have tl: "chain ?h head xs" using ch d by (subst chain_cong [of xs ?h h]) auto
  then have all: "chain ?h (Some tm) ([] @ tm # xs)" by simp
  have same: "?h x = h x" if "x \<in> set xs" for x using that d by auto
  have ab2: "absorb (\<lambda>x. the (?h x)) (span_of ?m) (rs_clients ?m) xs = (s', ts', kept, gone)"
  proof -
    have "absorb (\<lambda>x. the (?h x)) (span_of m) (rs_clients m) xs = absorb (\<lambda>x. the (h x)) (span_of m) (rs_clients m) xs"
      by (rule absorb_cong) (simp only: same simp_thms)
    with ab show ?thesis by simp
  qed
  have "\<exists>h' m'. merge_walk C tm fuel tm head (g, ?h) = Inr (fold (\<lambda>c g. fst (ct_delete C g c)) gone g, h') \<and>
    chain h' (Some tm) ([] @ tm # kept) \<and> h' tm = Some m' \<and> span_of m' = s' \<and> rs_clients m' = ts' \<and>
    (\<forall>x. h' x = None \<longleftrightarrow> ?h x = None)"
    by (rule merge_walk_absorb [OF all _ _ _ _ _ fuel chain_head [OF tl] ab2])
      (use d len in \<open>auto simp: same simp del: fun_upd_apply\<close>, simp)
  then obtain h' m' where w: "merge_walk C tm fuel tm head (g, ?h) = Inr (fold (\<lambda>c g. fst (ct_delete C g c)) gone g, h')"
    "chain h' (Some tm) (tm # kept)" "h' tm = Some m'" "span_of m' = s'" "rs_clients m' = ts'"
    "\<forall>x. h' x = None \<longleftrightarrow> ?h x = None" by auto
  have "merge_clients C fuel tm head (g, h) = Inr (fold (\<lambda>c g. fst (ct_delete C g c)) gone g, h', Some tm)"
    using w(1) ins by (cases head) (simp_all add: merge_clients_def)
  moreover have "\<forall>x. h' x = None \<longleftrightarrow> h x = None" using w(6) m by (auto split: if_splits)
  ultimately show ?thesis using w by blast
qed

text \<open>
  C14. Merging on the linked list refines merging on lists: the walk takes in an element exactly when its
  range overlaps the hull of the new range and those taken in before; the new element ends with the
  hull of all of them, the group list is the new element followed by the elements that were not
  taken in, in their order, the others are deleted from the tree, in their order, and no element that
  stays overlaps the range given. Nothing is freed.
\<close>

theorem merge_clients_hull:
  assumes "chain h head xs" and "distinct (tm # xs)" and "h tm = Some m" and "length (rs_clients m) = MAX_CLIENTS"
    and "\<forall>x \<in> set xs. length (rs_clients (the (h x))) = MAX_CLIENTS" and "length xs \<le> fuel"
  shows "\<exists>h' m' J. merge_clients C fuel tm head (g, h) =
      Inr (fold (\<lambda>c g. fst (ct_delete C g c)) (nths xs J) g, h', Some tm) \<and>
    merges (span_of m) (map (\<lambda>x. span_of (the (h x))) xs) J \<and>
    chain h' (Some tm) (tm # nths xs (- J)) \<and> h' tm = Some m' \<and>
    span_of m' = hull (span_of m) (nths (map (\<lambda>x. span_of (the (h x))) xs) J) \<and>
    (\<forall>x \<in> set (nths xs (- J)). \<not> overlaps (span_of m) (span_of (the (h x)))) \<and>
    (\<forall>x. h' x = None \<longleftrightarrow> h x = None)"
proof -
  let ?ss = "map (\<lambda>x. span_of (the (h x))) xs"
  obtain s' ts' kept gone where ab: "absorb (\<lambda>x. the (h x)) (span_of m) (rs_clients m) xs = (s', ts', kept, gone)"
    by (metis surj_pair)
  from absorb_merges [OF ab] obtain J where J: "merges (span_of m) ?ss J" "s' = hull (span_of m) (nths ?ss J)"
      "kept = nths xs (- J)" "gone = nths xs J" by blast
  have apart: "\<forall>x \<in> set (nths xs (- J)). \<not> overlaps (span_of m) (span_of (the (h x)))"
  proof
    fix x
    assume "x \<in> set (nths xs (- J))"
    then have "span_of (the (h x)) \<in> set (nths ?ss (- J))" by (simp add: nths_map)
    then show "\<not> overlaps (span_of m) (span_of (the (h x)))" by (rule merges_left_out [OF J(1)])
  qed
  obtain h' m' where r: "merge_clients C fuel tm head (g, h) = Inr (fold (\<lambda>c g. fst (ct_delete C g c)) gone g, h', Some tm)"
    "chain h' (Some tm) (tm # kept)" "h' tm = Some m'" "span_of m' = s'" "\<forall>x. h' x = None \<longleftrightarrow> h x = None"
    using merge_clients_absorb [OF assms ab, of C g] by blast
  show ?thesis
    by (intro exI conjI) (rule r(1) [unfolded J(4)], rule J(1), rule r(2) [unfolded J(3)], rule r(3),
      rule r(4) [unfolded J(2)], rule apart, rule r(5))
qed

text \<open>
  C39. Merging loses subscriptions: of all clients of the ranges that are merged, only the first
  reaches the new range, and it is copied to every free slot of it.
\<close>

theorem merge_clients_one_client:
  assumes "chain h head xs" and "distinct (tm # xs)" and "h tm = Some m" and "length (rs_clients m) = MAX_CLIENTS"
    and "\<forall>x \<in> set xs. length (rs_clients (the (h x))) = MAX_CLIENTS" and "length xs \<le> fuel"
    and "\<forall>c \<in> set xs. overlaps (span_of m) (span_of (the (h c)))"
    and "List.find live_client (concat (map (\<lambda>c. rs_clients (the (h c))) xs)) = Some x"
  shows "\<exists>g' h' m'. merge_clients C fuel tm head (g, h) = Inr (g', h', Some tm) \<and> chain h' (Some tm) [tm] \<and>
    h' tm = Some m' \<and> rs_clients m' = map (\<lambda>t. if cl_expires t = 0 then x else t) (rs_clients m)"
proof -
  obtain s' ts' kept gone where ab: "absorb (\<lambda>x. the (h x)) (span_of m) (rs_clients m) xs = (s', ts', kept, gone)"
    by (metis surj_pair)
  have all: "kept = [] \<and> gone = xs" using absorb_all [OF assms(7) ab] .
  then have "ts' = map (\<lambda>t. if cl_expires t = 0 then x else t) (rs_clients m)"
    using absorb_lists [OF ab] assms(8) by (simp add: fill_def)
  with merge_clients_absorb [OF assms(1-6) ab, of C g] all show ?thesis by auto
qed

section \<open>Telling the subscribers\<close>

definition active :: "int \<Rightarrow> registered_span \<Rightarrow> client list" where
  "active now r = filter (\<lambda>c. cl_expires c > now) (rs_clients r)"

lemma active_loop:
  "n \<le> length cs \<Longrightarrow> for_each [0..<n] (\<lambda>j (none_active, out).
      and_then (aget cs j) (\<lambda>cl. Inr (if cl_expires cl > now then (False, out @ [snd (cl_chan cl)]) else (none_active, out)))) (b, out) =
    Inr (b \<and> filter (\<lambda>c. cl_expires c > now) (take n cs) = [],
         out @ map (\<lambda>c. snd (cl_chan c)) (filter (\<lambda>c. cl_expires c > now) (take n cs)))"
proof (induction n)
  case 0
  then show ?case by simp
next
  case (Suc n)
  then show ?case by (simp add: for_each_append take_Suc_conv_app_nth)
qed

text \<open>
  C38. Telling a group works exactly when every range of it has a client that has not expired: then
  each of these clients gets the message once per range. A range whose clients have all expired
  is freed, and the loop goes on from the freed range.
\<close>

theorem expired_range_use_after_free:
  assumes "chain h head xs" and "length xs \<le> fuel"
    and "\<forall>x \<in> set xs. length (rs_clients (the (h x))) = MAX_CLIENTS"
    and "\<forall>g. \<forall>p \<in> set xs. snd (ct_delete C g p) = Some p"
  shows "notify_group C now fuel head (g, h, out) =
    (if \<forall>x \<in> set xs. active now (the (h x)) \<noteq> []
     then Inr (g, h, out @ concat (map (\<lambda>x. map (\<lambda>c. snd (cl_chan c)) (active now (the (h x)))) xs))
     else Inl Use_after_free)"
  using assms
proof (induction xs arbitrary: head fuel out)
  case Nil
  then show ?case by simp
next
  case (Cons x xs)
  obtain f where f: "fuel = Suc f" using Cons.prems(2) by (cases fuel) auto
  obtain r where r: "head = Some x" "h x = Some r" "chain h (rs_next r) xs" using Cons.prems(1) by auto
  have len: "length (rs_clients r) = MAX_CLIENTS" using Cons.prems(3) r(2) by simp
  note loop = active_loop [of MAX_CLIENTS "rs_clients r" now True out, unfolded len]
  show ?case
  proof (cases "active now r = []")
    case True
    obtain g' where "ct_delete C g x = (g', Some x)"
      using Cons.prems(4) by (metis list.set_intros(1) prod.collapse)
    then show ?thesis
      using True loop r len by (simp add: f load_Some active_def load_def)
  next
    case False
    have "notify_group C now f (rs_next r) (g, h, out @ map (\<lambda>c. snd (cl_chan c)) (active now r)) =
      (if \<forall>x \<in> set xs. active now (the (h x)) \<noteq> []
       then Inr (g, h, (out @ map (\<lambda>c. snd (cl_chan c)) (active now r)) @
          concat (map (\<lambda>x. map (\<lambda>c. snd (cl_chan c)) (active now (the (h x)))) xs))
       else Inl Use_after_free)"
      by (rule Cons.IH) (use r(3) Cons.prems f in auto)
    then show ?thesis using False loop r len by (simp add: f load_Some active_def)
  qed
qed

section \<open>The counter of a committed message\<close>

lemma eo_reader_msgs:
  assumes "eo_reader C now fuel var garbage a cmds (n, g, h) = Inr (n', g', h', out)" and "nd_msgs n a = Some m"
  shows "nd_msgs n' = (nd_msgs n)(a \<mapsto> m\<lparr>m_ref := 1\<rparr>)" "nd_nodes n' = nd_nodes n"
  using assms by (auto simp: eo_reader_def set_msg_def load_Some and_then_eq_Inr)

text \<open>
  C27. A committed write is handed over twice, to the node and to its clients, and the two set the
  same counter: after the node has queued its copies, the clients' reader makes it 1, so the
  first copy that is sent frees the message and the next one is a use after free.
\<close>

theorem commit_counter_overwritten:
  assumes n: "node_reach E L n" and R: "ring_laws (io_ring E) items" and m: "nd_msgs n a = Some m"
    and type: "m_type m = COMMIT" and room: "room_for items N n"
    and io: "io_reader E a n = Inr (0, n1)"
    and eo: "eo_reader C now fuel var garbage a cmds (n1, g, h) = Inr (n2, g', h', out)"
  shows "queued items n2 0 = queued items n 0 @ replicate N a \<and>
    release 1 a (nd_msgs n2) = Inr ((nd_msgs n2)(a := None)) \<and> release 2 a (nd_msgs n2) = Inl Use_after_free"
proof -
  obtain m1 where n1: "queued items n1 0 = queued items n 0 @ replicate N a" "nd_msgs n1 a = Some m1"
    using commit_copies [OF n R m type room] io by auto
  note eo1 = eo_reader_msgs [OF eo n1(2)]
  have "nd_msgs n2 a = Some (m1\<lparr>m_ref := 1\<rparr>)" using eo1(1) by simp
  then have "release 1 a (nd_msgs n2) = Inr ((nd_msgs n2)(a := None)) \<and> release 2 a (nd_msgs n2) = Inl Use_after_free"
    using release_counts [of "nd_msgs n2" a "m1\<lparr>m_ref := 1\<rparr>" 0] by (simp add: numeral_2_eq_2)
  then show ?thesis using n1 eo1(2) by (simp add: queued_def)
qed

section \<open>A client's message without a command\<close>

lemma no_command_decoded:
  assumes "as_root bs = Some w" and "wm_instance_id w \<noteq> None" and "wm_type w \<noteq> None"
    and "type_of_code (field 0 (wm_type w)) \<noteq> PRE_ACCEPT_OK" and "wm_data w = Some d" and "wi_command d = None"
    and "length (m_deps m) = MAX_DEPS"
  shows "\<exists>m'. decode_message as_root (cmds, m) bs = Inr (0, cmds, m') \<and> m_command m' = None"
proof -
  obtain rid k where id: "wm_instance_id w = Some (rid, k)" using assms(2) by auto
  have "min (length (wi_deps d)) N \<le> length (m_deps m)" using assms(7) by (simp add: N_def MAX_DEPS_def)
  then show ?thesis
    using assms id
    by (auto simp: decode_message_def message_from_buffer_def instance_data_from_buffer_def Let_def overwrite_loop)
qed

text \<open>
  One message can stop a node: when a client sends a well-formed message whose data has no
  command, the decoder clears the pointer to the command and the client's writer follows it.
\<close>

theorem client_without_command_crashes:
  assumes "cl_expires (co_client c) \<noteq> 0" and "co_status c = ALIVE" and "length (m_deps gm) = MAX_DEPS"
    and "\<not> fs_recverr (co_fbs c)" and "\<not> fs_recvdone (co_fbs c)"
    and "st_recv L strm (fs_hdrlen (co_fbs c)) = (s1, Some hdr)"
    and "st_recv L s1 (unat (read_header (fs_bigendian (co_fbs c)) (fs_hdrlen (co_fbs c)) hdr)) = (s2, Some bs)"
    and "unat (read_header (fs_bigendian (co_fbs c)) (fs_hdrlen (co_fbs c)) hdr) \<le> room"
    and "0 < sint (read_header (fs_bigendian (co_fbs c)) (fs_hdrlen (co_fbs c)) hdr)"
    and "as_root bs = Some w" and "wm_instance_id w \<noteq> None" and "wm_type w \<noteq> None"
    and "type_of_code (field 0 (wm_type w)) \<noteq> PRE_ACCEPT_OK" and "wm_data w = Some d" and "wi_command d = None"
  shows "writer E L as_root room reg (Some a) (Some b) gm gc c strm heap subs inq = Inl Null_deref"
proof -
  obtain cmds h where heap: "heap = (cmds, h)" by force
  let ?cmds = "cmds(b \<mapsto> gc)" and ?m = "gm\<lparr>m_command := Some b, m_ref := 1\<rparr>"
  obtain m' where dec: "decode_message as_root (?cmds, ?m) bs = Inr (0, ?cmds, m')" "m_command m' = None"
    using no_command_decoded [of as_root bs w d ?m ?cmds] assms(3,10-15) by auto
  let ?sz = "read_header (fs_bigendian (co_fbs c)) (fs_hdrlen (co_fbs c)) hdr"
  have "fbs_sock_mrecvl L (decode_message as_root) room (?cmds, ?m) (co_fbs c) strm = Inr (sint ?sz, (?cmds, m'), co_fbs c, s2)"
    using assms(4-8) dec(1) by (simp add: fbs_sock_mrecvl_def Let_def)
  then have "read_message L as_root room a (co_fbs c) strm (?cmds, h(a \<mapsto> ?m)) =
      Inr (sint ?sz, co_fbs c, s2, ?cmds, h(a \<mapsto> m'))"
    using assms(9) by (simp add: read_message_def load_Some)
  then show ?thesis
    using assms(1,2,9) dec(2) by (simp add: writer_def new_message_def heap Let_def load_Some)
qed

end
