(* ===== verification/Epx_Clients_Witness.thy ===== *)
theory Epx_Clients_Witness
  imports Epx_Clients_Props Epx_Node_Witness
begin

text \<open>
  The properties of the clients at three ranges on one list, over a tree that is the list of its
  elements.
\<close>

definition list_tree :: "nat list client_lib" where
  "list_tree = \<lparr>ct_insert = (\<lambda>g p. p # g), ct_delete = (\<lambda>g p. (remove1 p g, Some p)),
     ct_group_add = (\<lambda>f v st. and_then (f v None st) (\<lambda>(g, h, _). Inr (True, g, h))),
     ct_group_find = (\<lambda>f v st. for_each (fst st) (\<lambda>p (g, h, head). f p head (g, h)) (fst st, snd st, None))\<rparr>"

definition ex_client :: "int \<Rightarrow> int \<Rightarrow> client" where
  "ex_client p e = \<lparr>cl_chan = (p, p + 1), cl_expires = e\<rparr>"

definition ex_range :: "u8 \<Rightarrow> u8 \<Rightarrow> nat option \<Rightarrow> client list \<Rightarrow> registered_span" where
  "ex_range a b n cs = \<lparr>rs_start_key = Key [a], rs_end_key = Key [b], rs_next = n,
     rs_clients = cs @ replicate (MAX_CLIENTS - length cs) (ex_client 0 0)\<rparr>"

text \<open>Range 1 is \<open>b..d\<close> with two clients, range 2 is \<open>k..m\<close> with one, range 0, the new one, is \<open>c..f\<close>.\<close>

definition ex_ranges :: rspans where
  "ex_ranges = [0 \<mapsto> ex_range 99 102 None [ex_client 20 50], 1 \<mapsto> ex_range 98 100 (Some 2) [ex_client 30 40, ex_client 32 41],
     2 \<mapsto> ex_range 107 109 None [ex_client 34 9]]"

lemma ex_ranges_facts:
  "chain ex_ranges (Some 1) [1, 2]" "ex_ranges 0 = Some (ex_range 99 102 None [ex_client 20 50])"
  "\<forall>x \<in> set [1, 2]. length (rs_clients (the (ex_ranges x))) = MAX_CLIENTS"
  "length (rs_clients (ex_range 99 102 None [ex_client 20 50])) = MAX_CLIENTS"
  by (simp_all add: ex_ranges_def ex_range_def MAX_CLIENTS_def)

theorem merge_clients_hull_witness:
  "\<exists>h' m' J. merge_clients list_tree 2 0 (Some 1) ([1, 2], ex_ranges) =
      Inr (fold (\<lambda>c g. fst (ct_delete list_tree g c)) (nths [1, 2] J) [1, 2], h', Some 0) \<and>
    merges (span_of (the (ex_ranges 0))) [span_of (the (ex_ranges 1)), span_of (the (ex_ranges 2))] J \<and> 0 \<in> J \<and>
    chain h' (Some 0) (0 # nths [1, 2] (- J)) \<and> h' 0 = Some m' \<and>
    span_of m' = hull (span_of (the (ex_ranges 0))) (nths [span_of (the (ex_ranges 1)), span_of (the (ex_ranges 2))] J)"
proof -
  have "distinct [0 :: nat, 1, 2]" "length [1 :: nat, 2] \<le> 2" by simp_all
  from merge_clients_hull [OF ex_ranges_facts(1) this(1) ex_ranges_facts(2,4,3) this(2), of list_tree "[1, 2]"]
  obtain h' m' J where r: "merge_clients list_tree 2 0 (Some 1) ([1, 2], ex_ranges) =
      Inr (fold (\<lambda>c g. fst (ct_delete list_tree g c)) (nths [1, 2] J) [1, 2], h', Some 0)"
    "merges (span_of (ex_range 99 102 None [ex_client 20 50])) (map (\<lambda>x. span_of (the (ex_ranges x))) [1, 2]) J"
    "chain h' (Some 0) (0 # nths [1, 2] (- J))" "h' 0 = Some m'"
    "span_of m' = hull (span_of (ex_range 99 102 None [ex_client 20 50]))
      (nths (map (\<lambda>x. span_of (the (ex_ranges x))) [1, 2]) J)"
    by blast
  have "overlaps (span_of (ex_range 99 102 None [ex_client 20 50])) (span_of (the (ex_ranges 1)))"
    by (simp add: ex_ranges_def ex_range_def span_of_def less_eq_key_def strcmp_def)
  then have "0 \<in> J" using r(2) by (simp add: merges_def del: overlaps_iff)
  with r show ?thesis using ex_ranges_facts(2) by auto
qed

theorem merge_clients_one_client_witness:
  "\<exists>g' h' m'. merge_clients list_tree 1 0 (Some 1) ([1], ex_ranges(1 \<mapsto> ex_range 98 100 None [ex_client 30 40, ex_client 32 41])) =
      Inr (g', h', Some 0) \<and> h' 0 = Some m' \<and> rs_clients m' ! 1 = ex_client 30 40 \<and> rs_clients m' ! 2 = ex_client 30 40 \<and>
      ex_client 32 41 \<notin> set (rs_clients m')"
proof -
  let ?h = "ex_ranges(1 \<mapsto> ex_range 98 100 None [ex_client 30 40, ex_client 32 41])"
  let ?m = "ex_range 99 102 None [ex_client 20 50]"
  have "\<exists>g' h' m'. merge_clients list_tree 1 0 (Some 1) ([1], ?h) = Inr (g', h', Some 0) \<and> chain h' (Some 0) [0] \<and>
      h' 0 = Some m' \<and> rs_clients m' = map (\<lambda>t. if cl_expires t = 0 then ex_client 30 40 else t) (rs_clients ?m)"
    by (rule merge_clients_one_client [of _ _ "[1]"])
      (simp_all add: ex_ranges_def ex_range_def MAX_CLIENTS_def ex_client_def live_client_def span_of_def
        less_eq_key_def strcmp_def)
  then obtain g' h' m' where r: "merge_clients list_tree 1 0 (Some 1) ([1], ?h) = Inr (g', h', Some 0)" "h' 0 = Some m'"
      "rs_clients m' = map (\<lambda>t. if cl_expires t = 0 then ex_client 30 40 else t) (rs_clients ?m)" by blast
  have "rs_clients m' = ex_client 20 50 # replicate 9 (ex_client 30 40)"
    unfolding r(3) by (simp add: ex_range_def MAX_CLIENTS_def ex_client_def)
  then have "rs_clients m' ! 1 = ex_client 30 40 \<and> rs_clients m' ! 2 = ex_client 30 40 \<and> ex_client 32 41 \<notin> set (rs_clients m')"
    by (simp add: ex_client_def)
  with r show ?thesis by blast
qed

theorem expired_range_use_after_free_witness:
  "notify_group list_tree 5 2 (Some 1) ([1, 2], ex_ranges, []) = Inr ([1, 2], ex_ranges, [31, 33, 35]) \<and>
   notify_group list_tree 20 2 (Some 1) ([1, 2], ex_ranges, []) = Inl Use_after_free"
proof -
  have del: "\<forall>g. \<forall>p \<in> set [1, 2]. snd (ct_delete list_tree g p) = Some p" by (simp add: list_tree_def)
  have act: "active 5 (the (ex_ranges 1)) = [ex_client 30 40, ex_client 32 41]" "active 5 (the (ex_ranges 2)) = [ex_client 34 9]"
    "active 20 (the (ex_ranges 2)) = []"
    by (simp_all add: ex_ranges_def ex_range_def active_def ex_client_def)
  have len: "length [1 :: nat, 2] \<le> 2" by simp
  have all: "\<forall>x \<in> set [1, 2]. active 5 (the (ex_ranges x)) \<noteq> []" using act by (simp del: One_nat_def)
  have ok: "notify_group list_tree 5 2 (Some 1) ([1, 2], ex_ranges, []) = Inr ([1, 2], ex_ranges,
      [] @ concat (map (\<lambda>x. map (\<lambda>c. snd (cl_chan c)) (active 5 (the (ex_ranges x)))) [1, 2]))"
    by (rule trans [OF expired_range_use_after_free [OF ex_ranges_facts(1) len ex_ranges_facts(3) del] if_P [OF all]])
  have some: "\<not> (\<forall>x \<in> set [1, 2]. active 20 (the (ex_ranges x)) \<noteq> [])" using act by (simp del: One_nat_def)
  have bad: "notify_group list_tree 20 2 (Some 1) ([1, 2], ex_ranges, []) = Inl Use_after_free"
    by (rule trans [OF expired_range_use_after_free [OF ex_ranges_facts(1) len ex_ranges_facts(3) del] if_not_P [OF some]])
  have "concat (map (\<lambda>x. map (\<lambda>c. snd (cl_chan c)) (active 5 (the (ex_ranges x)))) [1, 2]) = [31, 33, 35]"
    using act by (simp add: ex_client_def del: One_nat_def)
  with ok bad show ?thesis by (simp only: append_Nil simp_thms)
qed

theorem commit_counter_overwritten_witness:
  "\<exists>n1 n2 g' h' out. io_reader ex_io 7 (with_msg (ex_message\<lparr>m_type := COMMIT\<rparr>)) = Inr (0, n1) \<and>
    eo_reader list_tree 5 2 9 (ex_range 0 0 None []) 7 [4 \<mapsto> ex_command] (n1, [], ex_ranges) = Inr (n2, g', h', out) \<and>
    queued (\<lambda>r. r) n2 0 = [7, 7, 7] \<and> release 2 7 (nd_msgs n2) = Inl Use_after_free"
proof -
  let ?m = "ex_message\<lparr>m_type := COMMIT\<rparr>"
  have m: "nd_msgs (with_msg ?m) 7 = Some ?m" by (simp add: with_msg_def)
  have type: "m_type ?m = COMMIT" by simp
  have room: "room_for (\<lambda>r. r) N (with_msg ?m)"
    using ex_queued [of _ ?m] by (simp add: room_for_def N_def CAPACITY_def)
  obtain n1 m1 where n1: "io_reader ex_io 7 (with_msg ?m) = Inr (0, n1)" "nd_msgs n1 7 = Some m1" "m_command m1 = Some 4"
    using commit_copies [OF with_msg_reach ex_rings m type room] by (auto simp: ex_message_def)
  obtain n2 g' h' out where eo: "eo_reader list_tree 5 2 9 (ex_range 0 0 None []) 7 [4 \<mapsto> ex_command] (n1, [], ex_ranges) =
      Inr (n2, g', h', out)"
    using n1(2,3) by (simp add: eo_reader_def set_msg_def load_Some load_cmd_def ex_command_def list_tree_def ex_span_def empty_range_def)
  show ?thesis
    using commit_counter_overwritten [OF with_msg_reach ex_rings m type room n1(1) eo] n1(1) eo ex_queued [of 0 ?m]
    by (auto simp: N_def numeral_3_eq_3)
qed

definition no_command_wire :: wire_message where
  "no_command_wire = \<lparr>wm_from = None, wm_to = None, wm_nack = None, wm_ballot = None, wm_instance_id = Some (1, 1), wm_type = Some 2,
     wm_data = Some \<lparr>wi_command = None, wi_seq = None, wi_deps = []\<rparr>, wm_instance_status = None, wm_srt = None, wm_stp = None\<rparr>"

theorem client_without_command_crashes_witness:
  "writer ex_io list_stream (\<lambda>bs. Some no_command_wire) 64 (\<lambda>cl sp st. Inr st) (Some 7) (Some 4)
      (zero_message\<lparr>m_deps := replicate MAX_DEPS zero_dep\<rparr>) blank_command
      (zero_conn\<lparr>co_status := ALIVE, co_client := ex_client 20 50, co_fbs := ex_sock\<lparr>fs_hdrlen := 1\<rparr>\<rparr>)
      ([], [2, 7, 8]) (Map.empty, Map.empty) ([], ex_ranges) \<lparr>cn_ring = [], cn_c_sem = 0, cn_s_sem = 0\<rparr> = Inl Null_deref"
proof -
  have hdr: "read_header True 1 [2] = 2" by (simp add: read_header_def)
  have type: "type_of_code 2 = PRE_ACCEPT" by (simp add: type_of_code_def)
  show ?thesis
    by (rule client_without_command_crashes [where hdr = "[2]" and ?s1.0 = "([], [7, 8])" and ?s2.0 = "([], [])" and bs = "[7, 8]"
          and w = no_command_wire and d = "\<lparr>wi_command = None, wi_seq = None, wi_deps = []\<rparr>"])
      (simp_all add: hdr [unfolded One_nat_def] type no_command_wire_def ex_client_def ex_sock_def list_stream_def field_def)
qed

end
