(* ===== verification/Epx_Network.thy ===== *)
theory Epx_Network
  imports Epx_Clients Epx_Node_Witness
begin

text \<open>
  Two nodes together: a message queued for a peer, from the queue of one node's connection through
  the socket and the wire to the channel that the other node's replica reads.
\<close>

section \<open>Properties\<close>

text \<open>
  C9. A message between replicas arrives: when the first message in the queue of a live connection is
  sent, it leaves the queue and one copy is released, and the peer's writer reads it from the
  stream into fresh memory, with the command, marks it with the identifier it knows the sender
  by, and puts it into the channel of its replica. What it reads is the sender's message as far
  as the wire carries it, and the bytes of the next message stay on the stream.
\<close>

theorem message_reaches_peer:
  assumes R: "ring_laws (io_ring E) items" and k: "k < length (nd_nodes n)" and alive: "co_status (nd_nodes n ! k) = ALIVE"
    and q: "queued items n k = a # rest" and m: "nd_msgs n a = Some m" and ref: "0 < unat (m_ref m)"
    and fits: "message_fits m" "m_command m = Some b" "cmds b = Some c" "command_fits c" "m_type m \<noteq> PRE_ACCEPT_OK"
    and S: "send_laws S written" and P: "recv_laws L pending"
    and fin: "\<forall>w. message_to_buffer cmds m = Inr w \<longrightarrow> as_root (finalize w) = Some w \<and>
      0 < length (finalize w) \<and> length (finalize w) < 2 ^ 63 \<and> length (finalize w) \<le> room"
    and snt: "fbs_sock_msendl S (encode_message finalize) (cmds, m) [] (co_fbs (nd_nodes n ! k)) h = Inr (0, s', h')"
    and peer: "co_status d = ALIVE" "cl_expires (co_client d) = 0" "\<not> fs_recverr (co_fbs d)" "\<not> fs_recvdone (co_fbs d)"
    and same: "fs_hdrlen (co_fbs d) = fs_hdrlen (co_fbs (nd_nodes n ! k))"
      "fs_bigendian (co_fbs d) = fs_bigendian (co_fbs (nd_nodes n ! k))" "8 \<le> fs_hdrlen (co_fbs (nd_nodes n ! k))"
    and wire: "written h' @ later = written h @ pending hr"
    and fresh: "length (spans gc) = TX_SIZE" "length (m_deps gm) = MAX_DEPS"
    and room: "Suc (length (items (cn_ring inq))) < CAPACITY"
  shows "\<exists>n' hr' inq'. conn_reader E 0 k n = Inr (True, n') \<and> queued items n' k = rest \<and>
    nd_msgs n' = (nd_msgs n)(a := if m_ref m = 1 then None else Some (m\<lparr>m_ref := m_ref m - 1\<rparr>)) \<and>
    writer E L as_root room reg (Some x) (Some y) gm gc d hr (cmds2, msgs2) subs inq =
      Inr (True, d, hr', (cmds2(y \<mapsto> received_command c gc),
        msgs2(x \<mapsto> (received_message m (gm\<lparr>m_command := Some y, m_ref := 1\<rparr>))\<lparr>m_from := co_xreplica_id d\<rparr>)), subs, inq') \<and>
    items (cn_ring inq') = items (cn_ring inq) @ [x] \<and> pending hr' = later"
proof -
  let ?m0 = "gm\<lparr>m_command := Some y, m_ref := 1\<rparr>" and ?cmds0 = "cmds2(y \<mapsto> gc)"
  let ?m1 = "received_message m ?m0" and ?cmds1 = "cmds2(y \<mapsto> received_command c gc)"
  have "m_command ?m0 = Some y" "?cmds0 y = Some gc" "length (m_deps ?m0) = MAX_DEPS" using fresh by simp_all
  then obtain sz hr' where recv: "fbs_sock_mrecvl L (decode_message as_root) room (?cmds0, ?m0) (co_fbs d) hr =
      Inr (sz, (?cmds0(y \<mapsto> received_command c gc), ?m1), co_fbs d, hr')" "0 < sz" "pending hr' = later"
    using message_travels [OF fits _ _ fresh(1) _ S P fin snt same peer(3,4) wire] by blast
  have read: "read_message L as_root room x (co_fbs d) hr (?cmds0, msgs2(x \<mapsto> ?m0)) =
      Inr (sz, co_fbs d, hr', ?cmds1, msgs2(x \<mapsto> ?m1))"
    using recv(1,2) by (simp add: read_message_def load_Some)
  obtain inq' where inq': "chan_send_mpsc (io_ring E) inq x = (True, inq')" "items (cn_ring inq') = items (cn_ring inq) @ [x]"
    using ring_send_room [OF R room, of MPSC x] unfolding chan_send_mpsc_def by blast
  have same_conn: "d\<lparr>co_fbs := co_fbs d\<rparr> = d" by simp
  have "writer E L as_root room reg (Some x) (Some y) gm gc d hr (cmds2, msgs2) subs inq =
      Inr (True, d, hr', (?cmds1, msgs2(x \<mapsto> ?m1\<lparr>m_from := co_xreplica_id d\<rparr>)), subs, inq')"
    using peer(1,2) recv(2) inq'(1) by (simp add: writer_def new_message_def read load_Some Let_def same_conn)
  with conn_reader_sends [OF R k alive q m ref] inq'(2) recv(3) show ?thesis by blast
qed

section \<open>At two nodes\<close>

text \<open>Node 1 has its message for node 2 in the queue of a live connection; node 2 knows the sender as 1.\<close>

definition live_conn :: "(nat, nat list) connection" where
  "live_conn = zero_conn\<lparr>co_status := ALIVE, co_fbs := ex_sock, co_xreplica_id := 1\<rparr>"

definition sending_node :: "(nat, nat list) node_io" where
  "sending_node = (with_msg (ex_message\<lparr>m_ref := 2\<rparr>))\<lparr>nd_nodes :=
     [zero_conn, zero_conn, live_conn\<lparr>co_chan_read := \<lparr>cn_ring = [7], cn_c_sem = 0, cn_s_sem = 0\<rparr>\<rparr>]\<rparr>"

lemma counter_not_sent [simp]: "message_to_buffer cmds (m\<lparr>m_ref := r\<rparr>) = message_to_buffer cmds m"
  by (simp add: message_to_buffer_def instance_data_to_buffer_def)

lemma sending_msg: "nd_msgs sending_node 7 = Some (ex_message\<lparr>m_ref := 2\<rparr>)"
  by (simp add: sending_node_def with_msg_def)

lemma sending_conn:
  "2 < length (nd_nodes sending_node)" "co_status (nd_nodes sending_node ! 2) = ALIVE"
  "queued (\<lambda>r. r) sending_node 2 = 7 # []" "co_fbs (nd_nodes sending_node ! 2) = ex_sock"
  by (simp_all add: sending_node_def live_conn_def queued_def)

theorem message_reaches_peer_witness:
  "\<exists>n' hr' inq' heap'. conn_reader ex_io 0 2 sending_node = Inr (True, n') \<and> queued (\<lambda>r. r) n' 2 = [] \<and>
    writer ex_io list_stream ex_as_root 64 (\<lambda>cl sp st. Inr st) (Some 3) (Some 8)
      (zero_message\<lparr>m_deps := replicate MAX_DEPS zero_dep\<rparr>) blank_command live_conn
      ([], write_header True 16 1 @ [1] @ [5, 6]) (Map.empty, Map.empty) ((), Map.empty) \<lparr>cn_ring = [], cn_c_sem = 0, cn_s_sem = 0\<rparr> =
      Inr (True, live_conn, hr', heap', ((), Map.empty), inq') \<and> cn_ring inq' = [3] \<and> snd hr' = [5, 6]"
proof -
  let ?gm = "zero_message\<lparr>m_deps := replicate MAX_DEPS zero_dep\<rparr>" and ?m = "ex_message\<lparr>m_ref := 2\<rparr>"
  have fits: "message_fits ?m" "m_command ?m = Some 4" "[4 \<mapsto> ex_command] 4 = Some ex_command" "command_fits ex_command"
      "m_type ?m \<noteq> PRE_ACCEPT_OK"
    using ex_message_fits ex_command_fits by (simp_all add: message_fits_def) (simp_all add: ex_message_def)
  have fin: "\<forall>w. message_to_buffer [4 \<mapsto> ex_command] ?m = Inr w \<longrightarrow> ex_as_root (ex_finalize w) = Some w \<and>
      0 < length (ex_finalize w) \<and> length (ex_finalize w) < 2 ^ 63 \<and> length (ex_finalize w) \<le> 64"
    using ex_laid_out by simp
  have snt: "fbs_sock_msendl list_stream (encode_message ex_finalize) ([4 \<mapsto> ex_command], ?m) []
      (co_fbs (nd_nodes sending_node ! 2)) ([], []) = Inr (0, ex_sock, (write_header True 16 1 @ [1], []))"
  proof -
    have "encode_message ex_finalize ([4 \<mapsto> ex_command], ?m) = encode_message ex_finalize ([4 \<mapsto> ex_command], ex_message)"
      by (simp add: encode_message_def)
    then have "fbs_sock_msendl list_stream (encode_message ex_finalize) ([4 \<mapsto> ex_command], ?m) [] ex_sock ([], []) =
        fbs_sock_msendl list_stream (encode_message ex_finalize) ([4 \<mapsto> ex_command], ex_message) [] ex_sock ([], [])"
      by (simp only: fbs_sock_msendl_def)
    then show ?thesis unfolding sending_conn(4) using ex_sent by simp
  qed
  have wire: "fst (write_header True 16 1 @ [1], [] :: u8 list) @ [5, 6] = fst ([] :: u8 list, [] :: u8 list) @
      snd ([] :: u8 list, write_header True 16 1 @ [1] @ [5, 6])"
    by simp
  have "0 < unat (m_ref ?m)" by simp
  from message_reaches_peer [OF ex_rings sending_conn(1-3) sending_msg this fits list_stream_laws fin snt _ _ _ _ _ _ _ wire,
      of live_conn blank_command ?gm "\<lparr>cn_ring = [], cn_c_sem = 0, cn_s_sem = 0\<rparr>" "\<lambda>cl sp st. Inr st" 3 8 Map.empty Map.empty "((), Map.empty)"]
  show ?thesis
    by (simp add: live_conn_def zero_conn_def ex_sock_def sending_node_def blank_command_def TX_SIZE_def MAX_DEPS_def CAPACITY_def
        del: fun_upd_apply) blast
qed

end
