(* ===== verification/Epx_Process.thy ===== *)
theory Epx_Process
  imports Epx_Connect
begin

text \<open>
  \<^verbatim>\<open>src/node.c\<close>, the start of \<^verbatim>\<open>src/main.c\<close> and the forwarding coroutines of \<^verbatim>\<open>src/replica.c\<close>: the
  options of the program, the channels between the threads, and the start and end of a node.
\<close>

section \<open>Options\<close>

text \<open>\<^verbatim>\<open>strtol\<close> in base 10: white space, a sign, then digits up to the first other character.\<close>

definition is_space :: "char \<Rightarrow> bool" where
  "is_space c \<longleftrightarrow> of_char c = (32 :: nat) \<or> 9 \<le> (of_char c :: nat) \<and> (of_char c :: nat) \<le> 13"

definition is_digit :: "char \<Rightarrow> bool" where
  "is_digit c \<longleftrightarrow> 48 \<le> (of_char c :: nat) \<and> (of_char c :: nat) \<le> 57"

definition clamp_long :: "int \<Rightarrow> int" where
  "clamp_long i = max (- (2 ^ 63)) (min (2 ^ 63 - 1) i)"

definition decimal :: "string \<Rightarrow> int" where
  "decimal s = foldl (\<lambda>v c. 10 * v + (int (of_char c) - 48)) 0 (takeWhile is_digit s)"

definition strtol10 :: "string \<Rightarrow> int" where
  "strtol10 s = (case dropWhile is_space s of
     [] \<Rightarrow> 0
   | c # cs \<Rightarrow> clamp_long (if c = CHR ''-'' then - decimal cs else if c = CHR ''+'' then decimal cs else decimal (c # cs)))"

text \<open>The tokens that successive calls of \<^verbatim>\<open>strtok\<close> return: the pieces between commas that are not empty.\<close>

fun pieces :: "string \<Rightarrow> string list" where
  "pieces [] = [[]]"
| "pieces (c # cs) = (if c = CHR '','' then [] # pieces cs
     else (case pieces cs of [] \<Rightarrow> [[c]] | p # ps \<Rightarrow> (c # p) # ps))"

definition tokens :: "string \<Rightarrow> string list" where
  "tokens s = filter (\<lambda>p. p \<noteq> []) (pieces s)"

text \<open>A buffer of the caller: \<open>None\<close> is a null pointer, otherwise its size and its string.\<close>

type_synonym buffer = "(nat \<times> string) option"

definition strcpy_to :: "buffer \<Rightarrow> string option \<Rightarrow> buffer res" where
  "strcpy_to b s =
     and_then (deref s) (\<lambda>s. and_then (deref b) (\<lambda>(size, _).
       if length s < size then Inr (Some (size, s)) else Inl Out_of_bounds))"

text \<open>
  \<open>opts\<close> is what \<^verbatim>\<open>getopt\<close> returns, each option with \<^verbatim>\<open>optarg\<close>. The state is the identifier, the buffers for
  the addresses, the array \<^verbatim>\<open>join\<close> and the number of its entries.
\<close>

definition NDS :: nat where [const_defs]: "NDS = 60"

definition set_nodes :: "string \<Rightarrow> buffer list \<Rightarrow> buffer list res" where
  "set_nodes s nodes =
     (if length s < NDS then
        for_each [0..<N] (\<lambda>i ns.
          and_then (aget ns i) (\<lambda>b.
          and_then (strcpy_to b (if i < length (tokens s) then Some (tokens s ! i) else None)) (aset ns i))) nodes
      else Inl Out_of_bounds)"

definition configure_option :: "char \<times> string option \<Rightarrow> int \<times> buffer list \<times> u64 list \<times> nat \<Rightarrow>
    (int \<times> buffer list \<times> u64 list \<times> nat) res" where
  "configure_option = (\<lambda>(c, optarg) (nid, nodes, join, jc).
     if c = CHR ''i'' then and_then (deref optarg) (\<lambda>s. Inr (strtol10 s, nodes, join, jc))
     else if c = CHR ''n'' then
       and_then (deref optarg) (\<lambda>s. and_then (set_nodes s nodes) (\<lambda>ns. Inr (nid, ns, join, jc)))
     else if c = CHR ''j'' then
       (case optarg of
          None \<Rightarrow> Inr (nid, nodes, join, jc)
        | Some s \<Rightarrow> and_then (aset join jc (of_int (strtol10 s))) (\<lambda>js. Inr (nid, nodes, js, Suc jc)))
     else Inr (nid, nodes, join, jc))"

definition configure :: "(char \<times> string option) list \<Rightarrow> buffer list \<Rightarrow> u64 list \<Rightarrow> (int \<times> buffer list \<times> u64 list) res" where
  "configure opts nodes join =
     and_then (for_each opts configure_option (0, nodes, join, 0)) (\<lambda>(nid, ns, js, _). Inr (nid, ns, js))"

text \<open>\<^verbatim>\<open>main\<close> passes an array of null pointers and zeroes.\<close>

definition main_configure :: "(char \<times> string option) list \<Rightarrow> (int \<times> buffer list \<times> u64 list) res" where
  "main_configure opts = configure opts (replicate N None) (replicate N 0)"

section \<open>Channels between the threads\<close>

record 'r io_sync =
  is_eo :: "'r chan"
  is_io :: "'r chan"
  is_exec :: "'r chan"

record 'r replica_sync =
  rs_step :: "'r chan"
  rs_propose :: "'r chan"
  rs_ctl :: "'r chan"

definition init_io_sync :: "('a, 'r) ring_lib \<Rightarrow> 'r io_sync \<Rightarrow> 'r io_sync" where
  "init_io_sync R s = s\<lparr>is_eo := fst (chan_init R (is_eo s)), is_exec := fst (chan_init R (is_exec s)),
     is_io := fst (chan_init R (is_io s))\<rparr>"

definition init_replica_sync :: "('a, 'r) ring_lib \<Rightarrow> 'r replica_sync \<Rightarrow> 'r replica_sync" where
  "init_replica_sync R s = s\<lparr>rs_ctl := fst (chan_init R (rs_ctl s)), rs_propose := fst (chan_init R (rs_propose s)),
     rs_step := fst (chan_init R (rs_step s))\<rparr>"

text \<open>One round of the coroutines that take messages to the replica's loop; \<open>None\<close>: it yields.\<close>

definition recv_step :: "('a, 'r) ring_lib \<Rightarrow> 'r replica_sync \<Rightarrow> 'a option \<times> 'r replica_sync" where
  "recv_step R s = (case chan_recv_mpsc R (rs_step s) None of
     (ok, m, ch) \<Rightarrow> (if ok then m else None, s\<lparr>rs_step := ch\<rparr>))"

definition recv_propose :: "('a, 'r) ring_lib \<Rightarrow> 'r replica_sync \<Rightarrow> 'a option \<times> 'r replica_sync" where
  "recv_propose R s = (case chan_recv_mpsc R (rs_propose s) None of
     (ok, m, ch) \<Rightarrow> (if ok then m else None, s\<lparr>rs_propose := ch\<rparr>))"

section \<open>Start and end of a node\<close>

text \<open>
  \<open>r1\<close>, \<open>r2\<close>, \<open>r4\<close> are what the two \<^verbatim>\<open>pthread_create\<close> and \<^verbatim>\<open>pthread_join\<close> return, \<open>io\<close> is \<open>start_io\<close> with its
  results. The second component tells whether the protocol's thread was cancelled.
\<close>

definition start :: "int \<Rightarrow> int \<Rightarrow> (('a, 'r) node_io \<Rightarrow> ('a, 'r) node_io \<times> int) \<Rightarrow> int \<Rightarrow> ('a, 'r) node_io \<Rightarrow>
    ('a, 'r) node_io \<times> bool \<times> int" where
  "start r1 r2 io r4 n =
     (if r1 \<noteq> 0 then (n, False, -1)
      else if r2 \<noteq> 0 then (n, True, -1)
      else case io n of (n1, rc) \<Rightarrow>
        if rc \<noteq> 0 then (n1, True, -1)
        else if r4 \<noteq> 0 then (n1, True, -1) else (n1, False, 0))"

definition stop :: "('a, 'r) node_io \<Rightarrow> ('a, 'r) node_io \<times> bool" where
  "stop n = (stop_io n, True)"

section \<open>Properties\<close>

definition joins :: "(char \<times> string option) list \<Rightarrow> nat" where
  "joins opts = length (filter (\<lambda>(c, s). c = CHR ''j'' \<and> s \<noteq> None) opts)"

lemma configure_loop:
  assumes "\<forall>s. (CHR ''i'', s) \<in> set opts \<longrightarrow> s \<noteq> None" and "length join = N" and "jc \<le> N"
    and "length nodes = N" and "nodes ! 0 = None"
  shows "(\<exists>st. for_each opts configure_option (nid, nodes, join, jc) = Inr st) \<longleftrightarrow>
    (\<forall>s. (CHR ''n'', s) \<notin> set opts) \<and> jc + joins opts \<le> N"
  using assms
proof (induction opts arbitrary: nid join jc)
  case Nil
  then show ?case by (simp add: joins_def)
next
  case (Cons o1 opts)
  obtain c s where o1: "o1 = (c, s)" by force
  have N0: "[0..<N] = 0 # [1..<N]" by (simp add: N_def upt_conv_Cons)
  consider "c = CHR ''n''" | "c = CHR ''i''" | "c = CHR ''j''" | "c \<notin> {CHR ''n'', CHR ''i'', CHR ''j''}" by blast
  then show ?case
  proof cases
    case 1
    have "\<exists>e. configure_option o1 (nid, nodes, join, jc) = Inl e"
      using 1 Cons.prems(4,5) N0
      by (cases s) (auto simp: o1 configure_option_def set_nodes_def strcpy_to_def N_def deref_def)
    then show ?thesis using 1 o1 by auto
  next
    case 2
    then show ?thesis
      using Cons.IH [of join jc] Cons.prems by (cases s) (auto simp: o1 configure_option_def joins_def)
  next
    case 3
    show ?thesis
    proof (cases s)
      case None
      then show ?thesis using 3 Cons.IH [of join jc] Cons.prems by (simp add: o1 configure_option_def joins_def)
    next
      case (Some a)
      show ?thesis
      proof (cases "jc < N")
        case True
        have "configure_option o1 (nid, nodes, join, jc) = Inr (nid, nodes, join[jc := of_int (strtol10 a)], Suc jc)"
          using 3 Some True Cons.prems by (simp add: o1 configure_option_def)
        moreover have "joins (o1 # opts) = Suc (joins opts)" using 3 Some by (simp add: joins_def o1)
        ultimately show ?thesis
          using Cons.IH [of "join[jc := of_int (strtol10 a)]" "Suc jc"] Cons.prems True 3 by (simp add: o1)
      next
        case False
        then show ?thesis using 3 Some Cons.prems by (simp add: o1 configure_option_def joins_def)
      qed
    qed
  next
    case 4
    then have "configure_option o1 (nid, nodes, join, jc) = Inr (nid, nodes, join, jc)" "joins (o1 # opts) = joins opts"
      by (auto simp: o1 configure_option_def joins_def)
    moreover have "(\<exists>st. for_each opts configure_option (nid, nodes, join, jc) = Inr st) \<longleftrightarrow>
        (\<forall>s. (CHR ''n'', s) \<notin> set opts) \<and> jc + joins opts \<le> N"
      by (rule Cons.IH) (use Cons.prems in auto)
    moreover have "(\<forall>s. (CHR ''n'', s) \<notin> set (o1 # opts)) \<longleftrightarrow> (\<forall>s. (CHR ''n'', s) \<notin> set opts)" using 4 o1 by auto
    ultimately show ?thesis by (simp only: for_each.simps and_then_Inr)
  qed
qed

text \<open>
  C40. The program cannot be given the addresses of its nodes: \<open>main\<close> passes null pointers for the
  buffers they are copied to, so its options are read without a fault exactly when \<open>-n\<close> is not
  among them and at most \<open>N\<close> nodes are to be joined.
\<close>

theorem main_options_without_nodes:
  assumes "\<forall>s. (CHR ''i'', s) \<in> set opts \<longrightarrow> s \<noteq> None"
  shows "(\<exists>r. main_configure opts = Inr r) \<longleftrightarrow> (\<forall>s. (CHR ''n'', s) \<notin> set opts) \<and> joins opts \<le> N"
proof -
  have "(\<exists>r. main_configure opts = Inr r) \<longleftrightarrow>
      (\<exists>st. for_each opts configure_option (0, replicate N None, replicate N 0, 0) = Inr st)"
    by (auto simp: main_configure_def configure_def and_then_eq_Inr)
  then show ?thesis
    using configure_loop [OF assms, of "replicate N 0" 0 "replicate N None" 0] by (simp add: N_def)
qed

theorem main_options_without_nodes_witness:
  "(\<exists>r. main_configure [(CHR ''i'', Some ''1''), (CHR ''j'', Some ''2'')] = Inr r) \<and>
   \<not> (\<exists>r. main_configure [(CHR ''n'', Some ''10.0.0.1,10.0.0.2,10.0.0.3'')] = Inr r)"
  using main_options_without_nodes [of "[(CHR ''i'', Some ''1''), (CHR ''j'', Some ''2'')]"]
    main_options_without_nodes [of "[(CHR ''n'', Some ''10.0.0.1,10.0.0.2,10.0.0.3'')]"]
  by (auto simp: joins_def N_def)

end
