(* ===== verification/Epx_Storage.thy ===== *)
theory Epx_Storage
  imports Epx_Prelude
begin

text \<open>
  \<^verbatim>\<open>src/storage.cpp\<close> and \<^verbatim>\<open>src/storage.h\<close>: the store of keys and values over RocksDB. RocksDB is a
  parameter; what its C interface documents about reading, writing and batches is the predicate
  \<open>rocks_ok\<close>.
\<close>

section \<open>The library and the state\<close>

text \<open>
  Databases are \<open>'d\<close>, option objects of all three kinds \<open>'o\<close>, batches \<open>'b\<close>. A call with an error
  argument returns the message it writes there, or \<open>None\<close> when it leaves the argument alone.
\<close>

record ('d, 'o, 'b) rocks =
  rk_options_create :: 'o
  rk_increase_parallelism :: "'o \<Rightarrow> int \<Rightarrow> 'o"
  rk_optimize_level_style_compaction :: "'o \<Rightarrow> nat \<Rightarrow> 'o"
  rk_create_if_missing :: "'o \<Rightarrow> bool \<Rightarrow> 'o"
  rk_open :: "'o \<Rightarrow> string \<Rightarrow> 'd option \<times> string option"
  rk_readoptions_create :: 'o
  rk_writeoptions_create :: 'o
  rk_get :: "'d \<Rightarrow> 'o \<Rightarrow> u8 list \<Rightarrow> u8 list option \<times> string option"
  rk_put :: "'d \<Rightarrow> 'o \<Rightarrow> u8 list \<Rightarrow> u8 list \<Rightarrow> 'd \<times> string option"
  rk_batch_create :: 'b
  rk_batch_clear :: "'b \<Rightarrow> 'b"
  rk_batch_put :: "'b \<Rightarrow> u8 list \<Rightarrow> u8 list \<Rightarrow> 'b"
  rk_write :: "'d \<Rightarrow> 'o \<Rightarrow> 'b \<Rightarrow> 'd \<times> string option"

text \<open>A pointer of the structure: null, to an object, or to nothing: never set, or destroyed.\<close>

datatype 'a ptr = Null | To (target: 'a) | Dangling

definition follow :: "'a ptr \<Rightarrow> 'a res" where
  "follow p = (case p of Null \<Rightarrow> Inl Null_deref | To x \<Rightarrow> Inr x | Dangling \<Rightarrow> Inl Use_after_free)"

definition ptr_of :: "'a option \<Rightarrow> 'a ptr" where
  "ptr_of x = (case x of None \<Rightarrow> Null | Some x \<Rightarrow> To x)"

lemma follow_eq_Inr [simp]: "follow p = Inr x \<longleftrightarrow> p = To x"
  by (cases p) (simp_all add: follow_def)

lemma follow_To [simp, res_simps]: "follow (To x) = Inr x"
  by simp

record ('d, 'o, 'b) store =
  st_db :: "'d ptr"
  st_options :: "'o ptr"
  st_r_options :: "'o ptr"
  st_w_options :: "'o ptr"
  st_w_batch :: "'b ptr"
  st_error :: "string ptr"

record kv =
  kv_key :: "u8 list"
  kv_value :: "u8 list"

definition DB_PATH :: string where "DB_PATH = ''/tmp/epx.db''"

text \<open>The error argument: a call that succeeds leaves it as it was.\<close>

definition note_error :: "string option \<Rightarrow> ('d, 'o, 'b) store \<Rightarrow> ('d, 'o, 'b) store" where
  "note_error e s = (case e of None \<Rightarrow> s | Some msg \<Rightarrow> s\<lparr>st_error := To msg\<rparr>)"

text \<open>\<^verbatim>\<open>strlen\<close> reads up to the terminator, past the buffer when there is none.\<close>

definition strlen :: "u8 list \<Rightarrow> nat res" where
  "strlen bs = (if 0 \<in> set bs then Inr (length (takeWhile (\<lambda>b. b \<noteq> 0) bs)) else Inl Out_of_bounds)"

definition read_bytes :: "u8 list \<Rightarrow> nat \<Rightarrow> u8 list res" where
  "read_bytes bs n = (if n \<le> length bs then Inr (take n bs) else Inl Out_of_bounds)"

definition read_key :: "kv \<Rightarrow> u8 list res" where
  "read_key item = read_bytes (kv_key item) (KEY_SIZE - 1)"

definition read_value :: "kv \<Rightarrow> u8 list res" where
  "read_value item = and_then (strlen (kv_value item)) (\<lambda>n. read_bytes (kv_value item) (n + 1))"

section \<open>Operations\<close>

text \<open>\<open>cpus\<close> is what \<^verbatim>\<open>sysconf\<close> returns; \<open>(int)\<close> cuts it to 32 bits. The result is the return value.\<close>

definition open_store :: "('d, 'o, 'b) rocks \<Rightarrow> int \<Rightarrow> ('d, 'o, 'b) store \<Rightarrow> ('d, 'o, 'b) store \<times> int" where
  "open_store R cpus s =
     (let o1 = rk_increase_parallelism R (rk_options_create R) (signed_take_bit 31 cpus);
          o2 = rk_create_if_missing R (rk_optimize_level_style_compaction R o1 0) True in
      case rk_open R o2 DB_PATH of (db, e) \<Rightarrow>
        let s1 = note_error e (s\<lparr>st_options := To o2, st_db := ptr_of db\<rparr>) in
        if st_error s1 \<noteq> Null then (s1, -1)
        else (s1\<lparr>st_r_options := To (rk_readoptions_create R), st_w_options := To (rk_writeoptions_create R),
                 st_w_batch := To (rk_batch_create R)\<rparr>, 0))"

text \<open>Every object is destroyed; none of the pointers is reset.\<close>

definition close_store :: "('d, 'o, 'b) store \<Rightarrow> ('d, 'o, 'b) store res" where
  "close_store s =
     and_then (follow (st_w_options s)) (\<lambda>_.
     and_then (follow (st_r_options s)) (\<lambda>_.
     and_then (follow (st_options s)) (\<lambda>_.
     and_then (follow (st_w_batch s)) (\<lambda>_.
     and_then (follow (st_db s)) (\<lambda>_.
       Inr (s\<lparr>st_w_options := Dangling, st_r_options := Dangling, st_options := Dangling,
              st_w_batch := Dangling, st_db := Dangling\<rparr>))))))"

text \<open>The value with its length, or \<open>None\<close> for a null pointer.\<close>

definition store_get :: "('d, 'o, 'b) rocks \<Rightarrow> kv \<Rightarrow> ('d, 'o, 'b) store \<Rightarrow>
    (u8 list option \<times> ('d, 'o, 'b) store) res" where
  "store_get R item s =
     and_then (follow (st_db s)) (\<lambda>db.
     and_then (follow (st_r_options s)) (\<lambda>ro.
     and_then (read_key item) (\<lambda>k.
       case rk_get R db ro k of (v, e) \<Rightarrow> Inr (v, note_error e s))))"

definition store_put :: "('d, 'o, 'b) rocks \<Rightarrow> kv \<Rightarrow> ('d, 'o, 'b) store \<Rightarrow> ('d, 'o, 'b) store res" where
  "store_put R item s =
     and_then (follow (st_db s)) (\<lambda>db.
     and_then (follow (st_w_options s)) (\<lambda>wo.
     and_then (read_key item) (\<lambda>k.
     and_then (read_value item) (\<lambda>v.
       case rk_put R db wo k v of (db', e) \<Rightarrow> Inr (note_error e (s\<lparr>st_db := To db'\<rparr>))))))"

text \<open>\<open>len\<close> is an \<^verbatim>\<open>int\<close>: a negative one gives an empty batch. The pointers of the array are not null.\<close>

definition batch_item :: "('d, 'o, 'b) rocks \<Rightarrow> kv list \<Rightarrow> nat \<Rightarrow> 'b \<Rightarrow> 'b res" where
  "batch_item R kvs i b =
     and_then (aget kvs i) (\<lambda>item.
     and_then (read_key item) (\<lambda>k.
     and_then (read_value item) (\<lambda>v. Inr (rk_batch_put R b k v))))"

definition store_batch_put :: "('d, 'o, 'b) rocks \<Rightarrow> kv list \<Rightarrow> int \<Rightarrow> ('d, 'o, 'b) store \<Rightarrow>
    ('d, 'o, 'b) store res" where
  "store_batch_put R kvs len s =
     (if st_w_batch s = Null then Inr s
      else and_then (follow (st_w_batch s)) (\<lambda>b0.
           and_then (for_each [0..<nat len] (batch_item R kvs) (rk_batch_clear R b0)) (\<lambda>b.
           and_then (follow (st_db s)) (\<lambda>db.
           and_then (follow (st_w_options s)) (\<lambda>wo.
             case rk_write R db wo b of (db', e) \<Rightarrow>
               Inr (note_error e (s\<lparr>st_w_batch := To b, st_db := To db'\<rparr>)))))))"

section \<open>What RocksDB promises\<close>

text \<open>
  \<open>view\<close> is the contents of a database and \<open>ops\<close> the writes that a batch has gathered. A read that
  reports no error returns the contents at the key, a write that reports none puts the value there, and
  a batch is applied in its order; an error says nothing about either.
\<close>

definition rocks_ok :: "('d, 'o, 'b) rocks \<Rightarrow> ('d \<Rightarrow> u8 list \<Rightarrow> u8 list option) \<Rightarrow>
    ('b \<Rightarrow> (u8 list \<times> u8 list) list) \<Rightarrow> bool" where
  "rocks_ok R view ops \<longleftrightarrow>
     (\<forall>db ro k v. rk_get R db ro k = (v, None) \<longrightarrow> v = view db k) \<and>
     (\<forall>db wo k v db'. rk_put R db wo k v = (db', None) \<longrightarrow> view db' = (view db)(k \<mapsto> v)) \<and>
     (\<forall>b. ops (rk_batch_clear R b) = []) \<and>
     (\<forall>b k v. ops (rk_batch_put R b k v) = ops b @ [(k, v)]) \<and>
     (\<forall>db wo b db'. rk_write R db wo b = (db', None) \<longrightarrow> view db' = view db ++ map_of (rev (ops b)))"

lemma rocks_getD: "rocks_ok R view ops \<Longrightarrow> rk_get R db ro k = (v, None) \<Longrightarrow> v = view db k"
  by (simp add: rocks_ok_def)

lemma rocks_putD: "rocks_ok R view ops \<Longrightarrow> rk_put R db wo k v = (db', None) \<Longrightarrow> view db' = (view db)(k \<mapsto> v)"
  by (simp add: rocks_ok_def)

lemma rocks_writeD:
  "rocks_ok R view ops \<Longrightarrow> rk_write R db wo b = (db', None) \<Longrightarrow> view db' = view db ++ map_of (rev (ops b))"
  by (simp add: rocks_ok_def)

lemma rocks_ops [simp]:
  assumes "rocks_ok R view ops"
  shows "ops (rk_batch_clear R b) = []" "ops (rk_batch_put R b k v) = ops b @ [(k, v)]"
  using assms by (simp_all add: rocks_ok_def)

section \<open>The store as a map\<close>

text \<open>The key that is used and the string that is stored, with its terminator.\<close>

definition short_key :: "kv \<Rightarrow> u8 list" where
  "short_key item = take (KEY_SIZE - 1) (kv_key item)"

definition c_string :: "u8 list \<Rightarrow> u8 list" where
  "c_string bs = takeWhile (\<lambda>b. b \<noteq> 0) bs @ [0]"

definition entry_of :: "kv \<Rightarrow> u8 list \<times> u8 list" where
  "entry_of item = (short_key item, c_string (kv_value item))"

definition kv_ok :: "kv \<Rightarrow> bool" where
  "kv_ok item \<longleftrightarrow> KEY_SIZE - 1 \<le> length (kv_key item) \<and> 0 \<in> set (kv_value item)"

definition contents :: "('d \<Rightarrow> 'm) \<Rightarrow> ('d, 'o, 'b) store \<Rightarrow> 'm" where
  "contents view s = view (target (st_db s))"

lemma take_c_string:
  "0 \<in> set bs \<Longrightarrow> take (Suc (length (takeWhile (\<lambda>b. b \<noteq> 0) bs))) bs = c_string bs \<and>
    Suc (length (takeWhile (\<lambda>b. b \<noteq> 0) bs)) \<le> length bs"
  by (induction bs) (auto simp: c_string_def)

lemma read_value_eq: "read_value item = (if 0 \<in> set (kv_value item) then Inr (c_string (kv_value item)) else Inl Out_of_bounds)"
  using take_c_string [of "kv_value item"] by (simp add: read_value_def strlen_def read_bytes_def)

lemma read_key_eq: "read_key item =
    (if KEY_SIZE - 1 \<le> length (kv_key item) then Inr (short_key item) else Inl Out_of_bounds)"
  by (simp add: read_key_def read_bytes_def short_key_def)

lemma note_error_Null [simp]: "st_error (note_error e s) = Null \<longleftrightarrow> e = None \<and> st_error s = Null"
  by (simp add: note_error_def split: option.split)

lemma note_error_simps [simp]:
  "note_error None s = s" "st_db (note_error e s) = st_db s" "st_options (note_error e s) = st_options s"
  by (simp_all add: note_error_def split: option.split)

lemma store_put_eq:
  assumes "st_db s = To db" and "st_w_options s = To wo"
  shows "store_put R item s = (if kv_ok item then
      Inr (note_error (snd (rk_put R db wo (short_key item) (c_string (kv_value item))))
        (s\<lparr>st_db := To (fst (rk_put R db wo (short_key item) (c_string (kv_value item))))\<rparr>))
    else Inl Out_of_bounds)"
  using assms unfolding store_put_def by (simp add: read_key_eq read_value_eq kv_ok_def split: prod.split)

lemma store_putD:
  assumes "store_put R item s = Inr s'"
  obtains db wo db' e where "st_db s = To db" "st_w_options s = To wo" "kv_ok item"
    "rk_put R db wo (short_key item) (c_string (kv_value item)) = (db', e)" "s' = note_error e (s\<lparr>st_db := To db'\<rparr>)"
proof -
  obtain db wo where s: "st_db s = To db" "st_w_options s = To wo"
    using assms by (auto simp: store_put_def and_then_eq_Inr)
  obtain db' e where p: "rk_put R db wo (short_key item) (c_string (kv_value item)) = (db', e)" by force
  show thesis
    by (rule that [OF s _ p]) (use assms p in \<open>simp_all add: store_put_eq [OF s] split: if_splits\<close>)
qed

lemma store_put_contents:
  assumes R: "rocks_ok R view ops" and p: "store_put R item s = Inr s'" and e: "st_error s' = Null"
  shows "contents view s' = (contents view s)(short_key item \<mapsto> c_string (kv_value item))" "st_error s = Null"
  using p e by (auto elim!: store_putD dest: rocks_putD [OF R] simp: contents_def)

lemma store_getD:
  assumes "store_get R item s = Inr (v, s')"
  obtains db ro e where "st_db s = To db" "st_r_options s = To ro" "KEY_SIZE - 1 \<le> length (kv_key item)"
    "rk_get R db ro (short_key item) = (v, e)" "s' = note_error e s"
proof -
  obtain db ro where s: "st_db s = To db" "st_r_options s = To ro"
    using assms by (auto simp: store_get_def and_then_eq_Inr)
  obtain w e where g: "rk_get R db ro (short_key item) = (w, e)" by force
  have k: "KEY_SIZE - 1 \<le> length (kv_key item)"
    using assms s by (simp add: store_get_def read_key_eq split: if_splits)
  then have "store_get R item s = Inr (w, note_error e s)"
    using s g by (simp add: store_get_def read_key_eq)
  then show thesis
    using assms g by (intro that [OF s k]) simp_all
qed

lemma store_get_contents:
  assumes R: "rocks_ok R view ops" and g: "store_get R item s = Inr (v, s')" and e: "st_error s' = Null"
  shows "v = contents view s (short_key item)" "s' = s"
  using g e by (auto elim!: store_getD dest: rocks_getD [OF R] simp: contents_def)

lemma batch_loop:
  assumes R: "rocks_ok R view ops" and "n \<le> length kvs" and "\<forall>item \<in> set (take n kvs). kv_ok item"
  shows "\<exists>b'. for_each [0..<n] (batch_item R kvs) b = Inr b' \<and> ops b' = ops b @ map entry_of (take n kvs)"
  using assms(2, 3)
proof (induction n)
  case 0
  then show ?case by simp
next
  case (Suc n)
  have t: "take (Suc n) kvs = take n kvs @ [kvs ! n]" using Suc.prems(1) by (simp add: take_Suc_conv_app_nth)
  obtain b' where b': "for_each [0..<n] (batch_item R kvs) b = Inr b'" "ops b' = ops b @ map entry_of (take n kvs)"
    using Suc t by auto
  have "batch_item R kvs n b' = Inr (rk_batch_put R b' (short_key (kvs ! n)) (c_string (kv_value (kvs ! n))))"
    using Suc.prems t by (simp add: batch_item_def read_key_eq read_value_eq kv_ok_def)
  then show ?case
    using b' R by (simp add: for_each_append t entry_of_def)
qed

lemma store_puts_contents:
  assumes R: "rocks_ok R view ops"
  shows "for_each items (store_put R) s = Inr s' \<Longrightarrow> st_error s' = Null \<Longrightarrow>
    contents view s' = contents view s ++ map_of (rev (map entry_of items)) \<and> st_error s = Null \<and> (\<forall>item \<in> set items. kv_ok item)"
proof (induction items arbitrary: s)
  case Nil
  then show ?case by simp
next
  case (Cons item items)
  then obtain s1 where s1: "store_put R item s = Inr s1" "for_each items (store_put R) s1 = Inr s'"
    by (auto simp: and_then_eq_Inr)
  have "kv_ok item" using s1(1) by (rule store_putD)
  then show ?case
    using Cons.IH [OF s1(2) Cons.prems(2)] store_put_contents [OF R s1(1)]
    by (simp add: entry_of_def map_add_def fun_eq_iff split: option.split)
qed

lemma store_batch_contents:
  assumes R: "rocks_ok R view ops" and n: "n \<le> length kvs" and ok: "\<forall>item \<in> set (take n kvs). kv_ok item"
    and p: "store_batch_put R kvs (int n) s = Inr s'" and b: "st_w_batch s \<noteq> Null" and e: "st_error s' = Null"
  shows "contents view s' = contents view s ++ map_of (rev (map entry_of (take n kvs)))"
proof -
  obtain b0 where b0: "st_w_batch s = To b0"
    using p b by (auto simp: store_batch_put_def and_then_eq_Inr)
  obtain b' where b': "for_each [0..<n] (batch_item R kvs) (rk_batch_clear R b0) = Inr b'"
      "ops b' = ops (rk_batch_clear R b0) @ map entry_of (take n kvs)"
    using batch_loop [OF R n ok] by blast
  obtain db wo where d: "st_db s = To db" "st_w_options s = To wo"
    using p b0 b' by (auto simp: store_batch_put_def and_then_eq_Inr)
  obtain db' e where w: "rk_write R db wo b' = (db', e)" by force
  have s': "s' = note_error e (s\<lparr>st_w_batch := To b', st_db := To db'\<rparr>)"
    using p b0 b'(1) d w by (simp add: store_batch_put_def)
  with e have "e = None" by simp
  with s' w d b'(2) R show ?thesis
    by (simp add: contents_def rocks_writeD)
qed

text \<open>A missing batch drops the items without an error; a batch after the close is not missing.\<close>

lemma store_batch_put_no_batch: "st_w_batch s = Null \<Longrightarrow> store_batch_put R kvs len s = Inr s"
  by (simp add: store_batch_put_def)

lemma store_batch_put_closed:
  "close_store s = Inr s' \<Longrightarrow> store_batch_put R kvs len s' = Inl Use_after_free"
  by (auto simp: close_store_def and_then_eq_Inr store_batch_put_def follow_def)

lemma close_store_twice: "close_store s = Inr s' \<Longrightarrow> close_store s' = Inl Use_after_free"
  by (auto simp: close_store_def and_then_eq_Inr follow_def)

text \<open>The last byte of a key that fits its field is not part of the key.\<close>

lemma short_key_ignores_last: "length k = KEY_SIZE - 1 \<Longrightarrow> short_key \<lparr>kv_key = k @ [a], kv_value = v\<rparr> = k"
  by (simp add: short_key_def)

section \<open>Properties\<close>

definition open_options :: "('d, 'o, 'b) rocks \<Rightarrow> int \<Rightarrow> 'o" where
  "open_options R cpus = rk_create_if_missing R
     (rk_optimize_level_style_compaction R (rk_increase_parallelism R (rk_options_create R) (signed_take_bit 31 cpus)) 0) True"

lemma open_store_eq: "open_store R cpus s =
   (let (db, e) = rk_open R (open_options R cpus) DB_PATH;
        s1 = note_error e (s\<lparr>st_options := To (open_options R cpus), st_db := ptr_of db\<rparr>) in
    if e \<noteq> None \<or> st_error s \<noteq> Null then (s1, -1)
    else (s1\<lparr>st_r_options := To (rk_readoptions_create R), st_w_options := To (rk_writeoptions_create R),
             st_w_batch := To (rk_batch_create R)\<rparr>, 0))"
  by (auto simp: open_store_def open_options_def Let_def split: prod.split)

text \<open>A concrete library: contents are the list of the writes, newest first, and nothing fails.\<close>

definition list_rocks :: "((u8 list \<times> u8 list) list, unit, (u8 list \<times> u8 list) list) rocks" where
  "list_rocks = \<lparr>rk_options_create = (), rk_increase_parallelism = \<lambda>p _. p, rk_optimize_level_style_compaction = \<lambda>p _. p,
     rk_create_if_missing = \<lambda>p _. p, rk_open = \<lambda>_ _. (Some [], None), rk_readoptions_create = (),
     rk_writeoptions_create = (), rk_get = \<lambda>db _ k. (map_of db k, None), rk_put = \<lambda>db _ k v. ((k, v) # db, None),
     rk_batch_create = [], rk_batch_clear = \<lambda>_. [], rk_batch_put = \<lambda>b k v. b @ [(k, v)],
     rk_write = \<lambda>db _ b. (rev b @ db, None)\<rparr>"

lemma list_rocks_ok: "rocks_ok list_rocks map_of id"
  by (simp add: rocks_ok_def list_rocks_def)

definition fresh_store :: "((u8 list \<times> u8 list) list, unit, (u8 list \<times> u8 list) list) store" where
  "fresh_store = fst (open_store list_rocks 4 \<lparr>st_db = Null, st_options = Null, st_r_options = Null,
     st_w_options = Null, st_w_batch = Null, st_error = Null\<rparr>)"

definition item1 :: kv where "item1 = \<lparr>kv_key = [48, 49, 0], kv_value = [97, 98, 0, 99]\<rparr>"
definition item2 :: kv where "item2 = \<lparr>kv_key = [48, 49, 7], kv_value = [100, 0]\<rparr>"

text \<open>
  C22. A value that was put is what a get returns, up to its terminator and under every key with
  the same first bytes; other keys keep their values.
\<close>

theorem store_roundtrip:
  assumes "rocks_ok R view ops"
    and "store_put R item s = Inr s1" and "store_get R item' s1 = Inr (v, s2)" and "st_error s2 = Null"
  shows "v = (if short_key item' = short_key item then Some (c_string (kv_value item))
    else contents view s (short_key item'))"
  using store_get_contents [OF assms(1, 3, 4)] store_put_contents [OF assms(1, 2)] assms(4) by auto

theorem store_roundtrip_witness:
  "\<exists>s1. store_put list_rocks item1 fresh_store = Inr s1 \<and> store_get list_rocks item2 s1 = Inr (Some [97, 98, 0], s1)"
proof -
  define s1 where "s1 = fresh_store\<lparr>st_db := To [([48, 49], [97, 98, 0])]\<rparr>"
  have p: "store_put list_rocks item1 fresh_store = Inr s1"
    by (simp add: s1_def store_put_def fresh_store_def open_store_def list_rocks_def item1_def read_key_eq
        read_value_eq short_key_def c_string_def KEY_SIZE_def ptr_of_def)
  obtain v where g: "store_get list_rocks item2 s1 = Inr (v, s1)" and e: "st_error s1 = Null"
    by (simp add: s1_def store_get_def fresh_store_def open_store_def list_rocks_def item2_def read_key_eq
        short_key_def KEY_SIZE_def ptr_of_def)
  show ?thesis
    using p g store_roundtrip [OF list_rocks_ok p g e]
    by (simp add: item1_def item2_def short_key_def c_string_def KEY_SIZE_def)
qed

text \<open>
  C21. A batch of items leaves the contents that putting its items one after the other leaves: the last
  item with a key wins.
\<close>

theorem store_batch_put_equals_puts:
  assumes "rocks_ok R view ops" and "st_w_batch s \<noteq> Null" and "n \<le> length kvs"
    and "store_batch_put R kvs (int n) s = Inr s1" and "st_error s1 = Null"
    and "for_each (take n kvs) (store_put R) s = Inr s2" and "st_error s2 = Null"
  shows "contents view s1 = contents view s2"
proof -
  have "contents view s2 = contents view s ++ map_of (rev (map entry_of (take n kvs)))"
    "\<forall>item \<in> set (take n kvs). kv_ok item"
    using store_puts_contents [OF assms(1, 6, 7)] by simp_all
  with store_batch_contents [OF assms(1, 3) _ assms(4, 2, 5)] show ?thesis by simp
qed

lemma item_simps:
  "read_key item1 = Inr [48, 49]" "read_key item2 = Inr [48, 49]"
  "read_value item1 = Inr [97, 98, 0]" "read_value item2 = Inr [100, 0]"
  by (simp_all add: item1_def item2_def read_key_eq read_value_eq short_key_def c_string_def KEY_SIZE_def)

lemma fresh_store_simps [simp]:
  "st_db fresh_store = To []" "st_w_options fresh_store = To ()" "st_r_options fresh_store = To ()"
  "st_w_batch fresh_store = To []" "st_error fresh_store = Null"
  by (simp_all add: fresh_store_def open_store_def list_rocks_def ptr_of_def)

theorem store_batch_put_equals_puts_witness:
  "\<exists>s1 s2. store_batch_put list_rocks [item1, item2] 2 fresh_store = Inr s1 \<and>
     for_each [item1, item2] (store_put list_rocks) fresh_store = Inr s2 \<and>
     contents map_of s1 = contents map_of s2 \<and> contents map_of s1 [48, 49] = Some [100, 0]"
proof -
  let ?db = "[([48, 49], [100, 0]), ([48, 49], [97, 98, 0])] :: (u8 list \<times> u8 list) list"
  define s1 where "s1 = fresh_store\<lparr>st_w_batch := To (rev ?db), st_db := To ?db\<rparr>"
  define s2 where "s2 = fresh_store\<lparr>st_db := To ?db\<rparr>"
  have b: "store_batch_put list_rocks [item1, item2] (int 2) fresh_store = Inr s1"
    by (simp add: s1_def store_batch_put_def batch_item_def item_simps list_rocks_def upt_rec)
  have p: "for_each (take 2 [item1, item2]) (store_put list_rocks) fresh_store = Inr s2"
    by (simp add: s2_def store_put_def item_simps list_rocks_def)
  have "contents map_of s1 = contents map_of s2"
    by (rule store_batch_put_equals_puts [OF list_rocks_ok _ _ b _ p]) (simp_all add: s1_def s2_def)
  then show ?thesis
    using b p by (intro exI [of _ s1] exI [of _ s2]) (simp add: s1_def s2_def contents_def)
qed

text \<open>Opening succeeds exactly when the library does and no error was noted before, whatever the memory of
  the structure held.\<close>

lemma open_store_result:
  "snd (open_store R cpus s) = 0 \<longleftrightarrow> snd (rk_open R (open_options R cpus) DB_PATH) = None \<and> st_error s = Null"
  by (auto simp: open_store_eq Let_def split: prod.splits if_splits)

lemma open_store_usable:
  assumes "snd (open_store R cpus s) = 0" and "fst (rk_open R (open_options R cpus) DB_PATH) = Some db" and "kv_ok item"
  shows "\<exists>s'. store_put R item (fst (open_store R cpus s)) = Inr s'"
  using assms
  by (auto simp: open_store_eq Let_def ptr_of_def store_put_eq split: prod.splits if_splits)

end
