(* ===== verification/Epx_Life.thy ===== *)
theory Epx_Life
  imports Epx_Protocol
begin

text \<open>
  The life of a replica: the rest of \<^verbatim>\<open>new_replica\<close>, \<^verbatim>\<open>run_replica\<close> and \<^verbatim>\<open>destroy_replica\<close> of
  \<^verbatim>\<open>src/replica.c\<close>, and the protocol's thread, \<^verbatim>\<open>run\<close> of \<^verbatim>\<open>src/epaxos.c\<close>, from its first line to its last.
\<close>

section \<open>Handles, coroutines and fields the protocol does not use\<close>

datatype handle = Timers | Chan_tick | Chan_propose | Chan_ii | Deferred | Bundle

datatype coroutine = Tcl | Recv_propose | Recv_step

record ('t, 'd) live_replica =
  lr_rep :: "('t, 'd) replica"
  lr_running :: bool
  lr_handles :: "handle list"
  lr_coroutines :: "coroutine list"
  lr_frequency :: "32 word"
  lr_checkpoint :: "32 word"
  lr_interval :: u64

text \<open>
  \<open>err\<close> is the error of \<^verbatim>\<open>timeouts_open\<close>, \<open>c1\<close>, \<open>c2\<close>, \<open>c3\<close> what \<^verbatim>\<open>chmake\<close> returns for the three channels. What was
  opened before a failure stays open, and then neither the trees nor the table are set up.
\<close>

definition open_replica :: "('t, 'g, 'd) env \<Rightarrow> u64 \<Rightarrow> 'd \<Rightarrow> int \<Rightarrow> int \<Rightarrow> int \<Rightarrow> int \<Rightarrow> ('t, 'd) live_replica \<Rightarrow>
    ('t, 'd) live_replica \<times> int" where
  "open_replica E rid kh_init err c1 c2 c3 l =
     (let l0 = l\<lparr>lr_running := False\<rparr> in
      if err \<noteq> 0 then (l0\<lparr>lr_handles := []\<rparr>, -1)
      else if c1 \<noteq> 0 then (l0\<lparr>lr_handles := [Timers]\<rparr>, -1)
      else if c2 \<noteq> 0 then (l0\<lparr>lr_handles := [Timers, Chan_tick]\<rparr>, -1)
      else if c3 \<noteq> 0 then (l0\<lparr>lr_handles := [Timers, Chan_tick, Chan_propose]\<rparr>, -1)
      else (l0\<lparr>lr_handles := [Timers, Chan_tick, Chan_propose, Chan_ii, Deferred, Bundle],
               lr_rep := new_replica E rid kh_init\<rparr>, 0))"

text \<open>\<open>x << N\<close> on an \<^verbatim>\<open>int\<close>, read as the unsigned 64-bit time of the timer library.\<close>

definition int_shl :: "32 word \<Rightarrow> u64" where
  "int_shl w = signed (push_bit N w)"

definition add_timer :: "32 word \<Rightarrow> ('t, 'd) live_replica \<Rightarrow> ('t, 'd) live_replica" where
  "add_timer w l = l\<lparr>lr_rep := emit (Timeouts_add Replica_timer (unat (int_shl w))) (lr_rep l)\<rparr>"

text \<open>The results of \<^verbatim>\<open>bundle_go\<close> for the coroutines, in their order: those before the first failure run.\<close>

definition run_replica :: "int \<Rightarrow> int \<Rightarrow> int \<Rightarrow> ('t, 'd) live_replica \<Rightarrow> ('t, 'd) live_replica \<times> int" where
  "run_replica g1 g2 g3 l =
     (let l0 = l\<lparr>lr_running := True\<rparr> in
      if g1 < 0 then (l0\<lparr>lr_running := False\<rparr>, -1)
      else if g2 < 0 then (l0\<lparr>lr_running := False, lr_coroutines := [Tcl]\<rparr>, -1)
      else if g3 < 0 then (l0\<lparr>lr_running := False, lr_coroutines := [Tcl, Recv_propose]\<rparr>, -1)
      else (add_timer (lr_frequency l) (l0\<lparr>lr_coroutines := [Tcl, Recv_propose, Recv_step]\<rparr>), 0))"

text \<open>
  \<open>walk t\<close> is the order in which \<^verbatim>\<open>LLRB_DESTROY\<close> visits the instances of a tree. Closing the bundle ends
  its coroutines. What is left in the roots of the trees is not read again.
\<close>

definition destroy_tree :: "('t \<Rightarrow> u64 list) \<Rightarrow> 't list \<Rightarrow> nat \<Rightarrow> insts \<times> cmds \<Rightarrow> (insts \<times> cmds) res" where
  "destroy_tree walk ts j st =
     and_then (aget ts j) (\<lambda>t. for_each (map (iid (of_nat j)) (walk t)) destroy_instance st)"

definition destroy_replica :: "('t \<Rightarrow> u64 list) \<Rightarrow> ('t, 'd) live_replica \<Rightarrow> ('t, 'd) live_replica res" where
  "destroy_replica walk l =
     (let r = lr_rep l in
      and_then (for_each [0..<N] (destroy_tree walk (r_index r)) (r_insts r, r_cmds r)) (\<lambda>(insts, cmds).
        Inr (l\<lparr>lr_running := False, lr_handles := [], lr_coroutines := [],
               lr_rep := r\<lparr>r_insts := insts, r_cmds := cmds\<rparr>\<rparr>)))"

section \<open>The thread\<close>

text \<open>
  What the loop observes, round by round: the flag \<^verbatim>\<open>io->running\<close> and what \<^verbatim>\<open>choose\<close> returns, \<open>None\<close> for an
  error. The loop is left, or the thread exits after an error of \<open>step\<close> or \<open>propose\<close>, or it waits.
\<close>

datatype ending = Left_loop | Exited | Waiting

fun run_loop :: "('t, 'g, 'd) env \<Rightarrow> (bool \<times> input option) list \<Rightarrow> ('t, 'd) replica \<Rightarrow> (('t, 'd) replica \<times> ending) res" where
  "run_loop E [] r = Inr (r, Waiting)"
| "run_loop E ((running, x) # obs) r =
     (if \<not> running then Inr (r, Left_loop)
      else case x of
        None \<Rightarrow> Inr (r, Left_loop)
      | Some x \<Rightarrow> and_then (serve E x r) (\<lambda>(r', ok). if ok then run_loop E obs r' else Inr (r', Exited)))"

text \<open>Leaving the function before the loop skips the cleanup handler; the other two ways out run it.\<close>

definition run_thread :: "('t, 'g, 'd) env \<Rightarrow> ('t \<Rightarrow> u64 list) \<Rightarrow> u64 \<Rightarrow> 'd \<Rightarrow> int \<times> int \<times> int \<times> int \<Rightarrow> int \<times> int \<times> int \<Rightarrow>
    (bool \<times> input option) list \<Rightarrow> ('t, 'd) live_replica \<Rightarrow> ('t, 'd) live_replica res" where
  "run_thread E walk rid kh_init = (\<lambda>(err, c1, c2, c3) (g1, g2, g3) obs l.
     case open_replica E rid kh_init err c1 c2 c3 l of (l1, rc1) \<Rightarrow>
       if rc1 \<noteq> 0 then Inr l1
       else case run_replica g1 g2 g3 (add_timer (lr_checkpoint l1) (l1\<lparr>lr_interval := int_shl (lr_checkpoint l1)\<rparr>)) of
         (l2, rc2) \<Rightarrow>
           if rc2 \<noteq> 0 then Inr l2
           else and_then (run_loop E obs (lr_rep l2)) (\<lambda>(r, e).
                  if e = Waiting then Inr (l2\<lparr>lr_rep := r\<rparr>) else destroy_replica walk (l2\<lparr>lr_rep := r\<rparr>)))"

section \<open>The loop\<close>

lemma run_loop_served: "run_loop E (map (\<lambda>x. (True, Some x)) xs) r = Inr (r', e) \<Longrightarrow> run E xs r = Inr r'"
proof (induction xs arbitrary: r)
  case Nil
  then show ?case by simp
next
  case (Cons x xs)
  then obtain r1 ok where "serve E x r = Inr (r1, ok)" by (auto simp: and_then_eq_Inr)
  with Cons show ?case by (cases ok) simp_all
qed

lemma run_loop_waiting:
  "run_loop E obs r = Inr (r', Waiting) \<Longrightarrow> \<exists>xs. obs = map (\<lambda>x. (True, Some x)) xs \<and> run E xs r = Inr r'"
proof (induction obs arbitrary: r)
  case Nil
  then show ?case by simp
next
  case (Cons ob obs)
  then obtain x r1 where x: "ob = (True, Some x)" and s: "serve E x r = Inr (r1, True)"
      and l: "run_loop E obs r1 = Inr (r', Waiting)"
    by (cases ob) (auto simp: and_then_eq_Inr split: if_splits option.splits)
  obtain xs where "obs = map (\<lambda>x. (True, Some x)) xs" "run E xs r1 = Inr r'"
    using Cons.IH [OF l] by blast
  with x s show ?case by (intro exI [of _ "x # xs"]) simp
qed

text \<open>A flag that is not set yet ends the thread as one that was cleared does.\<close>

lemma run_loop_not_running [simp]: "run_loop E ((False, x) # obs) r = Inr (r, Left_loop)"
  by simp

lemma run_thread_leaks:
  assumes "run_thread E walk rid kh (0, 0, 0, 0) (g1, g2, g3) obs l = Inr l'" and "g1 < 0 \<or> g2 < 0 \<or> g3 < 0"
  shows "lr_handles l' \<noteq> [] \<and> \<not> lr_running l'"
  using assms
  by (auto simp: run_thread_def open_replica_def run_replica_def add_timer_def Let_def split: if_splits)

section \<open>The end\<close>

text \<open>Every instance has its command to itself.\<close>

definition owned :: "insts \<Rightarrow> cmds \<Rightarrow> bool" where
  "owned insts cmds \<longleftrightarrow>
     (\<forall>k i p. insts k = Some i \<longrightarrow> i_command i = Some p \<longrightarrow> cmds p \<noteq> None) \<and>
     (\<forall>k k' i i' p. insts k = Some i \<longrightarrow> insts k' = Some i' \<longrightarrow> i_command i = Some p \<longrightarrow> i_command i' = Some p \<longrightarrow> k = k')"

lemma owned_destroy:
  assumes o: "owned insts cmds" and k: "insts k = Some i"
  shows "\<exists>cmds'. destroy_instance k (insts, cmds) = Inr (insts(k := None), cmds') \<and> owned (insts(k := None)) cmds' \<and>
    (\<forall>p. cmds' p = (if i_command i = Some p then None else cmds p))"
proof (cases "i_command i")
  case None
  then show ?thesis using o k unfolding owned_def destroy_instance_def by (auto simp: load_def)
next
  case (Some p)
  have "cmds p \<noteq> None" using o k Some unfolding owned_def by blast
  moreover have "i_command i' \<noteq> Some p" if "insts k' = Some i'" "k' \<noteq> k" for k' i'
    using o k Some that unfolding owned_def by blast
  ultimately show ?thesis
    using o k Some unfolding owned_def destroy_instance_def by (fastforce simp: load_def)
qed

lemma owned_destroy_all:
  assumes "distinct ks" and "\<forall>k \<in> set ks. insts k \<noteq> None" and "owned insts cmds"
  shows "\<exists>cmds'. for_each ks destroy_instance (insts, cmds) = Inr (insts |` (- set ks), cmds') \<and>
    owned (insts |` (- set ks)) cmds' \<and>
    (\<forall>k \<in> set ks. \<forall>i p. insts k = Some i \<longrightarrow> i_command i = Some p \<longrightarrow> cmds' p = None) \<and>
    (\<forall>p. cmds p = None \<longrightarrow> cmds' p = None)"
  using assms
proof (induction ks arbitrary: insts cmds)
  case Nil
  then show ?case by simp
next
  case (Cons k ks)
  then obtain i where i: "insts k = Some i" by auto
  obtain cmds1 where d: "destroy_instance k (insts, cmds) = Inr (insts(k := None), cmds1)" "owned (insts(k := None)) cmds1"
      "\<forall>p. cmds1 p = (if i_command i = Some p then None else cmds p)"
    using owned_destroy [OF Cons.prems(3) i] by blast
  have "\<forall>k' \<in> set ks. (insts(k := None)) k' \<noteq> None" using Cons.prems by auto
  moreover have "distinct ks" using Cons.prems(1) by simp
  ultimately obtain cmds' where c:
      "for_each ks destroy_instance (insts(k := None), cmds1) = Inr ((insts(k := None)) |` (- set ks), cmds')"
      "owned ((insts(k := None)) |` (- set ks)) cmds'"
      "\<forall>k' \<in> set ks. \<forall>i p. (insts(k := None)) k' = Some i \<longrightarrow> i_command i = Some p \<longrightarrow> cmds' p = None"
      "\<forall>p. cmds1 p = None \<longrightarrow> cmds' p = None"
    using Cons.IH [OF _ _ d(2)] by blast
  have r: "(insts(k := None)) |` (- set ks) = insts |` (- set (k # ks))"
    by (auto simp: restrict_map_def fun_eq_iff)
  have "cmds' p = None" if "k' \<in> set (k # ks)" "insts k' = Some i'" "i_command i' = Some p" for k' i' p
    using that c(3,4) d(3) i Cons.prems(1) by (cases "k' = k") auto
  moreover have "cmds' p = None" if "cmds p = None" for p
    using that c(4) d(3) by simp
  ultimately show ?case
    using d(1) c(1,2) unfolding r by (intro exI [of _ cmds']) auto
qed

lemma for_each_concat: "for_each (concat (map g xs)) f s = for_each xs (\<lambda>x. for_each (g x) f) s"
proof (induction xs arbitrary: s)
  case Nil
  then show ?case by simp
next
  case (Cons x xs)
  then show ?case by (cases "for_each (g x) f s") (simp_all add: for_each_append)
qed

lemma for_each_cong: "(\<And>x s. x \<in> set xs \<Longrightarrow> f x s = g x s) \<Longrightarrow> for_each xs f s = for_each xs g s"
proof (induction xs arbitrary: s)
  case Nil
  then show ?case by simp
next
  case (Cons x xs)
  then show ?case by (cases "f x s") simp_all
qed

definition all_instances :: "('t \<Rightarrow> u64 list) \<Rightarrow> 't list \<Rightarrow> instance_id list" where
  "all_instances walk ts = concat (map (\<lambda>j. map (iid (of_nat j)) (walk (ts ! j))) [0..<N])"

lemma destroy_trees_flat:
  assumes "length ts = N"
  shows "for_each [0..<N] (destroy_tree walk ts) st = for_each (all_instances walk ts) destroy_instance st"
  using assms unfolding all_instances_def for_each_concat
  by (intro for_each_cong) (simp add: destroy_tree_def)

lemma small_index: "j < N \<Longrightarrow> unat (of_nat j :: u64) = j"
  by (simp add: N_def unsigned_of_nat take_bit_nat_eq_self)

lemma set_all_instances:
  assumes "\<And>t. set (walk t) = keys t" and "agree keys ts insts"
  shows "set (all_instances walk ts) = dom insts"
proof -
  have "k \<in> set (all_instances walk ts) \<longleftrightarrow>
      unat (replica_id k) < N \<and> instance_id k \<in> keys (ts ! unat (replica_id k))" for k
  proof
    assume "k \<in> set (all_instances walk ts)"
    then show "unat (replica_id k) < N \<and> instance_id k \<in> keys (ts ! unat (replica_id k))"
      using assms(1) by (auto simp: all_instances_def small_index)
  next
    assume k: "unat (replica_id k) < N \<and> instance_id k \<in> keys (ts ! unat (replica_id k))"
    have "k = iid (of_nat (unat (replica_id k))) (instance_id k)" by (simp add: iid_def)
    with k show "k \<in> set (all_instances walk ts)"
      using assms(1) by (auto simp: all_instances_def intro!: bexI [of _ "unat (replica_id k)"] image_eqI)
  qed
  with assms(2) show ?thesis unfolding agree_def by (auto simp: dom_def)
qed

lemma distinct_all_instances:
  assumes "\<And>t. distinct (walk t)"
  shows "distinct (all_instances walk ts)"
  using assms by (auto simp: all_instances_def N_def upt_rec distinct_map inj_on_def)

text \<open>
  The cleanup of a coherent replica whose instances have their commands to themselves frees every
  instance and every command of one, each once.
\<close>

lemma destroy_replica_frees:
  assumes "\<And>t. set (walk t) = keys t" and "\<And>t. distinct (walk t)"
    and "coherent keys (lr_rep l)" and o: "owned (r_insts (lr_rep l)) (r_cmds (lr_rep l))"
  shows "\<exists>l'. destroy_replica walk l = Inr l' \<and> r_insts (lr_rep l') = Map.empty \<and> lr_handles l' = [] \<and> \<not> lr_running l' \<and>
    (\<forall>k i p. r_insts (lr_rep l) k = Some i \<longrightarrow> i_command i = Some p \<longrightarrow> r_cmds (lr_rep l') p = None)"
proof -
  let ?ks = "all_instances walk (r_index (lr_rep l))"
  have a: "agree keys (r_index (lr_rep l)) (r_insts (lr_rep l))" using assms(3) by (simp add: coherent_def)
  have s: "set ?ks = dom (r_insts (lr_rep l))" by (rule set_all_instances [OF assms(1) a])
  have d: "distinct ?ks" by (rule distinct_all_instances [OF assms(2)])
  have live: "\<forall>k \<in> set ?ks. r_insts (lr_rep l) k \<noteq> None" unfolding s by auto
  obtain cmds' where c: "for_each ?ks destroy_instance (r_insts (lr_rep l), r_cmds (lr_rep l)) =
        Inr (r_insts (lr_rep l) |` (- set ?ks), cmds')"
      "\<forall>k \<in> set ?ks. \<forall>i p. r_insts (lr_rep l) k = Some i \<longrightarrow> i_command i = Some p \<longrightarrow> cmds' p = None"
    using owned_destroy_all [OF d live o] by blast
  have e: "r_insts (lr_rep l) |` (- set ?ks) = Map.empty"
    unfolding s by (auto simp: restrict_map_def fun_eq_iff dom_def)
  have "destroy_replica walk l = Inr (l\<lparr>lr_running := False, lr_handles := [], lr_coroutines := [],
      lr_rep := (lr_rep l)\<lparr>r_insts := Map.empty, r_cmds := cmds'\<rparr>\<rparr>)"
    using c(1) a unfolding e by (simp add: destroy_replica_def Let_def destroy_trees_flat agree_def)
  moreover have "cmds' p = None" if "r_insts (lr_rep l) k = Some i" "i_command i = Some p" for k i p
    using c(2) that unfolding s by blast
  ultimately show ?thesis by simp
qed

text \<open>Two instances with one command make the cleanup free it twice.\<close>

lemma destroy_shared:
  assumes "insts k = Some i" and "insts k' = Some i'" and "k \<noteq> k'" and "i_command i = Some p" "i_command i' = Some p"
    and "cmds p \<noteq> None"
  shows "for_each [k, k'] destroy_instance (insts, cmds) = Inl Use_after_free"
  using assms by (auto simp: destroy_instance_def load_def)

end
