(* ===== verification/Epx_Boot.thy ===== *)
theory Epx_Boot
  imports Epx_Life Epx_Process Epx_Node_Witness Epx_Witness
begin

text \<open>
  The threads of a node from \<^verbatim>\<open>main\<close> to the end of the process: \<^verbatim>\<open>start\<close> of \<^verbatim>\<open>src/node.c\<close>, which creates the
  protocol's thread (\<^verbatim>\<open>run\<close>) and the executor (\<^verbatim>\<open>run_execute\<close>) and then starts the I/O, the tests of
  \<^verbatim>\<open>io->running\<close> at the head of the two threads' loops, and the signals of \<^verbatim>\<open>src/main.c\<close>, as interleaved steps.
\<close>

section \<open>Threads\<close>

text \<open>The protocol's thread: not created, on its way to the loop, at its test, in \<^verbatim>\<open>choose\<close>, ended.\<close>

datatype 'p thread = Absent | Created | Testing 'p | Choosing 'p | Over "'p option"

datatype exec_pc = No_executor | At_test | In_round | Ended

text \<open>
  \<^verbatim>\<open>main\<close>: before \<open>start\<close>, in it before the executor, before \<open>start_io\<close>, joining the protocol's thread, with
  the result of \<open>start\<close>, and after the signals are let through.
\<close>

datatype main_pc = Creating | Starting_executor | Starting_io | Joining | Started int | Unmasked

record ('t, 'd, 'a, 'r) boot =
  bt_io :: "('a, 'r) node_io"
  bt_main :: main_pc
  bt_thread :: "('t, 'd) replica thread"
  bt_exec :: exec_pc
  bt_pending :: bool
  bt_stopped :: bool

definition cancel_thread :: "'p thread \<Rightarrow> 'p thread" where
  "cancel_thread t = (case t of
     Absent \<Rightarrow> Absent | Created \<Rightarrow> Over None | Testing p \<Rightarrow> Over (Some p) | Choosing p \<Rightarrow> Over (Some p) | Over p \<Rightarrow> Over p)"

text \<open>
  The threads inherit the mask of \<^verbatim>\<open>main\<close>, in which the two signals are blocked until it lets them through; the
  handler runs \<open>stop\<close>.
\<close>

definition handler :: "('t, 'd, 'a, 'r) boot \<Rightarrow> ('t, 'd, 'a, 'r) boot" where
  "handler b = (case stop (bt_io b) of (io, cancelled) \<Rightarrow>
     b\<lparr>bt_io := io, bt_thread := (if cancelled then cancel_thread (bt_thread b) else bt_thread b),
       bt_pending := False, bt_stopped := True\<rparr>)"

section \<open>Steps\<close>

text \<open>
  \<open>creates\<close> to \<open>joins\<close> are \<open>start\<close> with the results of the calls it makes; \<open>prepares\<close> is the protocol's thread up
  to its loop.
\<close>

inductive boot_step :: "('t, 'g, 'd) env \<Rightarrow> ('t \<Rightarrow> u64 list) \<Rightarrow> 'd \<Rightarrow> ('t, 'd, 'a, 'r) boot \<Rightarrow> ('t, 'd, 'a, 'r) boot \<Rightarrow> bool"
  for E :: "('t, 'g, 'd) env" and walk :: "'t \<Rightarrow> u64 list" and kh :: 'd where
  creates: "bt_main b = Creating \<Longrightarrow> boot_step E walk kh b
    (if (rc :: int) \<noteq> 0 then b\<lparr>bt_main := Started (-1)\<rparr> else b\<lparr>bt_main := Starting_executor, bt_thread := Created\<rparr>)"
| creates_executor: "bt_main b = Starting_executor \<Longrightarrow> boot_step E walk kh b
    (if (rc :: int) \<noteq> 0 then b\<lparr>bt_main := Started (-1), bt_thread := cancel_thread (bt_thread b)\<rparr>
     else b\<lparr>bt_main := Starting_io, bt_exec := At_test\<rparr>)"
| starts_io: "bt_main b = Starting_io \<Longrightarrow> start_io ap r1 r2 r3 (bt_io b) = (io, rc) \<Longrightarrow> boot_step E walk kh b
    (if rc \<noteq> 0 then b\<lparr>bt_io := io, bt_main := Started (-1), bt_thread := cancel_thread (bt_thread b)\<rparr>
     else b\<lparr>bt_io := io, bt_main := Joining\<rparr>)"
| joins: "bt_main b = Joining \<Longrightarrow> bt_thread b = Over p \<Longrightarrow> boot_step E walk kh b (b\<lparr>bt_main := Started 0\<rparr>)"
| unmasks: "bt_main b = Started 0 \<Longrightarrow> boot_step E walk kh b (b\<lparr>bt_main := Unmasked\<rparr>)"
| prepares: "bt_thread b = Created \<Longrightarrow> run_thread E walk (nd_node_id (bt_io b)) kh cs gs [] l = Inr l' \<Longrightarrow> boot_step E walk kh b
    (b\<lparr>bt_thread := (if lr_running l' then Testing (lr_rep l') else Over (Some (lr_rep l')))\<rparr>)"
| enters: "bt_thread b = Testing r \<Longrightarrow> nd_running (bt_io b) \<Longrightarrow> boot_step E walk kh b (b\<lparr>bt_thread := Choosing r\<rparr>)"
| leaves: "bt_thread b = Testing r \<Longrightarrow> \<not> nd_running (bt_io b) \<Longrightarrow> boot_step E walk kh b (b\<lparr>bt_thread := Over (Some r)\<rparr>)"
| serves: "bt_thread b = Choosing r \<Longrightarrow> serve E x r = Inr (r', ok) \<Longrightarrow> boot_step E walk kh b
    (b\<lparr>bt_thread := (if ok then Testing r' else Over (Some r'))\<rparr>)"
| fails: "bt_thread b = Choosing r \<Longrightarrow> boot_step E walk kh b (b\<lparr>bt_thread := Over (Some r)\<rparr>)"
| rounds: "bt_exec b = At_test \<Longrightarrow> nd_running (bt_io b) \<Longrightarrow> boot_step E walk kh b (b\<lparr>bt_exec := In_round\<rparr>)"
| ends: "bt_exec b = At_test \<Longrightarrow> \<not> nd_running (bt_io b) \<Longrightarrow> boot_step E walk kh b (b\<lparr>bt_exec := Ended\<rparr>)"
| executes: "bt_exec b = In_round \<Longrightarrow> boot_step E walk kh b (b\<lparr>bt_exec := At_test\<rparr>)"
| signal: "boot_step E walk kh b (b\<lparr>bt_pending := True\<rparr>)"
| handles: "bt_pending b \<Longrightarrow> bt_main b = Unmasked \<Longrightarrow> boot_step E walk kh b (handler b)"

text \<open>The node as \<open>new_node\<close> leaves it.\<close>

definition booting :: "('a, 'r) node_io \<Rightarrow> ('t, 'd, 'a, 'r) boot" where
  "booting io = \<lparr>bt_io = io, bt_main = Creating, bt_thread = Absent, bt_exec = No_executor, bt_pending = False,
     bt_stopped = False\<rparr>"

inductive boot_reach :: "('t, 'g, 'd) env \<Rightarrow> ('t \<Rightarrow> u64 list) \<Rightarrow> 'd \<Rightarrow> ('a, 'r) io_env \<Rightarrow> ('t, 'd, 'a, 'r) boot \<Rightarrow> bool"
  for E :: "('t, 'g, 'd) env" and walk :: "'t \<Rightarrow> u64 list" and kh :: 'd and EI :: "('a, 'r) io_env" where
  fresh: "new_node EI zero nid local_addr remotes join = Inr io \<Longrightarrow> boot_reach E walk kh EI (booting io)"
| step: "boot_reach E walk kh EI b \<Longrightarrow> boot_step E walk kh b b' \<Longrightarrow> boot_reach E walk kh EI b'"

section \<open>Invariants\<close>

lemma booting_simps [simp]:
  "bt_io (booting io) = io" "bt_main (booting io) = Creating" "bt_thread (booting io) = Absent"
  "bt_exec (booting io) = No_executor" "\<not> bt_pending (booting io)" "\<not> bt_stopped (booting io)"
  by (simp_all add: booting_def)

lemma handler_simps [simp]:
  "bt_main (handler b) = bt_main b" "bt_thread (handler b) = cancel_thread (bt_thread b)" "bt_exec (handler b) = bt_exec b"
  "bt_stopped (handler b)" "\<not> bt_pending (handler b)" "bt_io (handler b) = stop_io (bt_io b)"
  by (simp_all add: handler_def stop_def)

definition joined :: "('t, 'd, 'a, 'r) boot \<Rightarrow> bool" where
  "joined b \<longleftrightarrow> (bt_main b = Creating \<longrightarrow> bt_thread b = Absent) \<and>
     (bt_main b = Started 0 \<or> bt_main b = Unmasked \<longrightarrow> (\<exists>p. bt_thread b = Over p)) \<and>
     (bt_stopped b \<longrightarrow> bt_main b = Unmasked)"

lemma joined_step: "boot_step E walk kh b b' \<Longrightarrow> joined b \<Longrightarrow> joined b'"
  by (induction rule: boot_step.induct) (auto simp: joined_def cancel_thread_def split: if_splits)

lemma joined_reach: "boot_reach E walk kh EI b \<Longrightarrow> joined b"
  by (induction rule: boot_reach.induct) (auto simp: joined_def [of "booting io" for io] intro: joined_step)

text \<open>An executor that ended is not created again.\<close>

lemma executor_ended: "boot_step E walk kh b b' \<Longrightarrow> bt_exec b = Ended \<Longrightarrow> bt_main b \<noteq> Starting_executor \<Longrightarrow>
    bt_main b \<noteq> Creating \<Longrightarrow> bt_exec b' = Ended \<and> bt_main b' \<noteq> Starting_executor \<and> bt_main b' \<noteq> Creating"
  by (induction rule: boot_step.induct) (auto split: if_splits)

text \<open>Once the I/O is started and until \<open>stop\<close>, the test lets the thread in.\<close>

lemma late_test_enters: "boot_step E walk kh b b' \<Longrightarrow> bt_thread b = Testing r \<Longrightarrow> nd_running (bt_io b) \<Longrightarrow> bt_main b = Joining \<Longrightarrow>
    bt_thread b' = Testing r \<or> bt_thread b' = Choosing r"
  by (induction rule: boot_step.induct) (auto split: if_splits)

lemma node_connect_fields: "nd_running (fst (node_connect EI a fd n)) = nd_running n" "nd_node_id (fst (node_connect EI a fd n)) = nd_node_id n"
  by (simp_all add: node_connect_def Let_def split: option.split)

lemma new_node_stopped: "new_node EI zero nid local_addr remotes join = Inr io \<Longrightarrow> \<not> nd_running io \<and> nd_node_id io = nid"
  unfolding new_node_def Let_def
  by (erule for_each_invariant [where P = "\<lambda>n. \<not> nd_running n \<and> nd_node_id n = nid"])
    (auto simp: and_then_eq_Inr node_connect_fields split: if_splits)

section \<open>A node that starts\<close>

definition ready_replica :: "('t, 'g, 'd) env \<Rightarrow> u64 \<Rightarrow> 'd \<Rightarrow> ('t, 'd) replica" where
  "ready_replica E rid kh = emit (Timeouts_add Replica_timer 0) (emit (Timeouts_add Replica_timer 0) (new_replica E rid kh))"

lemma run_thread_ready:
  "\<exists>l l'. run_thread E walk rid kh (0, 0, 0, 0) (0, 0, 0) [] l = Inr l' \<and> lr_running l' \<and> lr_rep l' = ready_replica E rid kh"
  by (rule exI [of _ "\<lparr>lr_rep = new_replica E rid kh, lr_running = False, lr_handles = [], lr_coroutines = [],
        lr_frequency = 0, lr_checkpoint = 0, lr_interval = 0\<rparr>"])
    (simp add: run_thread_def open_replica_def run_replica_def add_timer_def int_shl_def ready_replica_def)

lemma ready_replica_insts [simp]: "r_insts (ready_replica E rid kh) = Map.empty"
  by (simp add: ready_replica_def new_replica_def)

text \<open>The two threads are created and the protocol's thread is at its test; the I/O is not started.\<close>

lemma reach_created:
  fixes E :: "('t, 'g, 'd) env" and EI :: "('a, 'r) io_env"
  assumes io: "new_node EI zero nid local_addr remotes join = Inr io"
  shows "boot_reach E walk kh EI ((booting io)\<lparr>bt_main := Starting_io, bt_thread := Testing (ready_replica E nid kh), bt_exec := At_test\<rparr>)"
proof -
  let ?b1 = "(booting io)\<lparr>bt_main := Starting_executor, bt_thread := Created\<rparr> :: ('t, 'd, 'a, 'r) boot"
  let ?b2 = "?b1\<lparr>bt_main := Starting_io, bt_exec := At_test\<rparr>"
  obtain l l' where l: "run_thread E walk nid kh (0, 0, 0, 0) (0, 0, 0) [] l = Inr l'" "lr_running l'" "lr_rep l' = ready_replica E nid kh"
    using run_thread_ready [of E walk nid kh] by blast
  have 1: "boot_reach E walk kh EI ?b1"
    by (rule boot_reach.step [OF boot_reach.fresh [OF io]])
      (use boot_step.creates [of "booting io" E walk kh 0] in simp)
  have 2: "boot_reach E walk kh EI ?b2"
    by (rule boot_reach.step [OF 1]) (use boot_step.creates_executor [of ?b1 E walk kh 0] in simp)
  have "boot_step E walk kh ?b2 (?b2\<lparr>bt_thread := Testing (ready_replica E nid kh)\<rparr>)"
    using boot_step.prepares [of ?b2 E walk kh "(0, 0, 0, 0)" "(0, 0, 0)" l l'] l new_node_stopped [OF io] by simp
  from boot_reach.step [OF 2 this] show ?thesis by (simp add: booting_def)
qed

lemma step_starts_io: "bt_main b = Starting_io \<Longrightarrow>
    boot_step E walk kh b (b\<lparr>bt_io := (bt_io b)\<lparr>nd_running := True\<rparr>, bt_main := Joining\<rparr>)"
  using boot_step.starts_io [of b 0 0 0 0 "(bt_io b)\<lparr>nd_running := True\<rparr>" 0 E walk kh] by (simp add: start_io_def)

text \<open>
  C19. \<^verbatim>\<open>start\<close> sets \<^verbatim>\<open>io->running\<close> after it created the threads that test it. The protocol's thread may have
  ended by then without a message served, and \<open>start\<close> still reports success while the I/O runs; or the
  executor may have ended, and the replica serves messages whose instances nobody executes.
\<close>

theorem start_race:
  fixes E :: "('t, 'g, 'd) env" and EI :: "('a, 'r) io_env"
  assumes "new_node EI zero nid local_addr remotes join = Inr io"
  shows "(\<exists>b r. boot_reach E walk kh EI b \<and> bt_main b = Started 0 \<and> nd_running (bt_io b) \<and>
      bt_thread b = Over (Some r) \<and> r_insts r = Map.empty) \<and>
    (\<exists>b r. boot_reach E walk kh EI b \<and> bt_main b = Joining \<and> nd_running (bt_io b) \<and> bt_thread b = Choosing r \<and>
      bt_exec b = Ended)"
proof (intro conjI)
  let ?r = "ready_replica E nid kh"
  let ?c = "(booting io)\<lparr>bt_main := Starting_io, bt_thread := Testing ?r, bt_exec := At_test\<rparr> :: ('t, 'd, 'a, 'r) boot"
  have c: "boot_reach E walk kh EI ?c" and io: "\<not> nd_running io"
    using reach_created [OF assms] new_node_stopped [OF assms] by simp_all
  have "boot_reach E walk kh EI (?c\<lparr>bt_thread := Over (Some ?r)\<rparr>)"
    using boot_reach.step [OF c boot_step.leaves [of ?c ?r E walk kh]] io by simp
  from boot_reach.step [OF this step_starts_io] have o:
      "boot_reach E walk kh EI (?c\<lparr>bt_thread := Over (Some ?r), bt_io := io\<lparr>nd_running := True\<rparr>, bt_main := Joining\<rparr>)"
    by simp
  show "\<exists>b r. boot_reach E walk kh EI b \<and> bt_main b = Started 0 \<and> nd_running (bt_io b) \<and>
      bt_thread b = Over (Some r) \<and> r_insts r = Map.empty"
    by (rule exI, rule exI [of _ ?r], rule conjI, rule boot_reach.step [OF o boot_step.joins]) simp_all
  have "boot_reach E walk kh EI (?c\<lparr>bt_exec := Ended\<rparr>)"
    using boot_reach.step [OF c boot_step.ends [of ?c E walk kh]] io by simp
  from boot_reach.step [OF this step_starts_io] have e:
      "boot_reach E walk kh EI (?c\<lparr>bt_exec := Ended, bt_io := io\<lparr>nd_running := True\<rparr>, bt_main := Joining\<rparr>)"
    by simp
  show "\<exists>b r. boot_reach E walk kh EI b \<and> bt_main b = Joining \<and> nd_running (bt_io b) \<and> bt_thread b = Choosing r \<and>
      bt_exec b = Ended"
    by (rule exI, rule exI [of _ ?r], rule conjI, rule boot_reach.step [OF e boot_step.enters]) simp_all
qed

theorem start_race_witness:
  "\<exists>b r. boot_reach ex_env id (\<lambda>_. None) ex_io b \<and> bt_main b = Started 0 \<and> bt_thread b = Over (Some r) \<and> r_insts r = Map.empty"
  using start_race [OF ex_node_new(1), of ex_env id "\<lambda>_. None"] by blast

text \<open>
  C20. The signals that ask the program to stop reach it only when there is nothing to stop: as long as the
  protocol's thread serves messages, no step handles a signal, however long one is pending.
\<close>

theorem signals_wait_for_end:
  assumes "boot_reach E walk kh EI b" and "bt_thread b = Testing r \<or> bt_thread b = Choosing r"
    and "boot_step E walk kh b b'"
  shows "\<not> bt_stopped b \<and> \<not> bt_stopped b' \<and> (bt_pending b \<longrightarrow> bt_pending b')"
proof -
  have j: "joined b" using assms(1) by (rule joined_reach)
  with assms(2) have m: "bt_main b \<noteq> Unmasked" by (auto simp: joined_def)
  with j have s: "\<not> bt_stopped b" by (auto simp: joined_def)
  from assms(3) m s show ?thesis
    by (induction rule: boot_step.induct) auto
qed

theorem signals_wait_for_end_witness:
  "\<exists>b :: (u64 list, u64 \<Rightarrow> u64 option, nat, nat list) boot. boot_reach ex_env id (\<lambda>_. None) ex_io b \<and> bt_pending b \<and>
     bt_thread b = Testing (ready_replica ex_env 1 (\<lambda>_. None)) \<and> \<not> bt_stopped b"
proof -
  let ?c = "(booting ex_node)\<lparr>bt_main := Starting_io, bt_thread := Testing (ready_replica ex_env 1 (\<lambda>_. None)), bt_exec := At_test\<rparr>"
  have c: "boot_reach ex_env id (\<lambda>_. None) ex_io ?c" using reach_created [OF ex_node_new(1)] .
  have p: "boot_reach ex_env id (\<lambda>_. None) ex_io (?c\<lparr>bt_pending := True\<rparr>)"
    by (rule boot_reach.step [OF c boot_step.signal])
  have "\<not> bt_stopped (?c\<lparr>bt_pending := True\<rparr>)"
    using signals_wait_for_end [OF p _ boot_step.signal, of "ready_replica ex_env 1 (\<lambda>_. None)"] by simp
  with p show ?thesis by (intro exI [of _ "?c\<lparr>bt_pending := True\<rparr>"]) simp
qed

end
