(* ===== verification/Spec2Isabelle.thy ===== *)
theory Spec2Isabelle
  imports Epx_Prelude Epx_Command Epx_Sort Epx_Instance Epx_Deps Epx_Index Epx_Merge Epx_Index_Laws Epx_Walks
    Epx_Replica Epx_Handlers Epx_Invariant Epx_Reachable Epx_Protocol Epx_Witness
    Epx_Execute Epx_Tarjan Epx_Components Epx_Executor Epx_Execution Epx_Executor_Props
    Epx_Executor_Witness Epx_Channel Epx_Chan Epx_Wire Epx_Wire_Witness Epx_Sock Epx_Transport
    Epx_Io Epx_Io_Laws Epx_Connect Epx_Node Epx_Node_Witness Epx_Clients Epx_Clients_Laws Epx_Clients_Props
    Epx_Clients_Witness Epx_Network Epx_Process Epx_Storage Epx_Life Epx_Boot
begin

text \<open>
  A verification development for \<^verbatim>\<open>epx\<close>, an Egalitarian Paxos replica in C.

  \<^bold>\<open>The program.\<close> A node runs three kinds of threads. The protocol thread (\<^verbatim>\<open>src/epaxos.c\<close>, on the state of
  \<^verbatim>\<open>src/replica.c\<close>, \<^verbatim>\<open>src/index.c\<close> and \<^verbatim>\<open>src/instance.c\<close>) serves clock ticks, messages of other replicas and
  commands of clients; it decides on instances and hands what it decided to the executor thread
  (\<^verbatim>\<open>src/execute.c\<close>), which runs the strongly connected components of the dependency graph in order. The
  I/O threads (\<^verbatim>\<open>src/io.c\<close>) keep one connection to every node, each with a framed message socket
  (\<^verbatim>\<open>src/fbs_sock.c\<close>) whose frames hold flatbuffer tables (\<^verbatim>\<open>src/message.c\<close>, \<^verbatim>\<open>src/command.c\<close>,
  \<^verbatim>\<open>src/fbs/epx.fbs\<close>), and the ranges that clients subscribe to. The threads talk over the channels of
  \<^verbatim>\<open>src/channel.c\<close> and \<^verbatim>\<open>src/simple_channel.c\<close>; \<^verbatim>\<open>src/node.c\<close> and \<^verbatim>\<open>src/main.c\<close> put the node together.

  \<^bold>\<open>How the code is modelled.\<close> A C function that can fault returns a sum (\<open>'a res\<close> of \<open>Epx_Prelude\<close>): a null
  dereference, a use of freed memory, of a variable whose block has ended, and an access outside an array are values. Integers keep their
  width (\<^typ>\<open>64 word\<close> for \<^verbatim>\<open>size_t\<close> and \<^verbatim>\<open>uint64_t\<close>). Memory that is shared is a map from addresses: the
  instances, whose address is their identifier, the commands, the messages of a node, the nodes of
  the executor, the registered ranges. Libraries are parameters: the \<^verbatim>\<open>llrb-interval\<close> trees (\<open>tree_lib\<close>,
  \<open>client_lib\<close>), \<^verbatim>\<open>khash\<close> (\<open>vertex_lib\<close>, \<open>dh_get\<close>, \<open>dh_put\<close>), the rings of Concurrency Kit
  (\<open>ring_lib\<close>), libdill's sockets (\<open>stream_lib\<close>, \<open>net\<close>), the byte layout of flatbuffers
  (\<open>finalize\<close>, \<open>as_root\<close>), RocksDB (\<open>rocks\<close>), \<^verbatim>\<open>malloc\<close>. What the code relies on is a named hypothesis (\<open>index_laws\<close>,
  \<open>vertex_laws\<close>, \<open>ring_laws\<close>, \<open>send_laws\<close>, \<open>recv_laws\<close>,
  \<open>rocks_ok\<close>), and each is shown to hold of a concrete
  implementation that the witnesses use.

  \<^bold>\<open>Data and index.\<close>
  \<^item> \<open>Epx_Prelude\<close>: the fault monad, arrays, counted loops, constants, generic lemmas.
  \<^item> \<open>Epx_Command\<close> (\<^verbatim>\<open>command.c\<close>, \<^verbatim>\<open>instance_id.c\<close>): keys with their linear order, ranges, interference. The
    overlap of two commands is specified as the list of overlapping pairs.
  \<^item> \<open>Epx_Sort\<close>: the locale of the shifting insertion sorts, interpreted for \<open>sort_deps\<close> and \<open>sort_scc\<close>.
  \<^item> \<open>Epx_Instance\<close>, \<open>Epx_Deps\<close> (\<^verbatim>\<open>instance.c\<close>, \<^verbatim>\<open>message.h\<close>): ballots, states, and the fixed array of
    dependencies with its well-formedness and list specification.
  \<^item> \<open>Epx_Index\<close>, \<open>Epx_Index_Laws\<close>, \<open>Epx_Walks\<close> (\<^verbatim>\<open>index.c\<close>): the walks over an instance tree. A loop over a
    tree has fuel; that the size of the tree is enough, so that \<open>Loop_bound\<close> is never reported, is proved for
    each loop and for whole messages. The tree of ranges that a walk builds carries a flag for the address of the
    block-local \<^verbatim>\<open>nsp\<close> that the code puts into it: a call into the library after the block has ended is the fault
    \<open>Use_after_scope\<close>.
  \<^item> \<open>Epx_Merge\<close>: what merging a range into a list of ranges is to do, by the places of those that are taken in;
    the specification of \<^verbatim>\<open>merge\<close> (\<^verbatim>\<open>index.c\<close>) and of \<^verbatim>\<open>merge_clients\<close> (\<^verbatim>\<open>io.c\<close>).

  \<^bold>\<open>Protocol.\<close>
  \<^item> \<open>Epx_Replica\<close>, \<open>Epx_Handlers\<close> (\<^verbatim>\<open>replica.c\<close>, \<^verbatim>\<open>epaxos.c\<close>): the state, every handler, the timers and the
    loop; what is sent to other threads is recorded in order.
  \<^item> \<open>Epx_Invariant\<close>, \<open>Epx_Reachable\<close>: trees and heap agree, in every state that serving inputs
    reaches. Of the arrays of dependencies that come from other nodes nothing is assumed but their size.
  \<^item> \<open>Epx_Protocol\<close>: what handlers change and keep: committed instances, ballots, promises, with
    the cases in which the code does not keep a decision.

  \<^bold>\<open>Executor.\<close>
  \<^item> \<open>Epx_Execute\<close> (\<^verbatim>\<open>execute.c\<close>): components, order, execution. \<open>visit\<close> has fuel for the depth of its
    recursion; the number of vertices is enough.
  \<^item> \<open>Epx_Tarjan\<close>, \<open>Epx_Components\<close>: the invariant of the search and its result, the strongly connected
    components in order, or an overrun of the arrays of \<open>MAX_DEPS\<close> entries.
  \<^item> \<open>Epx_Executor\<close>, \<open>Epx_Execution\<close>, \<open>Epx_Executor_Props\<close>: sorting, and a whole pass over the pending
    instances.

  \<^bold>\<open>Channels, wire and sockets.\<close>
  \<^item> \<open>Epx_Channel\<close> (\<^verbatim>\<open>simple_channel.c\<close>): the locale of a bounded queue, interpreted on the ring buffer; the
    interleavings of senders and receivers as a step relation with its invariant, the failures of the
    semaphores and of the lock included.
  \<^item> \<open>Epx_Chan\<close> (\<^verbatim>\<open>channel.c\<close>): the wrappers of the rings, with and without semaphores.
  \<^item> \<open>Epx_Wire\<close> (\<^verbatim>\<open>message.c\<close>, \<^verbatim>\<open>command.c\<close>): messages and commands to tables and back.
  \<^item> \<open>Epx_Sock\<close> (\<^verbatim>\<open>fbs_sock.c\<close>): handshake, header, frames; \<open>Epx_Transport\<close> composes it with \<open>Epx_Wire\<close>.

  \<^bold>\<open>Node.\<close>
  \<^item> \<open>Epx_Io\<close>, \<open>Epx_Io_Laws\<close> (\<^verbatim>\<open>io.c\<close>): connections, the preferred quorum, broadcasts, the counter of a
    message.
  \<^item> \<open>Epx_Connect\<close>: the connecting thread, whose loop ends after three attempts, and the listeners.
  \<^item> \<open>Epx_Node\<close>: the steps of a node, their invariant, and what becomes of the replica's messages.
  \<^item> \<open>Epx_Clients\<close>, \<open>Epx_Clients_Laws\<close>, \<open>Epx_Clients_Props\<close>: subscribed ranges on linked lists
    (\<^verbatim>\<open>queue.h\<close>), refined to lists; a client's connection; the notification of clients. The walks over a
    list have fuel; its length is enough.
  \<^item> \<open>Epx_Network\<close>: a message from the queue of one node to the channel of another node's replica.
  \<^item> \<open>Epx_Process\<close> (\<^verbatim>\<open>node.c\<close>, \<^verbatim>\<open>main.c\<close>): options, channels between the threads, \<open>start\<close> and \<open>stop\<close>.
  \<^item> \<open>Epx_Life\<close> (\<^verbatim>\<open>replica.c\<close>, \<^verbatim>\<open>epaxos.c\<close>): the protocol's thread from its set-up to its cleanup.
  \<^item> \<open>Epx_Boot\<close> (\<^verbatim>\<open>node.c\<close>, \<^verbatim>\<open>main.c\<close>): the threads of a node and the signals as interleaved steps.

  \<^bold>\<open>Storage.\<close>
  \<^item> \<open>Epx_Storage\<close> (\<^verbatim>\<open>storage.cpp\<close>): the store over RocksDB as a map from keys to strings. The node does not
    use it yet.

  The theories named \<open>Witness\<close> hold the concrete replicas, executors, channels and nodes at which the
  properties are applied.

  \<^bold>\<open>Concurrency.\<close> The interleavings of \<open>simple_chan\<close> are modelled step by step. Elsewhere a step is one
  round of a coroutine or one attempt of a thread: the rings are assumed to behave as their library says,
  and races on plain fields (the executor's reads of the replica's trees, the node's writes to a message
  it has queued) are not modelled, except where a property is about their order. \<open>Epx_Boot\<close> interleaves the
  tests of \<^verbatim>\<open>io->running\<close> with the steps of \<^verbatim>\<open>main\<close>.

  \<^bold>\<open>Not modelled.\<close> \<^verbatim>\<open>src/fsync.c\<close> is empty. Of \<^verbatim>\<open>src/queue.h\<close>, vendored from BSD, only the list operations
  that the code uses are modelled. Of \<^verbatim>\<open>src/io.c\<close> the calls that only create threads, coroutines and
  handles are left out (\<^verbatim>\<open>client_handler\<close>, \<^verbatim>\<open>listener\<close>), as are \<^verbatim>\<open>fd_closer\<close>, which closes a socket, and
  \<^verbatim>\<open>set_pthread_attr\<close>, which nothing calls; of \<^verbatim>\<open>src/replica.c\<close> the coroutine \<^verbatim>\<open>tcl\<close>, which only sends
  and sleeps; of \<^verbatim>\<open>src/fbs_sock.c\<close> the functions libdill calls back (\<^verbatim>\<open>fbs_sock_hquery\<close>,
  \<^verbatim>\<open>fbs_sock_hclose\<close>). Printing is left out.
\<close>

end
